(* ===== verification/Prelude.thy ===== *)
theory Prelude
  imports Complex_Main
begin

text \<open>
  What every component of the development shares: the result monad in which a
  throwing function of the source is written, the list and text functions of the
  language the source calls (\<open>indexOf\<close>, \<open>split\<close>, \<open>join\<close>, \<open>String(n)\<close>,
  \<open>Number("12")\<close>), and the collections of rewrite rules the component proofs use.
\<close>

named_theorems result_simps \<open>rules that unfold the result monad\<close>
named_theorems text_simps \<open>rules about cutting and joining text\<close>

text \<open>Text is its UTF-8 bytes; \<open>dash\<close> is the dash of the messages, between its spaces.\<close>

definition dash :: string where
  "dash = [CHR '' '', CHR 0xE2, CHR 0x80, CHR 0x94, CHR '' '']"

section \<open>Results: a thrown value on the left, a returned one on the right\<close>

fun bindE :: "'e + 'a \<Rightarrow> ('a \<Rightarrow> 'e + 'b) \<Rightarrow> 'e + 'b" where
  "bindE (Inl e) f = Inl e"
| "bindE (Inr x) f = f x"

fun catchE :: "'e + 'a \<Rightarrow> ('e \<Rightarrow> 'f + 'a) \<Rightarrow> 'f + 'a" where
  "catchE (Inl e) h = h e"
| "catchE (Inr x) h = Inr x"

text \<open>
  \<open>Promise.all(xs.map(f))\<close>, for computations that do not touch shared state: every
  value in the order of the list, or the failure of the first entry that fails.
\<close>

fun mapE :: "('a \<Rightarrow> 'e + 'b) \<Rightarrow> 'a list \<Rightarrow> 'e + 'b list" where
  "mapE f [] = Inr []"
| "mapE f (x # xs) =
     (case f x of Inl e \<Rightarrow> Inl e
      | Inr y \<Rightarrow> (case mapE f xs of Inl e \<Rightarrow> Inl e | Inr ys \<Rightarrow> Inr (y # ys)))"

lemma bindE_cong [fundef_cong]:
  "m = m' \<Longrightarrow> (\<And>x. m' = Inr x \<Longrightarrow> f x = f' x) \<Longrightarrow> bindE m f = bindE m' f'"
  by (cases m') auto

lemma mapE_cong [fundef_cong]:
  "xs = ys \<Longrightarrow> (\<And>x. x \<in> set ys \<Longrightarrow> f x = g x) \<Longrightarrow> mapE f xs = mapE g ys"
  by (induction ys arbitrary: xs) (auto split: sum.splits)

lemma bindE_Inr_iff [result_simps]:
  "bindE m f = Inr y \<longleftrightarrow> (\<exists>x. m = Inr x \<and> f x = Inr y)"
  by (cases m) auto

lemma bindE_Inl_iff:
  "bindE m f = Inl e \<longleftrightarrow> m = Inl e \<or> (\<exists>x. m = Inr x \<and> f x = Inl e)"
  by (cases m) auto

lemma catchE_Inr_iff:
  "catchE m h = Inr y \<longleftrightarrow> m = Inr y \<or> (\<exists>e. m = Inl e \<and> h e = Inr y)"
  by (cases m) auto

lemma catchE_throw_Inr [result_simps]: "catchE m (\<lambda>e. Inl (h e)) = Inr y \<longleftrightarrow> m = Inr y"
  by (cases m) auto

lemma mapE_Inr_iff: "mapE f xs = Inr ys \<longleftrightarrow> list_all2 (\<lambda>x y. f x = Inr y) xs ys"
proof (induction xs arbitrary: ys)
  case Nil
  show ?case by auto
next
  case (Cons x xs)
  show ?case
  proof (cases ys)
    case Nil
    then show ?thesis by (simp split: sum.splits)
  next
    case (Cons y ys')
    then show ?thesis
      using Cons.IH [of ys'] by (auto split: sum.splits)
  qed
qed

lemma mapE_Inl_iff:
  "(\<exists>e. mapE f xs = Inl e) \<longleftrightarrow> (\<exists>x \<in> set xs. \<exists>e. f x = Inl e)"
  by (induction xs) (auto split: sum.splits)

lemma mapE_length: "mapE f xs = Inr ys \<Longrightarrow> length ys = length xs"
  by (simp add: mapE_Inr_iff list_all2_lengthD)

lemma mapE_all_Inr: "(\<And>x. x \<in> set xs \<Longrightarrow> f x = Inr (g x)) \<Longrightarrow> mapE f xs = Inr (map g xs)"
  by (induction xs) auto

lemma mapE_set: "mapE f xs = Inr ys \<Longrightarrow> y \<in> set ys \<Longrightarrow> \<exists>x \<in> set xs. f x = Inr y"
  by (induction xs arbitrary: ys) (auto split: sum.splits)

lemma mapE_append_Inl:
  "mapE f xs = Inr ys \<Longrightarrow> f x = Inl e \<Longrightarrow> mapE f (xs @ x # zs) = Inl e"
  by (induction xs arbitrary: ys) (auto split: sum.splits)

section \<open>Lists\<close>

text \<open>\<open>[...new Set(xs)]\<close>: the distinct entries, each where it first occurred.\<close>

fun uniq :: "'a list \<Rightarrow> 'a list" where
  "uniq [] = []"
| "uniq (x # xs) = x # removeAll x (uniq xs)"

lemma set_uniq [simp]: "set (uniq xs) = set xs"
  by (induction xs) auto

lemma distinct_uniq [simp]: "distinct (uniq xs)"
  by (induction xs) (auto simp: distinct_removeAll)

lemma uniq_eq_Nil [simp]: "uniq xs = [] \<longleftrightarrow> xs = []"
  by (cases xs) auto

lemma find_Some_in: "find P xs = Some x \<Longrightarrow> x \<in> set xs \<and> P x"
  by (auto simp: find_Some_iff)

lemma find_append: "find P (xs @ ys) = (case find P xs of None \<Rightarrow> find P ys | Some x \<Rightarrow> Some x)"
  by (induction xs) simp_all

lemma map_of_distinct_eq:
  "distinct (map fst kvs) \<Longrightarrow> (k, v) \<in> set kvs \<Longrightarrow> map_of kvs k = Some v"
  by simp

section \<open>Text\<close>

text \<open>
  \<open>cut_at c s\<close> is what \<open>indexOf\<close> and two \<open>slice\<close> calls give: the text before the
  first \<open>c\<close> and the text behind it, and nothing where \<open>c\<close> does not occur.
\<close>

fun cut_at :: "char \<Rightarrow> string \<Rightarrow> (string \<times> string) option" where
  "cut_at c [] = None"
| "cut_at c (x # xs) =
     (if x = c then Some ([], xs) else map_option (\<lambda>(a, b). (x # a, b)) (cut_at c xs))"

lemma cut_at_append [text_simps]: "c \<notin> set a \<Longrightarrow> cut_at c (a @ c # b) = Some (a, b)"
  by (induction a) auto

lemma cut_at_Some: "cut_at c s = Some (a, b) \<longleftrightarrow> s = a @ c # b \<and> c \<notin> set a"
  by (induction c s arbitrary: a b rule: cut_at.induct) (auto simp: Cons_eq_append_conv)

lemma cut_at_None [text_simps]: "cut_at c s = None \<longleftrightarrow> c \<notin> set s"
  by (induction c s rule: cut_at.induct) auto

text \<open>\<open>s.split(c)\<close> for a separator of one character.\<close>

fun split_on :: "char \<Rightarrow> string \<Rightarrow> string list" where
  "split_on c [] = [[]]"
| "split_on c (x # xs) =
     (if x = c then [] # split_on c xs
      else (case split_on c xs of [] \<Rightarrow> [[x]] | p # ps \<Rightarrow> (x # p) # ps))"

lemma split_on_Nil [simp]: "split_on c s \<noteq> []"
  by (cases s) (auto split: list.splits)

lemma split_on_no_sep [text_simps]: "c \<notin> set s \<Longrightarrow> split_on c s = [s]"
  by (induction s) auto

lemma split_on_append [text_simps]: "split_on c (a @ c # b) = split_on c a @ split_on c b"
  by (induction a) (auto split: list.splits)

text \<open>\<open>xs.join(sep)\<close>\<close>

fun join :: "string \<Rightarrow> string list \<Rightarrow> string" where
  "join sep [] = []"
| "join sep [x] = x"
| "join sep (x # y # ys) = x @ sep @ join sep (y # ys)"

section \<open>Decimal text of a whole number\<close>

definition digits :: string where
  "digits = ''0123456789''"

definition digit_val :: "char \<Rightarrow> nat option" where
  "digit_val c = map_of (zip digits [0, 1, 2, 3, 4, 5, 6, 7, 8, 9]) c"

text \<open>\<open>String(n)\<close> for a whole number of 0 or more.\<close>

fun show_nat :: "nat \<Rightarrow> string" where
  "show_nat n = (if n < 10 then [digits ! n] else show_nat (n div 10) @ [digits ! (n mod 10)])"

declare show_nat.simps [simp del]

text \<open>\<open>Number(s)\<close> for a text of digits only; nothing for any other text.\<close>

fun read_digits :: "nat \<Rightarrow> string \<Rightarrow> nat option" where
  "read_digits n [] = Some n"
| "read_digits n (c # cs) =
     (case digit_val c of None \<Rightarrow> None | Some d \<Rightarrow> read_digits (10 * n + d) cs)"

definition read_nat :: "string \<Rightarrow> nat option" where
  "read_nat s = (if s = [] then None else read_digits 0 s)"

lemma lt_10_cases:
  "(n :: nat) < 10 \<Longrightarrow> n \<in> {0, 1, 2, 3, 4, 5, 6, 7, 8, 9}"
  by auto

lemma digit_val_nth [simp]: "n < 10 \<Longrightarrow> digit_val (digits ! n) = Some n"
  by (drule lt_10_cases) (auto simp: digits_def digit_val_def)

lemma read_digits_append:
  "read_digits n (s @ t) = (case read_digits n s of None \<Rightarrow> None | Some m \<Rightarrow> read_digits m t)"
  by (induction n s rule: read_digits.induct) (auto split: option.splits)

lemma show_nat_neq_Nil [simp]: "show_nat n \<noteq> []"
  by (subst show_nat.simps) simp

lemma read_digits_show_nat: "read_digits 0 (show_nat n) = Some n"
proof (induction n rule: show_nat.induct)
  case (1 n)
  show ?case
  proof (cases "n < 10")
    case True
    then show ?thesis by (subst show_nat.simps) simp
  next
    case False
    then have "read_digits 0 (show_nat (n div 10)) = Some (n div 10)" by (rule "1.IH")
    with False show ?thesis by (subst show_nat.simps) (simp add: read_digits_append)
  qed
qed

lemma read_show_nat [simp]: "read_nat (show_nat n) = Some n"
  by (simp add: read_nat_def read_digits_show_nat)

lemma show_nat_inject [simp]: "show_nat m = show_nat n \<longleftrightarrow> m = n"
  by (metis option.inject read_show_nat)

lemma length_digits [simp]: "length digits = 10"
  by (simp add: digits_def)

lemma digits_nth_in: "n < 10 \<Longrightarrow> digits ! n \<in> set digits"
  by (rule nth_mem) simp

lemma set_show_nat: "set (show_nat n) \<subseteq> set digits"
proof (induction n rule: show_nat.induct)
  case (1 n)
  then show ?case
    by (subst show_nat.simps) (auto simp: digits_nth_in)
qed

lemma show_nat_no_colon [simp]: "CHR '':'' \<notin> set (show_nat n)"
  using set_show_nat [of n] by (auto simp: digits_def)

section \<open>Text that opens or closes with a given text\<close>

definition starts_with :: "string \<Rightarrow> string \<Rightarrow> bool" where
  "starts_with p s \<longleftrightarrow> take (length p) s = p"

definition ends_with :: "string \<Rightarrow> string \<Rightarrow> bool" where
  "ends_with p s \<longleftrightarrow> length p \<le> length s \<and> drop (length s - length p) s = p"

lemma starts_with_append [text_simps]: "starts_with p (p @ s)"
  by (simp add: starts_with_def)

lemma starts_with_iff: "starts_with p s \<longleftrightarrow> (\<exists>t. s = p @ t)"
  by (metis append_eq_conv_conj append_take_drop_id starts_with_def)

lemma ends_with_append [text_simps]: "ends_with p (s @ p)"
  by (simp add: ends_with_def)

lemma ends_with_iff: "ends_with p s \<longleftrightarrow> (\<exists>t. s = t @ p)"
proof
  assume "ends_with p s"
  then have "s = take (length s - length p) s @ p"
    by (metis append_take_drop_id ends_with_def)
  then show "\<exists>t. s = t @ p" by blast
next
  assume "\<exists>t. s = t @ p"
  then show "ends_with p s" by (auto simp: ends_with_append)
qed

end
