(* ===== verification/Js.thy ===== *)
theory Js
  imports Prelude
begin

text \<open>
  The values of the language the program is written in, as far as its code looks
  at them: numbers with the comparisons and \<open>Number.isInteger\<close>, the dynamic
  values an \<open>unknown\<close> parameter ranges over, \<open>typeof\<close>, \<open>Reflect.get\<close>,
  \<open>String(v)\<close>, and the projection a value goes through when it is stored as JSON
  and read back.

  A finite number is an exact rational: the code adds 1, takes a maximum, rounds a
  quotient by 1000 and compares, and none of it depends on the rounding of a
  double. Objects are the lists of their own properties, in order.
\<close>

section \<open>Numbers\<close>

datatype jnum = JFin rat | JInf | JNegInf | JNaN

fun num_le :: "jnum \<Rightarrow> jnum \<Rightarrow> bool" where
  "num_le JNaN b = False"
| "num_le a JNaN = False"
| "num_le JNegInf b = True"
| "num_le a JInf = True"
| "num_le (JFin a) (JFin b) = (a \<le> b)"
| "num_le a b = False"

fun num_lt :: "jnum \<Rightarrow> jnum \<Rightarrow> bool" where
  "num_lt JNaN b = False"
| "num_lt a JNaN = False"
| "num_lt (JFin a) (JFin b) = (a < b)"
| "num_lt JNegInf b = (b \<noteq> JNegInf)"
| "num_lt a JInf = (a \<noteq> JInf)"
| "num_lt a b = False"

text \<open>\<open>Math.max(a, b)\<close>: a \<open>NaN\<close> on either side is the answer.\<close>

fun num_max :: "jnum \<Rightarrow> jnum \<Rightarrow> jnum" where
  "num_max JNaN b = JNaN"
| "num_max a JNaN = JNaN"
| "num_max a b = (if num_le a b then b else a)"

fun num_add :: "jnum \<Rightarrow> rat \<Rightarrow> jnum" where
  "num_add (JFin a) r = JFin (a + r)"
| "num_add a r = a"

fun is_integer :: "jnum \<Rightarrow> bool" where
  "is_integer (JFin a) = (of_int (floor a) = a)"
| "is_integer a = False"

fun is_finite :: "jnum \<Rightarrow> bool" where
  "is_finite (JFin a) = True"
| "is_finite a = False"

definition of_count :: "nat \<Rightarrow> jnum" where
  "of_count n = JFin (of_nat n)"

text \<open>\<open>Math.round(n / 1000)\<close>: halves go up.\<close>

fun round_thousandth :: "jnum \<Rightarrow> jnum" where
  "round_thousandth (JFin a) = JFin (of_int (floor (a / 1000 + 1 / 2)))"
| "round_thousandth a = a"

text \<open>A number that a truth test takes for false: 0 and \<open>NaN\<close>.\<close>

definition num_truthy :: "jnum \<Rightarrow> bool" where
  "num_truthy n \<longleftrightarrow> n \<noteq> JFin 0 \<and> n \<noteq> JNaN"

lemma num_le_of_count [simp]: "num_le (of_count m) (of_count n) \<longleftrightarrow> m \<le> n"
  by (simp add: of_count_def)

lemma num_lt_of_count [simp]: "num_lt (of_count m) (of_count n) \<longleftrightarrow> m < n"
  by (simp add: of_count_def)

lemma of_count_inject [simp]: "of_count m = of_count n \<longleftrightarrow> m = n"
  by (simp add: of_count_def)

lemma is_integer_of_count [simp]: "is_integer (of_count n)"
  by (simp add: of_count_def)

lemma num_add_of_count [simp]: "num_add (of_count n) 1 = of_count (Suc n)"
  by (simp add: of_count_def)

lemma is_integer_positive:
  assumes "is_integer a" and "num_le (JFin 1) a"
  shows "\<exists>n. a = of_count n \<and> 1 \<le> n"
proof -
  from assms(1) obtain i where i: "a = JFin (of_int i)"
    by (cases a) (auto dest: sym)
  with assms(2) have "1 \<le> i" by simp
  then have "a = of_count (nat i)" and "1 \<le> nat i"
    using i by (simp_all add: of_count_def)
  then show ?thesis by blast
qed

lemma num_lt_not_le: "num_lt a b \<Longrightarrow> \<not> num_le b a"
  by (cases a; cases b) auto

lemma num_max_ge_right: "num_max a b \<noteq> JNaN \<Longrightarrow> num_le b (num_max a b)"
  by (cases a; cases b) auto

section \<open>Values\<close>

datatype jval =
    JUndefined
  | JNull
  | JBool bool
  | JNum jnum
  | JStr string
  | JArr "jval list"
  | JObj "(string \<times> jval) list"

fun js_typeof :: "jval \<Rightarrow> string" where
  "js_typeof JUndefined = ''undefined''"
| "js_typeof JNull = ''object''"
| "js_typeof (JBool b) = ''boolean''"
| "js_typeof (JNum n) = ''number''"
| "js_typeof (JStr s) = ''string''"
| "js_typeof (JArr xs) = ''object''"
| "js_typeof (JObj kvs) = ''object''"

text \<open>\<open>typeof v !== "object" || v === null\<close>, negated: an object or an array.\<close>

fun is_objectlike :: "jval \<Rightarrow> bool" where
  "is_objectlike (JArr xs) = True"
| "is_objectlike (JObj kvs) = True"
| "is_objectlike v = False"

fun is_array :: "jval \<Rightarrow> bool" where
  "is_array (JArr xs) = True"
| "is_array v = False"

text \<open>
  \<open>Reflect.get(v, k)\<close> on a value already known to be an object or an array, for
  the property names the program reads: an array has none of them.
\<close>

fun get_prop :: "jval \<Rightarrow> string \<Rightarrow> jval" where
  "get_prop (JObj kvs) k = (case map_of kvs k of None \<Rightarrow> JUndefined | Some v \<Rightarrow> v)"
| "get_prop v k = JUndefined"

fun has_prop :: "jval \<Rightarrow> string \<Rightarrow> bool" where
  "has_prop (JObj kvs) k = (k \<in> fst ` set kvs)"
| "has_prop v k = False"

section \<open>Text of a value\<close>

definition quoted :: "string \<Rightarrow> string" where
  "quoted s = CHR 0x22 # s @ [CHR 0x22]"

definition show_int :: "int \<Rightarrow> string" where
  "show_int i = (if i < 0 then CHR ''-'' # show_nat (nat (- i)) else show_nat (nat i))"

text \<open>
  The text of a number: a whole number prints as its decimal digits, a fraction with as
  many digits behind the point as it has, up to the 1074 a double can have.
\<close>

fun places :: "nat \<Rightarrow> rat \<Rightarrow> nat" where
  "places 0 r = 0"
| "places (Suc n) r = (if of_int (floor r) = r then 0 else Suc (places n (10 * r)))"

definition decimal_text :: "rat \<Rightarrow> string" where
  "decimal_text r =
     (let k = places 1074 r;
          ds = show_nat (nat \<lfloor>\<bar>r\<bar> * 10 ^ k\<rfloor>);
          padded = replicate (Suc k - length ds) (CHR ''0'') @ ds;
          point = length padded - k
      in (if r < 0 then ''-'' else []) @ take point padded @ ''.'' @ drop point padded)"

fun num_text :: "jnum \<Rightarrow> string" where
  "num_text (JFin r) = (if of_int (floor r) = r then show_int (floor r) else decimal_text r)"
| "num_text JInf = ''Infinity''"
| "num_text JNegInf = ''-Infinity''"
| "num_text JNaN = ''NaN''"

text \<open>\<open>String(v)\<close>\<close>

fun js_string :: "jval \<Rightarrow> string" where
  "js_string JUndefined = ''undefined''"
| "js_string JNull = ''null''"
| "js_string (JBool b) = (if b then ''true'' else ''false'')"
| "js_string (JNum n) = num_text n"
| "js_string (JStr s) = s"
| "js_string (JArr xs) =
     join '','' (map (\<lambda>v. if v = JUndefined \<or> v = JNull then [] else js_string v) xs)"
| "js_string (JObj kvs) = ''[object Object]''"

section \<open>What storing a value as JSON keeps of it\<close>

text \<open>
  \<open>json v\<close> is \<open>JSON.parse(JSON.stringify(v))\<close> for a value that is not \<open>undefined\<close>
  itself: a property whose value is \<open>undefined\<close> is dropped, an \<open>undefined\<close> entry
  of an array and a number that is not finite become \<open>null\<close>.
\<close>

fun json :: "jval \<Rightarrow> jval" where
  "json JUndefined = JNull"
| "json JNull = JNull"
| "json (JBool b) = JBool b"
| "json (JNum n) = (if is_finite n then JNum n else JNull)"
| "json (JStr s) = JStr s"
| "json (JArr xs) = JArr (map json xs)"
| "json (JObj kvs) =
     JObj (map (\<lambda>kv. (fst kv, json (snd kv))) (filter (\<lambda>kv. snd kv \<noteq> JUndefined) kvs))"

text \<open>\<open>JSON.stringify(v)\<close>: \<open>undefined\<close> has no text.\<close>

definition stringify :: "jval \<Rightarrow> jval option" where
  "stringify v = (if v = JUndefined then None else Some (json v))"

lemma json_not_undefined [simp]: "json v \<noteq> JUndefined"
  by (cases v) auto

lemma json_idem [simp]: "json (json v) = json v"
  by (induction v rule: json.induct) auto

lemma json_objectlike [simp]: "is_objectlike (json v) = is_objectlike v"
  by (cases v) auto

lemma map_of_json_props:
  assumes "distinct (map fst kvs)"
  shows "map_of (map (\<lambda>kv. (fst kv, json (snd kv))) (filter (\<lambda>kv. snd kv \<noteq> JUndefined) kvs)) k =
    (case map_of kvs k of None \<Rightarrow> None | Some v \<Rightarrow> if v = JUndefined then None else Some (json v))"
  using assms
proof (induction kvs)
  case Nil
  show ?case by simp
next
  case (Cons kv kvs)
  show ?case
  proof (cases "k = fst kv")
    case True
    with Cons.prems have "map_of kvs k = None" by (auto simp: map_of_eq_None_iff)
    with True Cons show ?thesis by (cases kv) simp
  next
    case False
    with Cons show ?thesis by (cases kv) simp
  qed
qed

lemma get_prop_json:
  assumes "distinct (map fst kvs)"
  shows "get_prop (json (JObj kvs)) k =
    (if get_prop (JObj kvs) k = JUndefined then JUndefined else json (get_prop (JObj kvs) k))"
  using assms by (simp add: map_of_json_props split: option.splits)

end
