(* ===== verification/Errors.thy ===== *)
theory Errors
  imports Js
begin

text \<open>
  What the program throws. Every class of error it declares or tells apart with
  \<open>instanceof\<close> is a constructor of \<open>eclass\<close>, and a thrown value is an error of a
  class, with the fields the program reads off an error, or any other value.
  This theory also holds the serialised form an error is kept in
  (\<open>src/src/Failure.ts\<close>) and the two readings of an error every later component
  shares: the wrapping of an error as one that is not retried, and whether an
  error says that the body it failed is still running.

  The text of a message is the source's own up to its advice; the text of a stack
  trace, which the engine writes, is empty.
\<close>

section \<open>Classes of errors\<close>

datatype eclass =
    C_Error
  | C_UnrecoverableError
  | C_DelayedError
  | C_WaitingChildrenError
  | C_PayloadError
  | C_ResultError
  | C_EnvelopeError
  | C_VersionAheadError
  | C_CancelledError
  | C_ShutdownAbortError
  | C_LeaseHeldError
  | C_HandlerTimeoutError
  | C_ChildDeadError
  | C_ChildrenPendingError
  | C_ChildrenShortError
  | C_DeadRecordError
  | C_User string bool

text \<open>
  \<open>C_User n u\<close> is an error class of the application named \<open>n\<close>; \<open>u\<close> says whether
  it extends BullMQ's \<open>UnrecoverableError\<close>, as \<open>VersionAheadError\<close> and
  \<open>CancelledError\<close> do.
\<close>

fun extends_unrecoverable :: "eclass \<Rightarrow> bool" where
  "extends_unrecoverable C_UnrecoverableError = True"
| "extends_unrecoverable C_VersionAheadError = True"
| "extends_unrecoverable C_CancelledError = True"
| "extends_unrecoverable (C_User n u) = u"
| "extends_unrecoverable c = False"

fun class_name :: "eclass \<Rightarrow> string" where
  "class_name C_Error = ''Error''"
| "class_name C_UnrecoverableError = ''UnrecoverableError''"
| "class_name C_DelayedError = ''DelayedError''"
| "class_name C_WaitingChildrenError = ''WaitingChildrenError''"
| "class_name C_PayloadError = ''PayloadError''"
| "class_name C_ResultError = ''ResultError''"
| "class_name C_EnvelopeError = ''EnvelopeError''"
| "class_name C_VersionAheadError = ''VersionAheadError''"
| "class_name C_CancelledError = ''CancelledError''"
| "class_name C_ShutdownAbortError = ''ShutdownAbortError''"
| "class_name C_LeaseHeldError = ''LeaseHeldError''"
| "class_name C_HandlerTimeoutError = ''HandlerTimeoutError''"
| "class_name C_ChildDeadError = ''ChildDeadError''"
| "class_name C_ChildrenPendingError = ''ChildrenPendingError''"
| "class_name C_ChildrenShortError = ''ChildrenShortError''"
| "class_name C_DeadRecordError = ''DeadRecordError''"
| "class_name (C_User n u) = n"

section \<open>Thrown values\<close>

text \<open>What one child of a flow gave back: \<open>ChildResult\<close> of \<open>src/src/Driver.ts\<close>.\<close>

record child_result =
  cr_slot :: string
  cr_value :: jval

text \<open>
  \<open>err_running\<close> says that the error carries a promise of a body still running, and
  \<open>err_results\<close> holds the results a \<open>ChildDeadError\<close> keeps.
\<close>

datatype thrown =
    Err (err_class: eclass) (err_msg: string) (err_stack: "string option")
      (err_cause: "thrown option") (err_running: bool) (err_results: "child_result list")
  | Thrown jval

definition new_error :: "eclass \<Rightarrow> string \<Rightarrow> thrown" where
  "new_error c m = Err c m (Some []) None False []"

text \<open>Setting \<open>cause\<close>: a cause that is \<open>undefined\<close> reads as none.\<close>

fun with_cause :: "thrown \<Rightarrow> thrown \<Rightarrow> thrown" where
  "with_cause (Err c m st ca run res) e =
     Err c m st (if e = Thrown JUndefined then None else Some e) run res"
| "with_cause (Thrown v) e = Thrown v"

fun instance_of :: "thrown \<Rightarrow> eclass \<Rightarrow> bool" where
  "instance_of (Err c m st ca run res) k =
     (if k = C_UnrecoverableError then extends_unrecoverable c else c = k)"
| "instance_of (Thrown v) k = False"

text \<open>\<open>error instanceof Error ? error.message : String(error)\<close>\<close>

fun message_of :: "thrown \<Rightarrow> string" where
  "message_of (Err c m st ca run res) = m"
| "message_of (Thrown v) = js_string v"

section \<open>The serialised error\<close>

record error_snapshot =
  es_name :: string
  es_message :: string
  es_stack :: "string option"

record serialized_error = error_snapshot +
  es_cause :: "error_snapshot option"

fun snapshot :: "thrown \<Rightarrow> error_snapshot" where
  "snapshot (Thrown v) = \<lparr>es_name = ''Error'', es_message = js_string v, es_stack = None\<rparr>"
| "snapshot (Err c m st ca run res) =
     \<lparr>es_name = class_name c, es_message = m, es_stack = st\<rparr>"

fun serializeError :: "thrown \<Rightarrow> serialized_error" where
  "serializeError (Thrown v) = error_snapshot.extend (snapshot (Thrown v)) \<lparr>es_cause = None\<rparr>"
| "serializeError (Err c m st ca run res) =
     error_snapshot.extend (snapshot (Err c m st ca run res))
       \<lparr>es_cause = map_option snapshot ca\<rparr>"

section \<open>Errors that are not retried, and errors whose body still runs\<close>

text \<open>\<open>unrecoverable\<close> of \<open>src/src/Runtime.ts\<close>.\<close>

definition unrecoverable :: "thrown \<Rightarrow> thrown" where
  "unrecoverable e = with_cause (new_error C_UnrecoverableError (message_of e)) e"

text \<open>\<open>stillRunning\<close> of \<open>src/src/Idempotency.ts\<close>: whether there is a promise to follow.\<close>

fun stillRunning :: "thrown \<Rightarrow> bool" where
  "stillRunning (Err c m st ca run res) = run"
| "stillRunning (Thrown v) = False"

lemma instance_of_new_error [simp]:
  "instance_of (new_error c m) k \<longleftrightarrow>
    c = k \<or> k = C_UnrecoverableError \<and> extends_unrecoverable c"
  by (auto simp: new_error_def)

lemma new_error_sel [simp]:
  "err_class (new_error c m) = c" "err_cause (new_error c m) = None"
  "message_of (new_error c m) = m" "stillRunning (new_error c m) = False"
  "new_error c m \<noteq> Thrown v"
  by (simp_all add: new_error_def)

lemma instance_of_with_cause [simp]: "instance_of (with_cause e d) k = instance_of e k"
  by (cases e) auto

lemma stillRunning_with_cause [simp]: "stillRunning (with_cause e d) = stillRunning e"
  by (cases e) auto

lemma instance_of_unrecoverable [simp]:
  "instance_of (unrecoverable e) k \<longleftrightarrow> k = C_UnrecoverableError"
  by (auto simp: unrecoverable_def)

lemma err_cause_unrecoverable:
  "e \<noteq> Thrown JUndefined \<Longrightarrow> err_cause (unrecoverable e) = Some e"
  by (simp add: unrecoverable_def new_error_def)

lemma err_cause_unrecoverable_instance:
  "instance_of e k \<Longrightarrow> err_cause (unrecoverable e) = Some e"
  by (cases e) (simp_all add: unrecoverable_def new_error_def)

lemma serializeError_message: "es_message (serializeError e) = message_of e"
  by (cases e) (simp_all add: error_snapshot.defs)

end
