(* ===== verification/JobIds.thy ===== *)
theory JobIds
  imports Errors
begin

text \<open>
  The texts that name a job (\<open>src/src/JobId.ts\<close>), a dead queue
  (\<open>src/src/Dead.ts\<close>), a job id read for a live or a dead job
  (\<open>src/src/Client.ts\<close>) and the keys Redis keeps (\<open>src/src/RedisDriver.ts\<close>).
  Each composition comes with the law that says what reading it back gives.
\<close>

section \<open>Job ids\<close>

definition composeJobId :: "string \<Rightarrow> string \<Rightarrow> string" where
  "composeJobId queue storedId = queue @ '':'' @ storedId"

definition notAJobId :: "string \<Rightarrow> thrown" where
  "notAJobId i = new_error C_Error
       (''jubs: '' @ quoted i @ '' is not a job id'' @ dash @
        ''pass an id returned by jobs.enqueue or by jobs.dead.list(queue)'')"

definition readJobId :: "string \<Rightarrow> thrown + (string \<times> string)" where
  "readJobId i =
     (case cut_at CHR '':'' i of
        None \<Rightarrow> Inl (notAJobId i)
      | Some (queue, storedId) \<Rightarrow>
          if queue = [] \<or> storedId = [] then Inl (notAJobId i) else Inr (queue, storedId))"

section \<open>The id a child of a flow is stored under\<close>

definition FLOW_ID_MARKER :: char where
  "FLOW_ID_MARKER = CHR ''~''"

text \<open>\<open>uuid\<close> is the value \<open>randomUUID()\<close> gave this call.\<close>

definition composeChildId :: "string \<Rightarrow> string \<Rightarrow> string" where
  "composeChildId slot uuid = slot @ FLOW_ID_MARKER # uuid"

definition readChildSlot :: "string \<Rightarrow> string" where
  "readChildSlot storedId =
     (case cut_at FLOW_ID_MARKER storedId of None \<Rightarrow> [] | Some (slot, uuid) \<Rightarrow> slot)"

section \<open>Dead queues\<close>

definition DEAD_SUFFIX :: string where
  "DEAD_SUFFIX = ''.dead''"

definition deadQueueName :: "string \<Rightarrow> string" where
  "deadQueueName queue = queue @ DEAD_SUFFIX"

definition liveQueueName :: "string \<Rightarrow> string option" where
  "liveQueueName dead =
     (if \<not> ends_with DEAD_SUFFIX dead \<or> length dead = length DEAD_SUFFIX then None
      else Some (take (length dead - length DEAD_SUFFIX) dead))"

definition notADeadJobId :: "string \<Rightarrow> thrown" where
  "notADeadJobId i = new_error C_Error
       (''jubs: '' @ quoted i @ '' is not a dead job id'' @ dash @
        ''pass an id returned by jobs.dead.list(queue)'')"

definition readDeadJobId :: "string \<Rightarrow> thrown + (string \<times> string)" where
  "readDeadJobId i =
     bindE (readJobId i) (\<lambda>(queue, storedId).
       case liveQueueName queue of
         None \<Rightarrow> Inl (notADeadJobId i)
       | Some live \<Rightarrow> Inr (live, storedId))"

definition readLiveJobId :: "string \<Rightarrow> thrown + (string \<times> string) option" where
  "readLiveJobId i =
     bindE (readJobId i) (\<lambda>(queue, storedId).
       if liveQueueName queue \<noteq> None then Inr None else Inr (Some (queue, storedId)))"

section \<open>Keys of Redis\<close>

text \<open>
  \<open>segments.at(-2) ?? ""\<close> and \<open>segments.at(-1) ?? ""\<close> of the key cut at its colons.
\<close>

definition readChildKey :: "string \<Rightarrow> string \<times> string" where
  "readChildKey key =
     (let segments = rev (split_on CHR '':'' key)
      in (case segments of storedId # queue # rest \<Rightarrow> (queue, storedId)
                         | [storedId] \<Rightarrow> ([], storedId)
                         | [] \<Rightarrow> ([], [])))"

definition SCHEDULER_PREFIX :: string where
  "SCHEDULER_PREFIX = ''jubs.''"

definition schedulerId :: "string \<Rightarrow> string" where
  "schedulerId jobName = SCHEDULER_PREFIX @ jobName"

definition cancelPrefix :: "string \<Rightarrow> string" where
  "cancelPrefix queue = ''jubs:cancel:{'' @ queue @ ''}:''"

section \<open>Reading back what was composed\<close>

lemma readJobId_Inr_iff:
  "readJobId i = Inr (q, s) \<longleftrightarrow> i = composeJobId q s \<and> CHR '':'' \<notin> set q \<and> q \<noteq> [] \<and> s \<noteq> []"
proof -
  have "readJobId i = Inr (q, s) \<longleftrightarrow> cut_at CHR '':'' i = Some (q, s) \<and> q \<noteq> [] \<and> s \<noteq> []"
    by (auto simp: readJobId_def split: option.splits if_splits)
  then show ?thesis by (simp add: cut_at_Some composeJobId_def conj_ac)
qed

lemma readJobId_Inl_iff:
  "readJobId i = Inl e \<longleftrightarrow>
     e = notAJobId i \<and>
     \<not> (\<exists>q s. i = composeJobId q s \<and> CHR '':'' \<notin> set q \<and> q \<noteq> [] \<and> s \<noteq> [])"
proof -
  have "readJobId i = Inl e \<longleftrightarrow> e = notAJobId i \<and> \<not> (\<exists>q s. readJobId i = Inr (q, s))"
    by (auto simp: readJobId_def split: option.splits if_splits)
  then show ?thesis by (simp add: readJobId_Inr_iff)
qed

lemma readJobId_composeJobId [simp]:
  "CHR '':'' \<notin> set q \<Longrightarrow> q \<noteq> [] \<Longrightarrow> s \<noteq> [] \<Longrightarrow> readJobId (composeJobId q s) = Inr (q, s)"
  by (simp add: readJobId_Inr_iff)

lemma composeJobId_inject:
  "CHR '':'' \<notin> set q \<Longrightarrow> CHR '':'' \<notin> set q' \<Longrightarrow>
    composeJobId q s = composeJobId q' s' \<longleftrightarrow> q = q' \<and> s = s'"
  unfolding composeJobId_def by (metis append_Cons append_Nil cut_at_append option.inject prod.inject)

lemma readChildSlot_composeChildId [simp]:
  "FLOW_ID_MARKER \<notin> set slot \<Longrightarrow> readChildSlot (composeChildId slot uuid) = slot"
  by (simp add: readChildSlot_def composeChildId_def text_simps)

lemma liveQueueName_Some_iff:
  "liveQueueName dead = Some q \<longleftrightarrow> q \<noteq> [] \<and> dead = deadQueueName q"
  by (auto simp: liveQueueName_def deadQueueName_def ends_with_iff DEAD_SUFFIX_def)

lemma liveQueueName_deadQueueName [simp]:
  "q \<noteq> [] \<Longrightarrow> liveQueueName (deadQueueName q) = Some q"
  by (simp add: liveQueueName_Some_iff)

lemma deadQueueName_inject [simp]: "deadQueueName p = deadQueueName q \<longleftrightarrow> p = q"
  by (simp add: deadQueueName_def)

lemma deadQueueName_no_colon [simp]:
  "CHR '':'' \<notin> set (deadQueueName q) \<longleftrightarrow> CHR '':'' \<notin> set q"
  by (auto simp: deadQueueName_def DEAD_SUFFIX_def)

lemma deadQueueName_neq_Nil [simp]: "deadQueueName q \<noteq> []"
  by (simp add: deadQueueName_def DEAD_SUFFIX_def)

lemma readDeadJobId_Inr_iff:
  "readDeadJobId i = Inr (q, s) \<longleftrightarrow>
     i = composeJobId (deadQueueName q) s \<and> CHR '':'' \<notin> set q \<and> q \<noteq> [] \<and> s \<noteq> []"
  by (auto simp: readDeadJobId_def bindE_Inr_iff readJobId_Inr_iff liveQueueName_Some_iff
      split: option.splits)

lemma readLiveJobId_Some_iff:
  "readLiveJobId i = Inr (Some (q, s)) \<longleftrightarrow>
     i = composeJobId q s \<and> CHR '':'' \<notin> set q \<and> q \<noteq> [] \<and> s \<noteq> [] \<and> liveQueueName q = None"
  by (auto simp: readLiveJobId_def bindE_Inr_iff readJobId_Inr_iff split: if_splits)

lemma readLiveJobId_None_iff:
  "readLiveJobId i = Inr None \<longleftrightarrow> (\<exists>q s. readDeadJobId i = Inr (q, s))"
  by (cases "readJobId i")
    (auto simp: readLiveJobId_def readDeadJobId_def split: if_splits option.splits)

lemma readChildKey_compose [simp]:
  assumes "CHR '':'' \<notin> set queue" and "CHR '':'' \<notin> set storedId"
  shows "readChildKey (pre @ '':'' @ queue @ '':'' @ storedId) = (queue, storedId)"
  using assms by (simp add: readChildKey_def text_simps)

lemma schedulerId_inject [simp]: "schedulerId m = schedulerId n \<longleftrightarrow> m = n"
  by (simp add: schedulerId_def)

lemma cancel_key_inject:
  assumes "CHR '':'' \<notin> set q" and "CHR '':'' \<notin> set q'"
  shows "cancelPrefix q @ i = cancelPrefix q' @ i' \<longleftrightarrow> q = q' \<and> i = i'"
proof
  assume "cancelPrefix q @ i = cancelPrefix q' @ i'"
  then have "(q @ ''}'') @ CHR '':'' # i = (q' @ ''}'') @ CHR '':'' # i'"
    by (simp add: cancelPrefix_def)
  then have "cut_at CHR '':'' ((q @ ''}'') @ CHR '':'' # i) =
      cut_at CHR '':'' ((q' @ ''}'') @ CHR '':'' # i')"
    by (rule arg_cong)
  with assms have "Some (q @ ''}'', i) = Some (q' @ ''}'', i')"
    by (subst (asm) (1 2) cut_at_append) simp_all
  then show "q = q' \<and> i = i'" by simp
qed simp

end
