(* ===== verification/Definitions.thy ===== *)
theory Definitions
  imports JobIds
begin

text \<open>
  What a job is declared with: the definition, its delivery policy, its schedule
  and its slots (\<open>src/src/Definition.ts\<close>, and the types of
  \<open>src/src/Delivery.ts\<close>, \<open>src/src/Schedule.ts\<close> and \<open>src/src/Flow.ts\<close>), and
  \<open>defineJob\<close> with the rules it refuses a definition by.

  A schema, a migration, a delivery policy written as a function and the key
  functions are code of the application: they are functions a definition carries.
\<close>

section \<open>Schemas\<close>

datatype segment = SegKey string | SegObject string

record issue =
  is_message :: string
  is_path :: "segment list option"

text \<open>A validator of the Standard Schema interface reports issues or gives back a value.\<close>

datatype schema_result = Issues "issue list" | Value jval

type_synonym schema = "jval \<Rightarrow> schema_result"

section \<open>Delivery\<close>

datatype unique_mode = KeepFirst | KeepLast | NoOverlap

record unique =
  uq_key :: "jval \<Rightarrow> string"
  uq_mode :: unique_mode
  uq_ttlMs :: "jnum option"

datatype resolved_unique =
    RKeepFirst string "jnum option"
  | RKeepLast string jnum
  | RNoOverlap string

datatype backoff = Exponential jnum

record delivery =
  dl_attempts :: jnum
  dl_backoff :: backoff
  dl_priority :: jnum
  dl_keepCompletedForMs :: jnum
  dl_keepFailedCount :: jnum
  dl_delayMs :: "jnum option"
  dl_unique :: "resolved_unique option"

record delivery_overrides =
  do_attempts :: "jnum option"
  do_backoff :: "backoff option"
  do_priority :: "jnum option"
  do_keepCompletedForMs :: "jnum option"
  do_keepFailedCount :: "jnum option"
  do_delayMs :: "jnum option"
  do_unique :: "unique option"

datatype delivery_policy =
    PolicyObject delivery_overrides
  | PolicyFunction "jval \<Rightarrow> delivery \<Rightarrow> delivery_overrides"

section \<open>Schedules\<close>

datatype recurrence = EveryMs jnum | Pattern string

text \<open>An absent \<open>data\<close> reads as \<open>undefined\<close>.\<close>

record schedule =
  sc_recurrence :: recurrence
  sc_timezone :: "string option"
  sc_data :: jval

section \<open>Definitions\<close>

type_synonym migration = "jval \<Rightarrow> thrown + jval"

datatype origin = Direct | Scheduled | Flow | Relay

text \<open>
  A slot of \<open>awaits\<close> is a bare definition, one child, or an array holding one
  definition, many children. The keys of \<open>migrations\<close> are numbers, as its type says.
\<close>

datatype job_definition =
  JobDefinition
    (jd_name: string)
    (jd_queue: string)
    (jd_payload: schema)
    (jd_result: "schema option")
    (jd_awaits: "(string \<times> slot_declaration) list option")
    (jd_version: "jnum option")
    (jd_migrations: "(jnum \<times> migration) list option")
    (jd_delivery: "delivery_policy option")
    (jd_schedule: "schedule option")
    (jd_idempotencyKey: "(jval \<Rightarrow> string) option")
    (jd_timeoutMs: "jnum option")
and slot_declaration = One job_definition | Many job_definition

definition DEFAULT_PAYLOAD_VERSION :: jnum where
  "DEFAULT_PAYLOAD_VERSION = JFin 1"

definition payloadVersion :: "job_definition \<Rightarrow> jnum" where
  "payloadVersion d = (case jd_version d of None \<Rightarrow> DEFAULT_PAYLOAD_VERSION | Some v \<Rightarrow> v)"

text \<open>\<open>migrations ?? {}\<close> and \<open>awaits ?? {}\<close>\<close>

definition migrations_of :: "job_definition \<Rightarrow> (jnum \<times> migration) list" where
  "migrations_of d = (case jd_migrations d of None \<Rightarrow> [] | Some ms \<Rightarrow> ms)"

definition awaits_of :: "job_definition \<Rightarrow> (string \<times> slot_declaration) list" where
  "awaits_of d = (case jd_awaits d of None \<Rightarrow> [] | Some aw \<Rightarrow> aw)"

section \<open>Slots\<close>

record slot =
  sl_name :: string
  sl_definition :: job_definition
  sl_many :: bool

fun read_slot :: "string \<times> slot_declaration \<Rightarrow> slot" where
  "read_slot (name, Many d) = \<lparr>sl_name = name, sl_definition = d, sl_many = True\<rparr>"
| "read_slot (name, One d) = \<lparr>sl_name = name, sl_definition = d, sl_many = False\<rparr>"

definition slotsOf :: "job_definition \<Rightarrow> slot list" where
  "slotsOf d = map read_slot (awaits_of d)"

section \<open>The rules of a definition\<close>

definition strayMigration :: "string \<Rightarrow> jnum \<Rightarrow> jnum \<Rightarrow> thrown" where
  "strayMigration name from version =
     (if num_le version DEFAULT_PAYLOAD_VERSION
      then new_error C_Error
       (''jubs: the job '' @ quoted name @ '' declares a migration from version '' @ num_text from @
        '', which never runs'' @ dash @ ''the job runs payload version '' @ num_text version @
        '', so it takes no migration at all; raise its `version` first'')
      else new_error C_Error
       (''jubs: the job '' @ quoted name @ '' declares a migration from version '' @ num_text from @
        '', which never runs'' @ dash @ ''the job runs payload version '' @ num_text version @
        '', so a migration key is a whole number between 1 and '' @ num_text (num_add version (- 1))))"

definition notAVersion :: "job_definition \<Rightarrow> jnum \<Rightarrow> thrown" where
  "notAVersion d version =
     new_error C_Error
       (''jubs: the job '' @ quoted (jd_name d) @ '' declares the payload version '' @ num_text version @ dash @
        ''a payload version is a whole number of 1 or more'')"

definition assertVersioning :: "job_definition \<Rightarrow> thrown + unit" where
  "assertVersioning d =
     (let version = payloadVersion d
      in if \<not> is_integer version \<or> num_lt version (JFin 1)
         then Inl (notAVersion d version)
         else (case find (\<lambda>from. \<not> is_integer from \<or> num_lt from (JFin 1) \<or> num_le version from)
                      (map fst (migrations_of d)) of
                 None \<Rightarrow> Inr ()
               | Some stray \<Rightarrow> Inl (strayMigration (jd_name d) stray version)))"

definition notATimeout :: "job_definition \<Rightarrow> jnum \<Rightarrow> thrown" where
  "notATimeout d timeoutMs =
     new_error C_Error
       (''jubs: the job '' @ quoted (jd_name d) @ '' declares the `timeoutMs` '' @ num_text timeoutMs @ dash @
        ''a timeout is a number of milliseconds above 0, so give it one or drop `timeoutMs` '' @
        ''to let the handler run for as long as it takes'')"

definition assertTimeout :: "job_definition \<Rightarrow> thrown + unit" where
  "assertTimeout d =
     (case jd_timeoutMs d of
        None \<Rightarrow> Inr ()
      | Some t \<Rightarrow>
          if is_finite t \<and> num_lt (JFin 0) t then Inr ()
          else Inl (notATimeout d t))"

text \<open>Whether the policy is an object that declares \<open>unique\<close>.\<close>

fun declares_unique :: "delivery_policy option \<Rightarrow> bool" where
  "declares_unique (Some (PolicyObject ov)) = (do_unique ov \<noteq> None)"
| "declares_unique p = False"

definition stray_character :: "string \<Rightarrow> char option" where
  "stray_character slot = find (\<lambda>c. c \<in> set slot) [CHR '':'', FLOW_ID_MARKER]"

definition straySlot :: "string \<Rightarrow> string \<Rightarrow> char \<Rightarrow> thrown" where
  "straySlot name slot stray =
     new_error C_Error
       (''jubs: the job '' @ quoted name @ '' waits on the slot '' @ quoted slot @ '', whose name holds '' @
        quoted [stray] @ dash @
        ''a child is stored under an id built from the slot it fills, which that character '' @
        ''breaks, so rename the slot'')"

fun assert_slot_names :: "string \<Rightarrow> string list \<Rightarrow> thrown + unit" where
  "assert_slot_names name [] = Inr ()"
| "assert_slot_names name (slot # slots) =
     (case stray_character slot of
        None \<Rightarrow> assert_slot_names name slots
      | Some c \<Rightarrow> Inl (straySlot name slot c))"

definition uniqueAndAwaits :: "job_definition \<Rightarrow> thrown" where
  "uniqueAndAwaits d =
     new_error C_Error
       (''jubs: the job '' @ quoted (jd_name d) @ '' declares `unique` and `awaits`'' @ dash @
        ''uniqueness does not apply inside a flow, at any position, and a job that waits on '' @
        ''children is a flow, so drop `unique` from its delivery or drop `awaits` from that '' @ ''definition'')"

definition keyAndAwaits :: "job_definition \<Rightarrow> thrown" where
  "keyAndAwaits d =
     new_error C_Error
       (''jubs: the job '' @ quoted (jd_name d) @ '' declares `idempotencyKey` and `awaits`'' @ dash @
        ''a key derived from the payload alone would replay the result of an earlier flow '' @
        ''that ran different children, so drop `idempotencyKey` from that definition or give '' @
        ''the key to the jobs it waits on instead'')"

definition scheduleAndAwaits :: "job_definition \<Rightarrow> thrown" where
  "scheduleAndAwaits d =
     new_error C_Error
       (''jubs: the job '' @ quoted (jd_name d) @ '' declares `schedule` and `awaits`'' @ dash @
        ''a recurrence enqueues this job on its own, with nothing to fill its slots, every '' @
        ''tick would run over children it never had'' @ dash @
        ''drop `schedule` from that definition and give it to a job that waits on nothing, '' @
        ''which enqueues this flow with jobs.enqueue'')"

definition assertAwaits :: "job_definition \<Rightarrow> thrown + unit" where
  "assertAwaits d =
     (let slots = map fst (awaits_of d)
      in if slots = [] then Inr ()
         else if declares_unique (jd_delivery d)
           then Inl (uniqueAndAwaits d)
         else if jd_idempotencyKey d \<noteq> None
           then Inl (keyAndAwaits d)
         else if jd_schedule d \<noteq> None
           then Inl (scheduleAndAwaits d)
         else assert_slot_names (jd_name d) slots)"

text \<open>
  A \<open>version\<close> or a \<open>timeoutMs\<close> is copied only when a truth test takes it for true;
  the other optional fields are objects and functions, which always are.
\<close>

definition keep_truthy :: "jnum option \<Rightarrow> jnum option" where
  "keep_truthy n = (case n of None \<Rightarrow> None | Some v \<Rightarrow> if num_truthy v then Some v else None)"

definition defineJob :: "job_definition \<Rightarrow> thrown + job_definition" where
  "defineJob input =
     bindE (assertVersioning input) (\<lambda>_.
     bindE (assertTimeout input) (\<lambda>_.
     bindE (assertAwaits input) (\<lambda>_.
       Inr (JobDefinition (jd_name input) (jd_queue input) (jd_payload input)
              (jd_result input) (jd_awaits input) (keep_truthy (jd_version input))
              (jd_migrations input) (jd_delivery input) (jd_schedule input)
              (jd_idempotencyKey input) (keep_truthy (jd_timeoutMs input))))))"

section \<open>What \<open>defineJob\<close> accepts\<close>

definition slot_name_ok :: "string \<Rightarrow> bool" where
  "slot_name_ok s \<longleftrightarrow> CHR '':'' \<notin> set s \<and> FLOW_ID_MARKER \<notin> set s"

text \<open>The rules of one definition, stated without the order the code tests them in.\<close>

definition valid_definition :: "job_definition \<Rightarrow> bool" where
  "valid_definition d \<longleftrightarrow>
     is_integer (payloadVersion d) \<and> num_le (JFin 1) (payloadVersion d) \<and>
     (\<forall>m \<in> set (migrations_of d).
        is_integer (fst m) \<and> num_le (JFin 1) (fst m) \<and> num_lt (fst m) (payloadVersion d)) \<and>
     (\<forall>t. jd_timeoutMs d = Some t \<longrightarrow> is_finite t \<and> num_lt (JFin 0) t) \<and>
     (slotsOf d \<noteq> [] \<longrightarrow>
        \<not> declares_unique (jd_delivery d) \<and> jd_idempotencyKey d = None \<and> jd_schedule d = None) \<and>
     (\<forall>s \<in> set (slotsOf d). slot_name_ok (sl_name s))"

lemma sl_name_read_slot [simp]: "sl_name (read_slot p) = fst p"
  by (cases p; cases "snd p") auto

lemma map_sl_name_slotsOf:
  "map sl_name (slotsOf d) = map fst (awaits_of d)"
  by (simp add: slotsOf_def)

lemma integer_lt_1: "is_integer v \<Longrightarrow> num_lt v (JFin 1) \<longleftrightarrow> \<not> num_le (JFin 1) v"
  by (cases v) auto

lemma integer_not_le: "is_integer v \<Longrightarrow> is_integer w \<Longrightarrow> \<not> num_le v w \<longleftrightarrow> num_lt w v"
  by (cases v; cases w) auto

lemma assertVersioning_Inr_iff:
  "assertVersioning d = Inr u \<longleftrightarrow>
     is_integer (payloadVersion d) \<and> num_le (JFin 1) (payloadVersion d) \<and>
     (\<forall>m \<in> set (migrations_of d).
        is_integer (fst m) \<and> num_le (JFin 1) (fst m) \<and> num_lt (fst m) (payloadVersion d))"
  by (auto simp: assertVersioning_def Let_def find_None_iff integer_lt_1 integer_not_le [symmetric]
      split: option.splits dest!: find_Some_in)

lemma assertTimeout_Inr_iff:
  "assertTimeout d = Inr u \<longleftrightarrow> (\<forall>t. jd_timeoutMs d = Some t \<longrightarrow> is_finite t \<and> num_lt (JFin 0) t)"
  by (auto simp: assertTimeout_def split: option.splits)

lemma stray_character_None_iff: "stray_character s = None \<longleftrightarrow> slot_name_ok s"
  by (auto simp: stray_character_def slot_name_ok_def)

lemma assert_slot_names_Inr_iff:
  "assert_slot_names n ss = Inr u \<longleftrightarrow> (\<forall>s \<in> set ss. slot_name_ok s)"
  by (induction n ss rule: assert_slot_names.induct)
    (auto simp: stray_character_None_iff [symmetric] split: option.splits)

lemma assertAwaits_Inr_iff:
  "assertAwaits d = Inr u \<longleftrightarrow>
     (slotsOf d \<noteq> [] \<longrightarrow>
        \<not> declares_unique (jd_delivery d) \<and> jd_idempotencyKey d = None \<and> jd_schedule d = None) \<and>
     (\<forall>s \<in> set (slotsOf d). slot_name_ok (sl_name s))"
  by (auto simp: assertAwaits_def Let_def assert_slot_names_Inr_iff slotsOf_def
      split: option.splits)

lemma valid_definition_version:
  "valid_definition d \<Longrightarrow> \<exists>n \<ge> 1. payloadVersion d = of_count n"
  by (auto simp: valid_definition_def dest: is_integer_positive)

lemma keep_truthy_version:
  "is_integer (payloadVersion d) \<Longrightarrow> num_le (JFin 1) (payloadVersion d) \<Longrightarrow>
    keep_truthy (jd_version d) = jd_version d"
  by (auto simp: keep_truthy_def num_truthy_def payloadVersion_def split: option.splits)

lemma keep_truthy_timeout:
  "\<forall>t. jd_timeoutMs d = Some t \<longrightarrow> is_finite t \<and> num_lt (JFin 0) t \<Longrightarrow>
    keep_truthy (jd_timeoutMs d) = jd_timeoutMs d"
  by (auto simp: keep_truthy_def num_truthy_def split: option.splits)

end
