(* ===== verification/Json.thy ===== *)
theory Json
  imports Js "HOL-Library.AList"
begin

text \<open>
  The text of a value: what \<open>JSON.stringify\<close> writes and \<open>JSON.parse\<close> reads. The result
  says that a value written and parsed back is the value \<open>json\<close> keeps of it, for every
  value an object of the language can be: the names of its properties are distinct and
  its numbers have a decimal text.
\<close>

section \<open>Writing\<close>

text \<open>
  The text \<open>JSON.stringify\<close> writes, as a message shows it: a quote, a backslash and a
  control character of a string are escaped, and no text is shown as \<open>undefined\<close>.
\<close>

definition hex_digit :: "nat \<Rightarrow> char" where
  "hex_digit n = ''0123456789abcdef'' ! n"

definition json_char :: "char \<Rightarrow> string" where
  "json_char c =
     (if c = CHR 0x22 \<or> c = CHR 0x5C then [CHR 0x5C, c]
      else if c = CHR 0x08 then [CHR 0x5C, CHR ''b'']
      else if c = CHR 0x09 then [CHR 0x5C, CHR ''t'']
      else if c = CHR 0x0A then [CHR 0x5C, CHR ''n'']
      else if c = CHR 0x0C then [CHR 0x5C, CHR ''f'']
      else if c = CHR 0x0D then [CHR 0x5C, CHR ''r'']
      else if (of_char c :: nat) < 32
        then CHR 0x5C # ''u00'' @ [hex_digit (of_char c div 16), hex_digit (of_char c mod 16)]
      else [c])"

definition json_quoted :: "string \<Rightarrow> string" where
  "json_quoted s = quoted (concat (map json_char s))"

fun json_written :: "jval \<Rightarrow> string" where
  "json_written (JStr s) = json_quoted s"
| "json_written (JArr xs) = ''['' @ join '','' (map json_written xs) @ '']''"
| "json_written (JObj kvs) =
     ''{'' @ join '','' (map (\<lambda>kv. json_quoted (fst kv) @ '':'' @ json_written (snd kv)) kvs) @ ''}''"
| "json_written v = js_string v"

definition json_text :: "jval \<Rightarrow> string" where
  "json_text v = (case stringify v of None \<Rightarrow> ''undefined'' | Some w \<Rightarrow> json_written w)"

section \<open>Reading\<close>

definition is_digit :: "char \<Rightarrow> bool" where
  "is_digit c \<longleftrightarrow> c \<in> set digits"

definition skip_space :: "string \<Rightarrow> string" where
  "skip_space = dropWhile (\<lambda>c. c \<in> {CHR '' '', CHR 0x09, CHR 0x0A, CHR 0x0D})"

text \<open>The digits behind a point, none where there is no point.\<close>

definition parse_fraction :: "string \<Rightarrow> (string \<times> string) option" where
  "parse_fraction cs =
     (case cs of
        [] \<Rightarrow> Some ([], [])
      | c # r \<Rightarrow>
          if c \<noteq> CHR ''.'' then Some ([], cs)
          else if takeWhile is_digit r = [] then None
          else Some (takeWhile is_digit r, dropWhile is_digit r))"

definition parse_exponent :: "string \<Rightarrow> (int \<times> string) option" where
  "parse_exponent cs =
     (case cs of
        [] \<Rightarrow> Some (0, [])
      | c # r \<Rightarrow>
          if c \<notin> {CHR ''e'', CHR ''E''} then Some (0, cs)
          else
            let minus = (r \<noteq> [] \<and> hd r = CHR ''-'');
                ds = (if r \<noteq> [] \<and> hd r \<in> {CHR ''-'', CHR ''+''} then tl r else r)
            in (case read_nat (takeWhile is_digit ds) of
                  None \<Rightarrow> None
                | Some n \<Rightarrow> Some (if minus then - int n else int n, dropWhile is_digit ds)))"

definition scaled :: "rat \<Rightarrow> int \<Rightarrow> rat" where
  "scaled r e = (if 0 \<le> e then r * 10 ^ nat e else r / 10 ^ nat (- e))"

definition parse_number :: "string \<Rightarrow> (rat \<times> string) option" where
  "parse_number cs =
     (let minus = (cs \<noteq> [] \<and> hd cs = CHR ''-'');
          ds = (if minus then tl cs else cs);
          whole = takeWhile is_digit ds
      in if whole = [] \<or> hd whole = CHR ''0'' \<and> tl whole \<noteq> [] then None
         else (case parse_fraction (dropWhile is_digit ds) of
                 None \<Rightarrow> None
               | Some (behind, r) \<Rightarrow>
                   (case parse_exponent r of
                      None \<Rightarrow> None
                    | Some (e, r') \<Rightarrow>
                        let m = of_nat (the (read_digits 0 (whole @ behind))) / 10 ^ length behind
                        in Some (scaled (if minus then - m else m) e, r'))))"

text \<open>The UTF-8 bytes of a code point, and the code unit of four hexadecimal digits.\<close>

definition utf8 :: "nat \<Rightarrow> string" where
  "utf8 n =
     (if n < 0x80 then [char_of n]
      else if n < 0x800 then [char_of (0xC0 + n div 64), char_of (0x80 + n mod 64)]
      else if n < 0x10000
        then [char_of (0xE0 + n div 4096), char_of (0x80 + n div 64 mod 64), char_of (0x80 + n mod 64)]
      else [char_of (0xF0 + n div 262144), char_of (0x80 + n div 4096 mod 64),
            char_of (0x80 + n div 64 mod 64), char_of (0x80 + n mod 64)])"

definition hex_val :: "char \<Rightarrow> nat option" where
  "hex_val c =
     map_of (zip ''0123456789abcdefABCDEF'' ([0..<16] @ [10..<16])) c"

definition parse_hex :: "string \<Rightarrow> (nat \<times> string) option" where
  "parse_hex cs =
     (case map hex_val (take 4 cs) of
        [Some a, Some b, Some c, Some d] \<Rightarrow> Some (4096 * a + 256 * b + 16 * c + d, drop 4 cs)
      | _ \<Rightarrow> None)"

text \<open>A code unit, with the unit behind it when the two are a surrogate pair.\<close>

definition parse_unicode :: "string \<Rightarrow> (string \<times> string) option" where
  "parse_unicode cs =
     (case parse_hex cs of
        None \<Rightarrow> None
      | Some (n, r) \<Rightarrow>
          (case (if 0xD800 \<le> n \<and> n < 0xDC00 \<and> starts_with [CHR 0x5C, CHR ''u''] r then parse_hex (drop 2 r) else None) of
             Some (m, r') \<Rightarrow>
               if 0xDC00 \<le> m \<and> m < 0xE000
               then Some (utf8 (0x10000 + 1024 * (n - 0xD800) + (m - 0xDC00)), r')
               else Some (utf8 n, r)
           | None \<Rightarrow> Some (utf8 n, r)))"

definition escape_of :: "char \<Rightarrow> char option" where
  "escape_of c = map_of
     [(CHR 0x22, CHR 0x22), (CHR 0x5C, CHR 0x5C), (CHR ''/'', CHR ''/''), (CHR ''b'', CHR 0x08),
      (CHR ''f'', CHR 0x0C), (CHR ''n'', CHR 0x0A), (CHR ''r'', CHR 0x0D), (CHR ''t'', CHR 0x09)] c"

lemma parse_hex_shorter: "parse_hex cs = Some (n, r) \<Longrightarrow> length r < length cs"
  by (cases cs) (auto simp: parse_hex_def split: list.splits option.splits)

lemma parse_unicode_shorter: "parse_unicode cs = Some (s, r) \<Longrightarrow> length r < length cs"
  by (auto simp: parse_unicode_def split: option.splits if_splits dest!: parse_hex_shorter)

text \<open>A string behind its opening quote, up to its closing one.\<close>

function parse_string :: "string \<Rightarrow> (string \<times> string) option" where
  "parse_string cs =
     (case cs of
        [] \<Rightarrow> None
      | c # r \<Rightarrow>
          if c = CHR 0x22 then Some ([], r)
          else if (of_char c :: nat) < 32 then None
          else
            (case (if c \<noteq> CHR 0x5C then Some ([c], r)
                   else if r = [] then None
                   else if hd r = CHR ''u'' then parse_unicode (tl r)
                   else map_option (\<lambda>d. ([d], tl r)) (escape_of (hd r))) of
               None \<Rightarrow> None
             | Some (s, r') \<Rightarrow>
                 (case parse_string r' of None \<Rightarrow> None | Some (t, r'') \<Rightarrow> Some (s @ t, r''))))"
  by pat_completeness auto
termination
proof (relation "measure length", goal_cases)
  case (2 cs c r p s r')
  then show ?case
    by (auto split: if_splits dest!: parse_unicode_shorter)
qed simp

declare parse_string.simps [simp del]

lemma parse_string_shorter: "parse_string cs = Some (s, r) \<Longrightarrow> length r < length cs"
proof (induction cs arbitrary: s rule: parse_string.induct)
  case (1 cs)
  show ?case
  proof (cases cs)
    case Nil
    with "1.prems" show ?thesis by (simp add: parse_string.simps)
  next
    case (Cons c r0)
    let ?piece = "if c \<noteq> CHR 0x5C then Some ([c], r0) else if r0 = [] then None
        else if hd r0 = CHR ''u'' then parse_unicode (tl r0) else map_option (\<lambda>d. ([d], tl r0)) (escape_of (hd r0))"
    show ?thesis
    proof (cases "c = CHR 0x22")
      case True
      with "1.prems" show ?thesis unfolding Cons by (simp add: True parse_string.simps [of "CHR 0x22 # r0"])
    next
      case False
      with "1.prems" obtain a r1 b where piece: "\<not> (of_char c :: nat) < 32" "?piece = Some (a, r1)" "parse_string r1 = Some (b, r)"
        unfolding Cons by (auto simp: parse_string.simps [of "c # r0"] split: if_splits option.splits)
      then have "length r1 \<le> length r0"
        by (auto split: if_splits dest!: parse_unicode_shorter)
      moreover have "length r < length r1"
        using "1.IH" [OF Cons False piece(1,2) refl] piece(3) by simp
      ultimately show ?thesis using Cons by simp
    qed
  qed
qed

text \<open>
  An element is followed by a comma and the rest of the list, or by its end. What is
  left after a value is always shorter; the test says so where it is needed.
\<close>

lemma skip_space_shorter: "length (skip_space cs) \<le> length cs"
  by (simp add: skip_space_def length_dropWhile_le)

lemma skip_space_Cons: "skip_space cs = c # r \<Longrightarrow> length r < length cs"
  using skip_space_shorter [of cs] by simp

function parse_value :: "string \<Rightarrow> (jval \<times> string) option"
  and parse_elements :: "string \<Rightarrow> (jval list \<times> string) option"
  and parse_members :: "string \<Rightarrow> ((string \<times> jval) list \<times> string) option" where
  "parse_value cs =
     (case skip_space cs of
        [] \<Rightarrow> None
      | c # r \<Rightarrow>
          if c = CHR 0x22 then map_option (\<lambda>(s, r'). (JStr s, r')) (parse_string r)
          else if c = CHR ''['' then
            (if skip_space r \<noteq> [] \<and> hd (skip_space r) = CHR '']'' then Some (JArr [], tl (skip_space r))
             else map_option (\<lambda>(vs, r'). (JArr vs, r')) (parse_elements r))
          else if c = CHR ''{'' then
            (if skip_space r \<noteq> [] \<and> hd (skip_space r) = CHR ''}'' then Some (JObj [], tl (skip_space r))
             else map_option (\<lambda>(kvs, r'). (JObj (fold (\<lambda>(k, v). AList.update k v) kvs []), r')) (parse_members r))
          else if starts_with ''true'' (c # r) then Some (JBool True, drop 3 r)
          else if starts_with ''false'' (c # r) then Some (JBool False, drop 4 r)
          else if starts_with ''null'' (c # r) then Some (JNull, drop 3 r)
          else map_option (\<lambda>(n, r'). (JNum (JFin n), r')) (parse_number (c # r)))"
| "parse_elements cs =
     (case parse_value cs of
        None \<Rightarrow> None
      | Some (v, r) \<Rightarrow>
          (case skip_space r of
             [] \<Rightarrow> None
           | c # r' \<Rightarrow>
               if c = CHR '']'' then Some ([v], r')
               else if c = CHR '','' \<and> length r' < length cs
                 then map_option (\<lambda>(vs, r''). (v # vs, r'')) (parse_elements r')
               else None))"
| "parse_members cs =
     (case skip_space cs of
        [] \<Rightarrow> None
      | c # r \<Rightarrow>
          if c \<noteq> CHR 0x22 then None
          else (case parse_string r of
             None \<Rightarrow> None
           | Some (k, r1) \<Rightarrow>
               (case skip_space r1 of
                  [] \<Rightarrow> None
                | c' # r2 \<Rightarrow>
                    if c' \<noteq> CHR '':'' then None
                    else (case parse_value r2 of
                       None \<Rightarrow> None
                     | Some (v, r3) \<Rightarrow>
                         (case skip_space r3 of
                            [] \<Rightarrow> None
                          | c'' # r4 \<Rightarrow>
                              if c'' = CHR ''}'' then Some ([(k, v)], r4)
                              else if c'' = CHR '','' \<and> length r4 < length cs
                                then map_option (\<lambda>(kvs, r5). ((k, v) # kvs, r5)) (parse_members r4)
                              else None)))))"
  by pat_completeness auto
termination
  by (relation "measure (\<lambda>x. case x of Inl cs \<Rightarrow> 2 * length cs
        | Inr (Inl cs) \<Rightarrow> 2 * length cs + 1 | Inr (Inr cs) \<Rightarrow> 2 * length cs + 1)")
    (auto dest!: skip_space_Cons parse_string_shorter)

declare parse_value.simps [simp del] parse_elements.simps [simp del] parse_members.simps [simp del]

definition json_parse :: "string \<Rightarrow> jval option" where
  "json_parse text =
     (case parse_value text of
        Some (v, r) \<Rightarrow> if skip_space r = [] then Some v else None
      | None \<Rightarrow> None)"

section \<open>A number written is a number read\<close>

text \<open>What may stand behind a number: no character that would go on with it.\<close>

definition number_end :: "string \<Rightarrow> bool" where
  "number_end cs \<longleftrightarrow> cs = [] \<or> hd cs \<notin> set digits \<union> {CHR ''.'', CHR ''e'', CHR ''E''}"

lemma digits_span:
  assumes "set ds \<subseteq> set digits" and "cs = [] \<or> hd cs \<notin> set digits"
  shows "takeWhile is_digit (ds @ cs) = ds" and "dropWhile is_digit (ds @ cs) = cs"
proof -
  have "\<forall>c \<in> set ds. is_digit c" using assms(1) by (auto simp: is_digit_def)
  moreover have "takeWhile is_digit cs = []" "dropWhile is_digit cs = cs"
    using assms(2) by (cases cs; simp add: is_digit_def)+
  ultimately show "takeWhile is_digit (ds @ cs) = ds" "dropWhile is_digit (ds @ cs) = cs"
    by (simp_all add: takeWhile_append2 dropWhile_append2)
qed

lemma signs_are_no_digits [simp]: "CHR ''-'' \<notin> set digits" "CHR ''.'' \<notin> set digits"
  by (simp_all add: digits_def)

lemma parse_number_digits:
  assumes "set ds \<subseteq> set digits" and "ds \<noteq> []" and "hd ds = CHR ''0'' \<Longrightarrow> tl ds = []"
    and "set bs \<subseteq> set digits" and "number_end cs"
    and "behind = (if bs = [] then [] else CHR ''.'' # bs)" and sign: "sign = [] \<or> sign = ''-''"
  shows "parse_number (sign @ ds @ behind @ cs) =
      Some ((if sign = [] then 1 else - 1) * (of_nat (the (read_digits 0 (ds @ bs))) / 10 ^ length bs), cs)"
proof -
  let ?rest = "behind @ cs"
  have "?rest = [] \<or> hd ?rest \<notin> set digits"
    using assms(5,6) by (auto simp: number_end_def)
  note span = digits_span [OF assms(1) this]
  have "cs = [] \<or> hd cs \<notin> set digits" using assms(5) by (auto simp: number_end_def)
  note span' = digits_span [OF assms(4) this]
  have fraction: "parse_fraction ?rest = Some (bs, cs)"
  proof (cases "bs = []")
    case True
    with assms(5,6) show ?thesis by (cases cs) (auto simp: parse_fraction_def number_end_def)
  next
    case False
    with assms(6) span' show ?thesis by (simp add: parse_fraction_def)
  qed
  have exponent: "parse_exponent cs = Some (0, cs)"
    using assms(5) by (cases cs) (auto simp: parse_exponent_def number_end_def)
  have "hd (ds @ ?rest) \<noteq> CHR ''-''"
    using assms(1,2) by (cases ds) auto
  then show ?thesis
    using sign assms(2,3) span fraction exponent
    by (auto simp: parse_number_def scaled_def Let_def)
qed

lemma show_nat_hd: "hd (show_nat n) = CHR ''0'' \<Longrightarrow> n = 0"
proof (induction n rule: show_nat.induct)
  case (1 n)
  show ?case
  proof (cases "n < 10")
    case True
    then have "n \<in> {0, 1, 2, 3, 4, 5, 6, 7, 8, 9}" by (rule lt_10_cases)
    with "1.prems" show ?thesis by (subst (asm) show_nat.simps) (auto simp: digits_def)
  next
    case False
    then have "hd (show_nat n) = hd (show_nat (n div 10))" by (subst show_nat.simps) simp
    with "1.IH" [OF False] "1.prems" False show ?thesis by simp
  qed
qed

lemma show_nat_0: "show_nat 0 = ''0''"
  by (subst show_nat.simps) (simp add: digits_def)

lemma show_nat_no_leading_zero: "hd (show_nat n) = CHR ''0'' \<Longrightarrow> tl (show_nat n) = []"
  by (drule show_nat_hd) (simp add: show_nat_0)

text \<open>The number a decimal text stands for: the number itself, when it has that many digits.\<close>

definition printed :: "rat \<Rightarrow> rat" where
  "printed r =
     (if of_int (floor r) = r then r
      else (if r < 0 then - 1 else 1) * (of_nat (nat \<lfloor>\<bar>r\<bar> * 10 ^ places 1074 r\<rfloor>) / 10 ^ places 1074 r))"

lemma read_digits_zeros: "read_digits 0 (replicate n (CHR ''0'') @ ds) = read_digits 0 ds"
  by (induction n) (simp_all add: digit_val_def digits_def)

lemma parse_number_text:
  assumes "number_end cs"
  shows "parse_number (num_text (JFin r) @ cs) = Some (printed r, cs)"
proof (cases "of_int (floor r) = r")
  case True
  define i where "i = floor r"
  have r: "r = of_int i" using True by (simp only: i_def)
  note digits = parse_number_digits [OF set_show_nat show_nat_neq_Nil show_nat_no_leading_zero, where bs = "[]" and behind = "[]" and cs = cs]
  show ?thesis
  proof (cases "i < 0")
    case True
    then show ?thesis
      using digits [of "nat (- i)" "''-''"] assms by (simp add: r show_int_def printed_def read_digits_show_nat)
  next
    case False
    then show ?thesis
      using digits [of "nat i" "[]"] assms by (simp add: r show_int_def printed_def read_digits_show_nat)
  qed
next
  case False
  define k where "k = places 1074 r"
  define ds where "ds = show_nat (nat \<lfloor>\<bar>r\<bar> * 10 ^ k\<rfloor>)"
  define padded where "padded = replicate (Suc k - length ds) (CHR ''0'') @ ds"
  define point where "point = length padded - k"
  have k: "0 < k"
    using False by (simp add: k_def numeral_eq_Suc)
  have long: "Suc k \<le> length padded" by (simp add: padded_def)
  have digit: "set padded \<subseteq> set digits"
    using set_show_nat by (auto simp: padded_def ds_def digits_def)
  have leading: "tl (take point padded) = []" if "hd (take point padded) = CHR ''0''"
  proof (cases "Suc k \<le> length ds")
    case True
    then have "padded = ds" by (simp add: padded_def)
    moreover have "0 < point" using long by (simp add: point_def)
    ultimately have "hd ds = CHR ''0''" using that by simp
    then have "ds = ''0''" using show_nat_hd show_nat_0 unfolding ds_def by fastforce
    with True k show ?thesis by simp
  next
    case False
    then have "point = 1" by (simp add: point_def padded_def)
    then show ?thesis by (cases padded) simp_all
  qed
  have "take point padded \<noteq> []" "drop point padded \<noteq> []" "length (drop point padded) = k"
    using long k by (auto simp: point_def)
  moreover have "set (take point padded) \<subseteq> set digits" "set (drop point padded) \<subseteq> set digits"
    using digit by (meson order_trans set_take_subset set_drop_subset)+
  moreover have "read_digits 0 (take point padded @ drop point padded) = Some (nat \<lfloor>\<bar>r\<bar> * 10 ^ k\<rfloor>)"
    unfolding append_take_drop_id padded_def read_digits_zeros ds_def by (rule read_digits_show_nat)
  moreover have "num_text (JFin r) = (if r < 0 then ''-'' else []) @ take point padded @ ''.'' @ drop point padded"
    using False by (simp add: decimal_text_def Let_def k_def ds_def padded_def point_def)
  ultimately show ?thesis
    using parse_number_digits [of "take point padded" "drop point padded" cs "CHR ''.'' # drop point padded" "if r < 0 then ''-'' else []"]
      leading assms False
    by (simp add: printed_def k_def)
qed

section \<open>A string written is a string read\<close>

lemma hex_val_digit [simp]: "n < 16 \<Longrightarrow> hex_val (hex_digit n) = Some n"
proof -
  assume "n < 16"
  moreover have "list_all (\<lambda>n. hex_val (hex_digit n) = Some n) [0..<16]" by code_simp
  ultimately show ?thesis by (simp add: list_all_iff)
qed

lemma parse_unicode_control:
  assumes "(of_char c :: nat) < 32"
  shows "parse_unicode (''00'' @ [hex_digit (of_char c div 16), hex_digit (of_char c mod 16)] @ cs) = Some ([c], cs)"
proof -
  let ?n = "of_char c :: nat"
  have zero: "hex_val (CHR ''0'') = Some 0" using hex_val_digit [of 0] by (simp add: hex_digit_def)
  have "parse_hex (''00'' @ [hex_digit (?n div 16), hex_digit (?n mod 16)] @ cs) = Some (16 * (?n div 16) + ?n mod 16, cs)"
    using assms by (simp add: parse_hex_def zero)
  then have "parse_hex (''00'' @ [hex_digit (?n div 16), hex_digit (?n mod 16)] @ cs) = Some (?n, cs)"
    by (simp only: mult_div_mod_eq)
  with assms show ?thesis by (simp add: parse_unicode_def utf8_def)
qed

text \<open>One character of a string, however it is written.\<close>

lemma parse_string_piece:
  "parse_string (json_char c @ cs) = (case parse_string cs of None \<Rightarrow> None | Some (t, r) \<Rightarrow> Some (c # t, r))"
proof (cases "c = CHR 0x22 \<or> c = CHR 0x5C \<or> c = CHR 0x08 \<or> c = CHR 0x09 \<or> c = CHR 0x0A \<or> c = CHR 0x0C \<or> c = CHR 0x0D")
  case True
  then show ?thesis
    by (elim disjE)
      (simp_all add: json_char_def parse_string.simps [of "CHR 0x5C # _ # _"] escape_of_def split: option.split)
next
  case False
  then have written: "json_char c = (if (of_char c :: nat) < 32
      then CHR 0x5C # ''u00'' @ [hex_digit (of_char c div 16), hex_digit (of_char c mod 16)] else [c])"
    by (simp add: json_char_def)
  show ?thesis
  proof (cases "(of_char c :: nat) < 32")
    case True
    with parse_unicode_control [OF True, of cs] show ?thesis
      by (simp add: written parse_string.simps [of "CHR 0x5C # _ # _"] split: option.split)
  next
    case False
    with \<open>\<not> (c = CHR 0x22 \<or> _)\<close> show ?thesis
      by (simp add: written parse_string.simps [of "c # cs"] split: option.split)
  qed
qed

lemma parse_string_written: "parse_string (concat (map json_char s) @ CHR 0x22 # cs) = Some (s, cs)"
proof (induction s)
  case Nil
  then show ?case by (simp add: parse_string.simps [of "CHR 0x22 # cs"])
next
  case (Cons c s)
  then show ?case by (simp add: parse_string_piece)
qed

section \<open>A value written is a value read\<close>

text \<open>A value that has a text, and the value its text stands for.\<close>

fun writable :: "jval \<Rightarrow> bool" where
  "writable JUndefined \<longleftrightarrow> False"
| "writable (JNum n) \<longleftrightarrow> is_finite n"
| "writable (JArr vs) \<longleftrightarrow> (\<forall>v \<in> set vs. writable v)"
| "writable (JObj kvs) \<longleftrightarrow> (\<forall>kv \<in> set kvs. writable (snd kv))"
| "writable v \<longleftrightarrow> True"

fun reread :: "jval \<Rightarrow> jval" where
  "reread (JNum (JFin r)) = JNum (JFin (printed r))"
| "reread (JArr vs) = JArr (map reread vs)"
| "reread (JObj kvs) = JObj (fold (\<lambda>(k, v). AList.update k v) (map (\<lambda>kv. (fst kv, reread (snd kv))) kvs) [])"
| "reread v = v"

definition spaces :: "char set" where
  "spaces = {CHR '' '', CHR 0x09, CHR 0x0A, CHR 0x0D}"

lemma skip_space_over: "c \<notin> spaces \<Longrightarrow> skip_space (c # cs) = c # cs"
  by (simp add: skip_space_def spaces_def)

text \<open>How the text of a number begins.\<close>

lemma num_text_begins: "\<exists>c cs. num_text (JFin r) = c # cs \<and> c \<in> set digits \<union> {CHR ''-''}"
proof -
  have nat: "\<exists>c cs. show_nat n = c # cs \<and> c \<in> set digits" for n
    using set_show_nat [of n] show_nat_neq_Nil [of n] by (cases "show_nat n") auto
  have "\<exists>c cs. decimal_text r = c # cs \<and> c \<in> set digits \<union> {CHR ''-''}"
  proof (cases "r < 0")
    case True
    then show ?thesis by (simp add: decimal_text_def Let_def)
  next
    case False
    define k where "k = places 1074 r"
    define ds where "ds = show_nat (nat \<lfloor>\<bar>r\<bar> * 10 ^ k\<rfloor>)"
    define padded where "padded = replicate (Suc k - length ds) (CHR ''0'') @ ds"
    have "set padded \<subseteq> set digits" "Suc k \<le> length padded"
      using set_show_nat by (auto simp: padded_def ds_def digits_def)
    then have "\<exists>c cs. take (length padded - k) padded = c # cs \<and> c \<in> set digits"
      by (cases padded) (auto simp: take_Cons' split: if_splits)
    then obtain c cs where "take (length padded - k) padded = c # cs" "c \<in> set digits" by blast
    moreover have "decimal_text r = take (length padded - k) padded @ ''.'' @ drop (length padded - k) padded"
      using False by (simp only: decimal_text_def Let_def k_def ds_def padded_def if_False append_Nil)
    ultimately show ?thesis by simp
  qed
  moreover have "\<exists>c cs. show_int i = c # cs \<and> c \<in> set digits \<union> {CHR ''-''}" for i
    using nat [of "nat i"] by (auto simp: show_int_def)
  ultimately show ?thesis by simp
qed

text \<open>How the text of a value begins: with no space, and with no end of a list or an object.\<close>

lemma json_written_begins:
  assumes "writable v"
  obtains c cs where "json_written v = c # cs" and "c \<notin> spaces \<union> {CHR '']'', CHR ''}''}"
proof -
  have "\<exists>c cs. json_written v = c # cs \<and> c \<notin> spaces \<union> {CHR '']'', CHR ''}''}"
  proof (cases v)
    case (JNum n)
    with assms obtain r where "n = JFin r" by (cases n) auto
    moreover have "(set digits \<union> {CHR ''-''}) \<inter> (spaces \<union> {CHR '']'', CHR ''}''}) = {}"
      by (simp add: digits_def spaces_def)
    ultimately show ?thesis using num_text_begins [of r] JNum by auto
  qed (use assms in \<open>auto simp: json_quoted_def quoted_def spaces_def\<close>)
  with that show thesis by blast
qed

lemma number_end_delimiter [simp]:
  "number_end []" "number_end (CHR '','' # cs)" "number_end (CHR '']'' # cs)" "number_end (CHR ''}'' # cs)"
  by (simp_all add: number_end_def digits_def)

lemma parse_elements_written:
  assumes "vs \<noteq> []"
    and "\<And>v cs. v \<in> set vs \<Longrightarrow> number_end cs \<Longrightarrow> parse_value (json_written v @ cs) = Some (reread v, cs)"
  shows "parse_elements (join '','' (map json_written vs) @ '']'' @ cs) = Some (map reread vs, cs)"
  using assms
proof (induction vs)
  case (Cons v vs)
  show ?case
  proof (cases "vs = []")
    case True
    then show ?thesis
      using Cons.prems(2) [of v "'']'' @ cs"] by (simp add: parse_elements.simps [of "_ @ _"] skip_space_over spaces_def)
  next
    case False
    let ?rest = "join '','' (map json_written vs) @ '']'' @ cs"
    have split: "join '','' (map json_written (v # vs)) @ '']'' @ cs = json_written v @ CHR '','' # ?rest"
      using False by (cases vs) simp_all
    have "parse_elements ?rest = Some (map reread vs, cs)"
      using Cons.IH [OF False] Cons.prems(2) by simp
    then show ?thesis
      using Cons.prems(2) [of v "CHR '','' # ?rest"] unfolding split
      by (simp add: parse_elements.simps [of "_ @ _ # _"] skip_space_over spaces_def)
  qed
qed simp

definition member_text :: "string \<times> jval \<Rightarrow> string" where
  "member_text kv = json_quoted (fst kv) @ '':'' @ json_written (snd kv)"

lemma parse_members_written:
  assumes "kvs \<noteq> []"
    and "\<And>kv cs. kv \<in> set kvs \<Longrightarrow> number_end cs \<Longrightarrow>
      parse_value (json_written (snd kv) @ cs) = Some (reread (snd kv), cs)"
  shows "parse_members (join '','' (map member_text kvs) @ ''}'' @ cs) =
    Some (map (\<lambda>kv. (fst kv, reread (snd kv))) kvs, cs)"
  using assms
proof (induction kvs)
  case (Cons kv kvs)
  let ?tail = "\<lambda>rest. concat (map json_char (fst kv)) @ CHR 0x22 # CHR '':'' # json_written (snd kv) @ rest"
  have head: "member_text kv @ rest = CHR 0x22 # ?tail rest" for rest
    by (simp add: member_text_def json_quoted_def quoted_def)
  show ?case
  proof (cases "kvs = []")
    case True
    then show ?thesis
      using Cons.prems(2) [of kv "''}'' @ cs"] head [of "''}'' @ cs"]
      by (simp add: parse_members.simps [of "CHR 0x22 # _"] parse_string_written skip_space_over spaces_def)
  next
    case False
    let ?rest = "join '','' (map member_text kvs) @ ''}'' @ cs"
    have split: "join '','' (map member_text (kv # kvs)) @ ''}'' @ cs = CHR 0x22 # ?tail (CHR '','' # ?rest)"
      using False head by (cases kvs) simp_all
    have "parse_members ?rest = Some (map (\<lambda>kv. (fst kv, reread (snd kv))) kvs, cs)"
      using Cons.IH [OF False] Cons.prems(2) by simp
    then show ?thesis
      using Cons.prems(2) [of kv "CHR '','' # ?rest"] unfolding split
      by (simp add: parse_members.simps [of "CHR 0x22 # _"] parse_string_written skip_space_over spaces_def)
  qed
qed simp

text \<open>The first character says what stands there.\<close>

lemma parse_value_begins:
  "parse_value (CHR 0x22 # cs) = map_option (\<lambda>(s, r). (JStr s, r)) (parse_string cs)"
  "c \<notin> spaces \<union> {CHR '']''} \<Longrightarrow> parse_value (CHR ''['' # c # cs) = map_option (\<lambda>(vs, r). (JArr vs, r)) (parse_elements (c # cs))"
  "parse_value (CHR ''['' # CHR '']'' # cs) = Some (JArr [], cs)"
  "c \<notin> spaces \<union> {CHR ''}''} \<Longrightarrow> parse_value (CHR ''{'' # c # cs) =
     map_option (\<lambda>(kvs, r). (JObj (fold (\<lambda>(k, v). AList.update k v) kvs []), r)) (parse_members (c # cs))"
  "parse_value (CHR ''{'' # CHR ''}'' # cs) = Some (JObj [], cs)"
  "parse_value (''true'' @ cs) = Some (JBool True, cs)"
  "parse_value (''false'' @ cs) = Some (JBool False, cs)"
  "parse_value (''null'' @ cs) = Some (JNull, cs)"
  by (simp_all add: parse_value.simps [of "_ # _"] skip_space_over spaces_def starts_with_def)

lemma parse_value_number:
  assumes "c \<in> set digits \<union> {CHR ''-''}"
  shows "parse_value (c # cs) = map_option (\<lambda>(n, r). (JNum (JFin n), r)) (parse_number (c # cs))"
proof -
  have "c \<notin> spaces" using assms by (auto simp: digits_def spaces_def)
  moreover have "c \<notin> {CHR 0x22, CHR ''['', CHR ''{'', CHR ''t'', CHR ''f'', CHR ''n''}"
    using assms by (auto simp: digits_def)
  ultimately show ?thesis
    by (simp add: parse_value.simps [of "c # cs"] skip_space_over starts_with_def)
qed

lemma parse_value_num:
  assumes "writable (JNum n)" and "number_end cs"
  shows "parse_value (num_text n @ cs) = Some (reread (JNum n), cs)"
proof -
  from assms(1) obtain r where r: "n = JFin r" by (cases n) auto
  obtain c t where begins: "num_text (JFin r) = c # t" "c \<in> set digits \<union> {CHR ''-''}"
    using num_text_begins [of r] by blast
  then have "parse_number (c # t @ cs) = Some (printed r, cs)"
    using parse_number_text [OF assms(2), of r] by simp
  with parse_value_number [OF begins(2)] begins(1) show ?thesis by (simp add: r del: num_text.simps)
qed

lemma parse_value_written:
  "writable v \<Longrightarrow> number_end cs \<Longrightarrow> parse_value (json_written v @ cs) = Some (reread v, cs)"
proof (induction v arbitrary: cs rule: json_written.induct)
  case (1 s)
  then show ?case by (simp add: json_quoted_def quoted_def parse_value_begins parse_string_written)
next
  case (2 vs)
  show ?case
  proof (cases vs)
    case Nil
    then show ?thesis by (simp add: parse_value_begins)
  next
    case (Cons v vs')
    then have "writable v" using "2.prems" by simp
    then obtain c r where c: "json_written v = c # r" "c \<notin> spaces \<union> {CHR '']'', CHR ''}''}"
      by (rule json_written_begins)
    then obtain r' where body: "join '','' (map json_written vs) @ '']'' @ cs = c # r'"
      using Cons by (cases vs') simp_all
    have "parse_elements (join '','' (map json_written vs) @ '']'' @ cs) = Some (map reread vs, cs)"
      by (rule parse_elements_written) (use Cons "2.IH" "2.prems" in auto)
    then have "parse_elements (c # r') = Some (map reread vs, cs)" unfolding body .
    moreover have "json_written (JArr vs) @ cs = CHR ''['' # c # r'" using body by simp
    ultimately show ?thesis using parse_value_begins(2) [of c r'] c(2) by simp
  qed
next
  case (3 kvs)
  have member: "member_text = (\<lambda>kv. json_quoted (fst kv) @ '':'' @ json_written (snd kv))"
    by (simp add: fun_eq_iff member_text_def)
  show ?case
  proof (cases kvs)
    case Nil
    then show ?thesis by (simp add: parse_value_begins)
  next
    case (Cons kv kvs')
    then obtain r' where body: "join '','' (map member_text kvs) @ ''}'' @ cs = CHR 0x22 # r'"
      by (cases kvs') (simp_all add: member_text_def json_quoted_def quoted_def)
    have "parse_members (join '','' (map member_text kvs) @ ''}'' @ cs) = Some (map (\<lambda>kv. (fst kv, reread (snd kv))) kvs, cs)"
      by (rule parse_members_written) (use Cons "3.IH" "3.prems" in auto)
    then have "parse_members (CHR 0x22 # r') = Some (map (\<lambda>kv. (fst kv, reread (snd kv))) kvs, cs)" unfolding body .
    moreover have "json_written (JObj kvs) @ cs = CHR ''{'' # CHR 0x22 # r'"
      using body by (simp add: member)
    ultimately show ?thesis by (simp add: parse_value_begins(4) spaces_def)
  qed
qed (simp_all add: parse_value_begins [simplified] parse_value_num del: num_text.simps)

text \<open>A value \<open>JSON.stringify\<close> writes is always read back.\<close>

lemma writable_json: "writable (json v)"
  by (induction v rule: json.induct) auto

theorem json_parse_written: "json_parse (json_written (json v)) = Some (reread (json v))"
  using parse_value_written [OF writable_json, of "[]" v] by (simp add: json_parse_def skip_space_def)

section \<open>The values of the language\<close>

text \<open>
  The properties of an object have distinct names, and the digits of a number end.
  Such a value is read back as \<open>json\<close> says.
\<close>

definition has_decimal :: "rat \<Rightarrow> bool" where
  "has_decimal r \<longleftrightarrow> printed r = r"

fun plain_value :: "jval \<Rightarrow> bool" where
  "plain_value (JNum (JFin r)) \<longleftrightarrow> has_decimal r"
| "plain_value (JArr vs) \<longleftrightarrow> (\<forall>v \<in> set vs. plain_value v)"
| "plain_value (JObj kvs) \<longleftrightarrow> distinct (map fst kvs) \<and> (\<forall>kv \<in> set kvs. plain_value (snd kv))"
| "plain_value v \<longleftrightarrow> True"

lemma has_decimal_whole [simp]: "has_decimal (of_int i)"
  by (simp add: has_decimal_def printed_def)

lemma fold_update_distinct:
  "distinct (map fst (acc @ kvs)) \<Longrightarrow> fold (\<lambda>(k, v). AList.update k v) kvs acc = acc @ kvs"
proof (induction kvs arbitrary: acc)
  case (Cons kv kvs)
  have "AList.update (fst kv) (snd kv) acc = acc @ [kv]"
    using Cons.prems by (induction acc) auto
  with Cons show ?case by (cases kv) simp
qed simp

lemma reread_json: "plain_value v \<Longrightarrow> reread (json v) = json v"
proof (induction v rule: json.induct)
  case (7 kvs)
  let ?kept = "filter (\<lambda>kv. snd kv \<noteq> JUndefined) kvs"
  let ?members = "map (\<lambda>kv. (fst kv, json (snd kv))) ?kept"
  have "map (\<lambda>kv. (fst kv, reread (snd kv))) ?members = ?members"
    using 7 by simp
  moreover have "distinct (map fst ?members)"
    using "7.prems" by (simp add: o_def distinct_map_filter)
  ultimately show ?case using fold_update_distinct [of "[]" ?members] by (simp del: map_map)
next
  case (4 n)
  then show ?case by (cases n) (simp_all add: has_decimal_def)
qed simp_all

end
