(* ===== verification/Envelopes.thy ===== *)
theory Envelopes
  imports Definitions Json
begin

text \<open>
  What is stored for one job (\<open>src/src/Envelope.ts\<close>): the envelope, the reading
  that refuses anything else, and the object it is stored as. The round trip says
  that an envelope written, stored as JSON and read back is the envelope, with its
  payload as JSON keeps it.
\<close>

section \<open>The envelope\<close>

record envelope =
  env_v :: jnum
  env_name :: string
  env_data :: jval
  env_origin :: origin
  env_slots :: "(string \<times> int) list option"

fun origin_text :: "origin \<Rightarrow> string" where
  "origin_text Direct = ''direct''"
| "origin_text Scheduled = ''schedule''"
| "origin_text Flow = ''flow''"
| "origin_text Relay = ''relay''"

definition ORIGINS :: "origin list" where
  "ORIGINS = [Direct, Scheduled, Flow, Relay]"

text \<open>\<open>isOrigin\<close>, with the origin it recognised.\<close>

definition isOrigin :: "jval \<Rightarrow> origin option" where
  "isOrigin v = find (\<lambda>o'. JStr (origin_text o') = v) ORIGINS"

section \<open>Reading\<close>

definition EnvelopeError :: "string \<Rightarrow> thrown" where
  "EnvelopeError reason =
     new_error C_EnvelopeError (''jubs: the stored job is not a jubs envelope'' @ dash @ reason)"

text \<open>A count is a number \<open>Number.isInteger\<close> accepts.\<close>

fun read_count :: "jval \<Rightarrow> int option" where
  "read_count (JNum (JFin r)) = (if of_int (floor r) = r then Some (floor r) else None)"
| "read_count v = None"

fun read_counts :: "(string \<times> jval) list \<Rightarrow> thrown + (string \<times> int) list" where
  "read_counts [] = Inr []"
| "read_counts ((slot, count) # counts) =
     (case read_count count of
        None \<Rightarrow> Inl (EnvelopeError
          (''its child count for the slot '' @ quoted slot @ '' is '' @ json_text count @
           '', which is not a whole number of children''))
      | Some n \<Rightarrow> bindE (read_counts counts) (\<lambda>whole. Inr ((slot, n) # whole)))"

fun readSlots :: "jval \<Rightarrow> thrown + (string \<times> int) list option" where
  "readSlots JUndefined = Inr None"
| "readSlots (JObj kvs) = bindE (read_counts kvs) (\<lambda>whole. Inr (Some whole))"
| "readSlots v = Inl (EnvelopeError (''its child counts '' @ json_text v @ '' are not an object''))"

definition readEnvelope :: "jval \<Rightarrow> thrown + envelope" where
  "readEnvelope stored =
     (if \<not> is_objectlike stored
      then Inl (EnvelopeError (''expected an object, got '' @ js_typeof stored))
      else (case get_prop stored ''v'' of
        JNum v \<Rightarrow>
          (case get_prop stored ''name'' of
             JStr name \<Rightarrow>
               if name = [] then Inl (EnvelopeError ''its job name is missing'')
               else (case isOrigin (get_prop stored ''origin'') of
                  None \<Rightarrow> Inl (EnvelopeError (''its origin '' @ json_text (get_prop stored ''origin'') @ '' is not a known origin''))
                | Some orig \<Rightarrow>
                    bindE (readSlots (get_prop stored ''slots'')) (\<lambda>slots.
                      Inr \<lparr>env_v = v, env_name = name, env_data = get_prop stored ''data'',
                           env_origin = orig, env_slots = slots\<rparr>))
           | _ \<Rightarrow> Inl (EnvelopeError ''its job name is missing''))
      | _ \<Rightarrow> Inl (EnvelopeError ''its payload version `v` is missing'')))"

section \<open>Writing\<close>

definition writeEnvelope :: "job_definition \<Rightarrow> jval \<Rightarrow> origin \<Rightarrow> envelope" where
  "writeEnvelope d data orig =
     \<lparr>env_v = payloadVersion d, env_name = jd_name d, env_data = data, env_origin = orig,
      env_slots = None\<rparr>"

text \<open>The object a driver is handed, and what reading it back out of JSON gives.\<close>

definition slots_object :: "(string \<times> int) list \<Rightarrow> jval" where
  "slots_object counts = JObj (map (\<lambda>(s, n). (s, JNum (JFin (of_int n)))) counts)"

definition envelope_object :: "envelope \<Rightarrow> jval" where
  "envelope_object e = JObj
     [(''v'', JNum (env_v e)), (''name'', JStr (env_name e)), (''data'', env_data e),
      (''origin'', JStr (origin_text (env_origin e))),
      (''slots'', case env_slots e of None \<Rightarrow> JUndefined | Some c \<Rightarrow> slots_object c)]"

definition stored_value :: "jval \<Rightarrow> jval" where
  "stored_value v = (if v = JUndefined then JUndefined else json v)"

definition stored_envelope :: "envelope \<Rightarrow> envelope" where
  "stored_envelope e = e\<lparr>env_data := stored_value (env_data e)\<rparr>"

section \<open>What reading accepts, and what a stored envelope reads as\<close>

lemma isOrigin_Some_iff: "isOrigin v = Some orig \<longleftrightarrow> v = JStr (origin_text orig)"
  by (cases orig) (auto simp: isOrigin_def ORIGINS_def)

lemma origin_text_inject [simp]: "origin_text a = origin_text b \<longleftrightarrow> a = b"
  by (cases a; cases b) auto

lemma isOrigin_text [simp]: "isOrigin (JStr (origin_text orig)) = Some orig"
  by (simp add: isOrigin_Some_iff)

lemma readEnvelope_Inr_iff:
  "readEnvelope st = Inr e \<longleftrightarrow>
     is_objectlike st \<and> get_prop st ''v'' = JNum (env_v e) \<and>
     get_prop st ''name'' = JStr (env_name e) \<and> env_name e \<noteq> [] \<and>
     get_prop st ''origin'' = JStr (origin_text (env_origin e)) \<and>
     get_prop st ''data'' = env_data e \<and>
     readSlots (get_prop st ''slots'') = Inr (env_slots e)"
  unfolding readEnvelope_def
  by (auto simp: isOrigin_Some_iff bindE_Inr_iff split: jval.splits option.splits)

lemma readEnvelope_Inl_class:
  "readEnvelope st = Inl e \<Longrightarrow> instance_of e C_EnvelopeError"
proof -
  have counts: "read_counts kvs = Inl e \<Longrightarrow> instance_of e C_EnvelopeError" for kvs
    by (induction kvs rule: read_counts.induct)
      (auto simp: EnvelopeError_def bindE_Inl_iff split: option.splits)
  have slots: "readSlots v = Inl e \<Longrightarrow> instance_of e C_EnvelopeError" for v
    by (cases v) (auto simp: EnvelopeError_def bindE_Inl_iff counts)
  show "readEnvelope st = Inl e \<Longrightarrow> instance_of e C_EnvelopeError"
    unfolding readEnvelope_def
    by (auto simp: EnvelopeError_def bindE_Inl_iff slots
        split: jval.splits option.splits if_splits)
qed

lemma read_counts_object:
  "read_counts (map (\<lambda>(s, n). (s, JNum (JFin (of_int n)))) counts) = Inr counts"
  by (induction counts) auto

lemma read_counts_json:
  "read_counts (map (\<lambda>kv. (fst kv, json (snd kv))) (map (\<lambda>(s, n). (s, JNum (JFin (of_int n)))) counts))
    = Inr counts"
  by (induction counts) auto

lemma readSlots_slots_object: "readSlots (json (slots_object counts)) = Inr (Some counts)"
proof -
  have "filter (\<lambda>kv. snd kv \<noteq> JUndefined) (map (\<lambda>(s, n). (s, JNum (JFin (of_int n)))) counts) =
      map (\<lambda>(s, n). (s, JNum (JFin (of_int n)))) counts"
    by (induction counts) auto
  then show ?thesis
    unfolding slots_object_def by (simp add: read_counts_json del: map_map)
qed

lemma slots_object_neq_undefined [simp]: "slots_object c \<noteq> JUndefined"
  by (simp add: slots_object_def)

lemma get_prop_stored_envelope:
  "get_prop (json (envelope_object e)) k =
    stored_value (get_prop (envelope_object e) k)"
  unfolding envelope_object_def stored_value_def by (subst get_prop_json) simp_all

lemma readEnvelope_stored:
  assumes "is_finite (env_v e)" and "env_name e \<noteq> []"
  shows "readEnvelope (json (envelope_object e)) = Inr (stored_envelope e)"
proof -
  have "is_objectlike (json (envelope_object e))"
    by (simp add: envelope_object_def)
  moreover have "readSlots (get_prop (json (envelope_object e)) ''slots'') = Inr (env_slots e)"
    by (simp add: get_prop_stored_envelope stored_value_def envelope_object_def
        readSlots_slots_object split: option.splits)
  ultimately show ?thesis
    using assms
    by (simp add: readEnvelope_Inr_iff get_prop_stored_envelope)
      (simp add: stored_envelope_def stored_value_def envelope_object_def)
qed

lemma stored_value_idem [simp]: "stored_value (stored_value v) = stored_value v"
  by (simp add: stored_value_def)

lemma stored_envelope_sel [simp]:
  "env_v (stored_envelope e) = env_v e" "env_name (stored_envelope e) = env_name e"
  "env_origin (stored_envelope e) = env_origin e" "env_slots (stored_envelope e) = env_slots e"
  "env_data (stored_envelope e) = stored_value (env_data e)"
  by (simp_all add: stored_envelope_def)

lemma writeEnvelope_sel [simp]:
  "env_v (writeEnvelope d x orig) = payloadVersion d" "env_name (writeEnvelope d x orig) = jd_name d"
  "env_data (writeEnvelope d x orig) = x" "env_origin (writeEnvelope d x orig) = orig"
  "env_slots (writeEnvelope d x orig) = None"
  by (simp_all add: writeEnvelope_def)

end
