(* ===== verification/Samples.thy ===== *)
theory Samples
  imports Definitions Envelopes
begin

section \<open>Values the witnesses evaluate\<close>

text \<open>
  A job that takes any payload, guards each with one key and gives its handler five
  seconds; a job of version 3 with two migrations; and a parent of two slots.
\<close>

definition any_payload :: schema where
  "any_payload v = Value v"

definition mail_job :: job_definition where
  "mail_job = JobDefinition ''mail'' ''post'' any_payload None None None None None None
     (Some (\<lambda>v. ''k'')) (Some (JFin 5000))"

definition wrap_step :: migration where
  "wrap_step v = Inr (JArr [v])"

definition report_job :: job_definition where
  "report_job = JobDefinition ''report'' ''post'' any_payload None None (Some (JFin 3))
     (Some [(JFin 1, wrap_step), (JFin 2, wrap_step)]) None None None None"

definition digest_job :: job_definition where
  "digest_job = JobDefinition ''digest'' ''post'' any_payload None
     (Some [(''head'', One mail_job), (''rows'', Many mail_job)]) None None None None None None"

definition mail_envelope :: envelope where
  "mail_envelope = \<lparr>env_v = JFin 1, env_name = ''mail'', env_data = JStr ''hi'', env_origin = Direct, env_slots = None\<rparr>"

lemma digest_slots:
  "slotsOf digest_job = [\<lparr>sl_name = ''head'', sl_definition = mail_job, sl_many = False\<rparr>,
     \<lparr>sl_name = ''rows'', sl_definition = mail_job, sl_many = True\<rparr>]"
  by (simp add: slotsOf_def awaits_of_def digest_job_def)

lemma mail_slots: "slotsOf mail_job = []"
  by (simp add: slotsOf_def awaits_of_def mail_job_def)

end
