(* ===== verification/Migrations.thy ===== *)
theory Migrations
  imports Envelopes
begin

text \<open>
  Raising a stored payload to the version a process runs (\<open>src/src/Migration.ts\<close>).
  The loop of \<open>migrateEnvelope\<close> is a recursion on the version it stands at. It ends
  for every definition \<open>defineJob\<close> accepts; a loop between bounds that are not
  finite, which only a definition it refuses could start, is the value
  \<open>endlessMigration\<close>.
\<close>

section \<open>The code\<close>

definition VersionAheadError :: "string \<Rightarrow> jnum \<Rightarrow> jnum \<Rightarrow> thrown" where
  "VersionAheadError jobName stored running =
     new_error C_VersionAheadError
       (''jubs: the job '' @ quoted jobName @ '' stored a payload of version '' @ num_text stored @
        '', and this process runs version '' @ num_text running @ dash @
        ''a newer deploy wrote it, so this process cannot read it'')"

definition assertVersionIsKnown :: "job_definition \<Rightarrow> envelope \<Rightarrow> thrown + unit" where
  "assertVersionIsKnown d e =
     (if num_le (env_v e) (payloadVersion d) then Inr ()
      else Inl (VersionAheadError (jd_name d) (env_v e) (payloadVersion d)))"

definition noMigration :: "job_definition \<Rightarrow> jnum \<Rightarrow> thrown" where
  "noMigration d from =
     new_error C_Error
       (''jubs: the job '' @ quoted (jd_name d) @ '' stored a payload of version '' @ num_text from @
        '' and declares no migration from it'' @ dash @ ''add `migrations: { '' @ num_text from @
        '': (data) => ... }` to its definition'')"

definition stepOf :: "job_definition \<Rightarrow> jnum \<Rightarrow> thrown + migration" where
  "stepOf d from =
     (case map_of (migrations_of d) from of
        Some step \<Rightarrow> Inr step
      | None \<Rightarrow> Inl (noMigration d from))"

definition migrationThrew :: "job_definition \<Rightarrow> jnum \<Rightarrow> thrown \<Rightarrow> thrown" where
  "migrationThrew d from e =
     with_cause (new_error C_Error
       (''jubs: the migration of job '' @ quoted (jd_name d) @ '' from version '' @ num_text from @ '' to '' @
        num_text (num_add from 1) @ '' threw'' @ dash @ es_message (serializeError e))) e"

definition endlessMigration :: thrown where
  "endlessMigration = Thrown (JStr ''endless'')"

definition steps_left :: "jnum \<Rightarrow> jnum \<Rightarrow> nat" where
  "steps_left from running =
     (case (from, running) of (JFin a, JFin b) \<Rightarrow> nat \<lceil>b - a\<rceil> | _ \<Rightarrow> 0)"

function migrate_loop :: "job_definition \<Rightarrow> jnum \<Rightarrow> jval \<Rightarrow> thrown + jval" where
  "migrate_loop d from data =
     (if \<not> num_lt from (payloadVersion d) then Inr data
      else (case stepOf d from of
              Inl e \<Rightarrow> Inl e
            | Inr step \<Rightarrow>
                (case step data of
                   Inl e \<Rightarrow> Inl (migrationThrew d from e)
                 | Inr data' \<Rightarrow>
                     if is_finite from \<and> is_finite (payloadVersion d)
                     then migrate_loop d (num_add from 1) data'
                     else Inl endlessMigration)))"
  by pat_completeness auto

lemma steps_left_decreases:
  assumes "num_lt from running" and "is_finite from" and "is_finite running"
  shows "steps_left (num_add from 1) running < steps_left from running"
proof -
  from assms obtain a b where ab: "from = JFin a" "running = JFin b" "a < b"
    by (cases "from"; cases running) auto
  then have "\<lceil>b - (a + 1)\<rceil> = \<lceil>b - a\<rceil> - 1" and "0 < \<lceil>b - a\<rceil>"
    by (simp_all add: diff_diff_eq [symmetric])
  with ab show ?thesis by (simp add: steps_left_def)
qed

termination migrate_loop
  by (relation "measure (\<lambda>(d, from, data). steps_left from (payloadVersion d))")
    (auto simp: steps_left_decreases)

declare migrate_loop.simps [simp del]

definition migrateEnvelope :: "job_definition \<Rightarrow> envelope \<Rightarrow> thrown + jval" where
  "migrateEnvelope d e =
     bindE (assertVersionIsKnown d e) (\<lambda>_. migrate_loop d (env_v e) (env_data e))"

section \<open>What migrating a payload does\<close>

text \<open>
  The reference: run the steps of the versions \<open>from\<close> to \<open>to - 1\<close> in that order,
  each over what the one before it gave, and stop at the first failure.
\<close>

definition run_step :: "job_definition \<Rightarrow> nat \<Rightarrow> jval \<Rightarrow> thrown + jval" where
  "run_step d n x =
     bindE (stepOf d (of_count n)) (\<lambda>step.
       catchE (step x) (\<lambda>e. Inl (migrationThrew d (of_count n) e)))"

fun run_steps :: "job_definition \<Rightarrow> nat list \<Rightarrow> jval \<Rightarrow> thrown + jval" where
  "run_steps d [] x = Inr x"
| "run_steps d (n # ns) x = bindE (run_step d n x) (run_steps d ns)"

lemma is_finite_of_count [simp]: "is_finite (of_count n)"
  by (simp add: of_count_def)

lemma migrate_loop_run_steps:
  assumes "payloadVersion d = of_count n"
  shows "migrate_loop d (of_count m) x = run_steps d [m..<n] x"
proof (induction "n - m" arbitrary: m x)
  case 0
  then show ?case by (subst migrate_loop.simps) (simp add: assms)
next
  case (Suc k)
  then have "m < n" by simp
  then have upt: "[m..<n] = m # [Suc m..<n]" by (rule upt_conv_Cons)
  have "migrate_loop d (of_count (Suc m)) y = run_steps d [Suc m..<n] y" for y
    using Suc by simp
  then show ?case
    using \<open>m < n\<close>
    by (subst migrate_loop.simps)
      (simp add: assms upt run_step_def split: sum.splits)
qed

lemma migrateEnvelope_run_steps:
  assumes "payloadVersion d = of_count n" and "env_v e = of_count m" and "m \<le> n"
  shows "migrateEnvelope d e = run_steps d [m..<n] (env_data e)"
  using assms by (simp add: migrateEnvelope_def assertVersionIsKnown_def migrate_loop_run_steps)

lemma migrateEnvelope_current:
  assumes "num_le (env_v e) (payloadVersion d)" and "\<not> num_lt (env_v e) (payloadVersion d)"
  shows "migrateEnvelope d e = Inr (env_data e)"
  using assms
  by (simp add: migrateEnvelope_def assertVersionIsKnown_def migrate_loop.simps)

lemma assertVersionIsKnown_Inl_iff:
  "assertVersionIsKnown d e = Inl x \<longleftrightarrow>
    \<not> num_le (env_v e) (payloadVersion d) \<and>
    x = VersionAheadError (jd_name d) (env_v e) (payloadVersion d)"
  by (auto simp: assertVersionIsKnown_def)

lemma VersionAheadError_class [simp]:
  "instance_of (VersionAheadError n a b) k \<longleftrightarrow> k = C_VersionAheadError \<or> k = C_UnrecoverableError"
  by (auto simp: VersionAheadError_def)

text \<open>
  A definition \<open>defineJob\<close> accepts declares a step from no version outside
  \<open>1 .. version - 1\<close>, so a loop that enters a version it declares no step from ends
  there, and the endless branch is never taken.
\<close>

lemma stepOf_valid:
  assumes "valid_definition d" and "stepOf d from = Inr step"
  shows "is_finite from \<and> is_finite (payloadVersion d)"
proof -
  from assms(2) have "(from, step) \<in> set (migrations_of d)"
    by (auto simp: stepOf_def dest: map_of_SomeD split: option.splits)
  with assms(1) have "is_integer from" and "is_integer (payloadVersion d)"
    by (auto simp: valid_definition_def)
  then show ?thesis by (cases "from"; cases "payloadVersion d") auto
qed

lemma migrate_loop_not_endless:
  assumes "valid_definition d"
  shows "migrate_loop d from x \<noteq> Inl endlessMigration"
  using assms
proof (induction d "from" x rule: migrate_loop.induct)
  case (1 d "from" x)
  have no_step: "noMigration d from \<noteq> endlessMigration"
    by (simp add: noMigration_def endlessMigration_def)
  have threw: "migrationThrew d from e \<noteq> endlessMigration" for e
    by (simp add: migrationThrew_def endlessMigration_def new_error_def)
  have no_step': "stepOf d from = Inl e \<Longrightarrow> e \<noteq> endlessMigration" for e
    using no_step by (auto simp: stepOf_def split: option.splits)
  show ?case
    using "1.IH" "1.prems" threw no_step'
    by (subst migrate_loop.simps) (auto split: sum.splits dest: stepOf_valid)
qed

end
