(* ===== verification/Deliveries.thy ===== *)
theory Deliveries
  imports Definitions
begin

text \<open>
  Resolving the delivery policy of a definition (\<open>src/src/Delivery.ts\<close>): the
  defaults, the overrides, the uniqueness and the delay a replacing uniqueness
  forces.
\<close>

section \<open>The code\<close>

definition DELIVERY_DEFAULTS :: delivery where
  "DELIVERY_DEFAULTS =
     \<lparr>dl_attempts = JFin 5, dl_backoff = Exponential (JFin 2000), dl_priority = JFin 20,
      dl_keepCompletedForMs = JFin (60 * 60 * 1000), dl_keepFailedCount = JFin 200,
      dl_delayMs = None, dl_unique = None\<rparr>"

definition SCHEDULED_DEFAULTS :: delivery where
  "SCHEDULED_DEFAULTS = DELIVERY_DEFAULTS\<lparr>dl_attempts := JFin 1\<rparr>"

definition keepLastWindow :: thrown where
  "keepLastWindow = new_error C_Error
       (''jubs: unique mode '' @ quoted ''keepLast'' @ '' needs a window'' @ dash @
        ''give `ttlMs` to the definition's `unique`, so a later enqueue has a period in which '' @
        ''it can replace the job'')"

fun resolve_mode :: "unique_mode \<Rightarrow> string \<Rightarrow> jnum option \<Rightarrow> thrown + resolved_unique" where
  "resolve_mode NoOverlap key ttl = Inr (RNoOverlap key)"
| "resolve_mode KeepLast key None = Inl keepLastWindow"
| "resolve_mode KeepLast key (Some ttl) = Inr (RKeepLast key ttl)"
| "resolve_mode KeepFirst key ttl = Inr (RKeepFirst key ttl)"

definition resolveUnique :: "unique \<Rightarrow> jval \<Rightarrow> thrown + resolved_unique" where
  "resolveUnique u data = resolve_mode (uq_mode u) (uq_key u data) (uq_ttlMs u)"

fun resolveDelayMs :: "jnum option \<Rightarrow> resolved_unique option \<Rightarrow> jnum option" where
  "resolveDelayMs delayMs (Some (RKeepLast key ttl)) =
     Some (num_max (case delayMs of None \<Rightarrow> JFin 0 | Some d \<Rightarrow> d) ttl)"
| "resolveDelayMs delayMs unique = delayMs"

text \<open>\<open>a ?? b\<close>\<close>

fun or_else :: "'a option \<Rightarrow> 'a \<Rightarrow> 'a" where
  "or_else (Some x) y = x"
| "or_else None y = y"

definition delivery_defaults_for :: "job_definition \<Rightarrow> delivery" where
  "delivery_defaults_for d =
     (if jd_schedule d \<noteq> None then SCHEDULED_DEFAULTS else DELIVERY_DEFAULTS)"

fun overrides_of :: "delivery_policy \<Rightarrow> jval \<Rightarrow> delivery \<Rightarrow> delivery_overrides" where
  "overrides_of (PolicyFunction f) data defaults = f data defaults"
| "overrides_of (PolicyObject ov) data defaults = ov"

definition resolve :: "job_definition \<Rightarrow> jval \<Rightarrow> bool \<Rightarrow> thrown + delivery" where
  "resolve d data keepUnique =
     (let defaults = delivery_defaults_for d in
      case jd_delivery d of
        None \<Rightarrow> Inr defaults
      | Some policy \<Rightarrow>
          let overrides = overrides_of policy data defaults in
          bindE (case (keepUnique, do_unique overrides) of
                   (True, Some u) \<Rightarrow> bindE (resolveUnique u data) (\<lambda>r. Inr (Some r))
                 | _ \<Rightarrow> Inr None)
            (\<lambda>unique. Inr
               \<lparr>dl_attempts = or_else (do_attempts overrides) (dl_attempts defaults),
                dl_backoff = or_else (do_backoff overrides) (dl_backoff defaults),
                dl_priority = or_else (do_priority overrides) (dl_priority defaults),
                dl_keepCompletedForMs =
                  or_else (do_keepCompletedForMs overrides) (dl_keepCompletedForMs defaults),
                dl_keepFailedCount =
                  or_else (do_keepFailedCount overrides) (dl_keepFailedCount defaults),
                dl_delayMs = resolveDelayMs (do_delayMs overrides) unique,
                dl_unique = unique\<rparr>))"

definition resolveDelivery :: "job_definition \<Rightarrow> jval \<Rightarrow> thrown + delivery" where
  "resolveDelivery d data = resolve d data True"

definition resolveDeliveryWithoutUniqueness :: "job_definition \<Rightarrow> jval \<Rightarrow> thrown + delivery" where
  "resolveDeliveryWithoutUniqueness d data = resolve d data False"

section \<open>What a resolved delivery holds\<close>

lemma delivery_defaults_for_unique [simp]: "dl_unique (delivery_defaults_for d) = None"
  by (simp add: delivery_defaults_for_def DELIVERY_DEFAULTS_def SCHEDULED_DEFAULTS_def)

lemma resolve_without_unique:
  "\<exists>dl. resolve d data False = Inr dl \<and> dl_unique dl = None"
  by (auto simp: resolve_def Let_def split: option.splits)

lemma resolve_Inl: "resolve d data k = Inl e \<Longrightarrow> k \<and> e = keepLastWindow"
  by (auto simp: resolve_def Let_def bindE_Inl_iff resolveUnique_def
      split: option.splits prod.splits bool.splits elim: resolve_mode.elims)

lemma resolve_same_but_unique:
  assumes "resolve d data True = Inr dl"
  shows "\<exists>dl'. resolve d data False = Inr dl' \<and>
    dl' = dl\<lparr>dl_unique := None, dl_delayMs := dl_delayMs dl'\<rparr>"
  using assms
  by (auto simp: resolve_def Let_def bindE_Inr_iff delivery_defaults_for_def
      DELIVERY_DEFAULTS_def SCHEDULED_DEFAULTS_def split: option.splits)

lemma resolve_keepLast_delay:
  assumes "resolve d data k = Inr dl" and "dl_unique dl = Some (RKeepLast key ttl)"
  shows "\<exists>delay. dl_delayMs dl = Some delay \<and> (delay \<noteq> JNaN \<longrightarrow> num_le ttl delay)"
  using assms
  by (auto simp: resolve_def Let_def bindE_Inr_iff num_max_ge_right split: option.splits)

end
