(* ===== verification/Schedules.thy ===== *)
theory Schedules
  imports Definitions
begin

text \<open>
  Writing a schedule (\<open>src/src/Schedule.ts\<close>): the intervals and the times of day
  the library reads, and the recurrences it composes out of them. Whether a text
  names a time zone is the runtime's own table, the parameter \<open>known_zone\<close>.
\<close>

section \<open>The code\<close>

text \<open>
  The options of a schedule. \<open>so_timezone\<close> is absent, or present and possibly
  \<open>undefined\<close>.
\<close>

record schedule_options =
  so_timezone :: "string option option"
  so_data :: jval

definition no_options :: schedule_options where
  "no_options = \<lparr>so_timezone = None, so_data = JUndefined\<rparr>"

datatype weekday = Monday | Tuesday | Wednesday | Thursday | Friday | Saturday | Sunday

fun WEEKDAYS :: "weekday \<Rightarrow> nat" where
  "WEEKDAYS Sunday = 0"
| "WEEKDAYS Monday = 1"
| "WEEKDAYS Tuesday = 2"
| "WEEKDAYS Wednesday = 3"
| "WEEKDAYS Thursday = 4"
| "WEEKDAYS Friday = 5"
| "WEEKDAYS Saturday = 6"

text \<open>
  \<open>INTERVAL_MS[unit]\<close> for a unit of lower case letters: its own properties, and
  \<open>constructor\<close>, the one property of that spelling every object inherits. Its value
  is a function, which a product reads as \<open>NaN\<close>.
\<close>

definition INTERVAL_MS :: "string \<Rightarrow> jnum option" where
  "INTERVAL_MS unit = map_of
     [(''second'', JFin 1000), (''seconds'', JFin 1000), (''minute'', JFin 60000),
      (''minutes'', JFin 60000), (''hour'', JFin 3600000), (''hours'', JFin 3600000),
      (''day'', JFin 86400000), (''days'', JFin 86400000), (''constructor'', JNaN)] unit"

definition is_lower :: "char \<Rightarrow> bool" where
  "is_lower c \<longleftrightarrow> c \<in> set ''abcdefghijklmnopqrstuvwxyz''"

text \<open>The two groups \<open>INTERVAL_FORM\<close> captures: a count and a unit.\<close>

definition INTERVAL_FORM :: "string \<Rightarrow> (nat \<times> string) option" where
  "INTERVAL_FORM s =
     (case cut_at CHR '' '' s of
        None \<Rightarrow> None
      | Some (counted, unit) \<Rightarrow>
          (case read_nat counted of
             None \<Rightarrow> None
           | Some n \<Rightarrow> if unit \<noteq> [] \<and> list_all is_lower unit then Some (n, unit) else None))"

fun times :: "nat \<Rightarrow> jnum \<Rightarrow> jnum" where
  "times n (JFin r) = JFin (of_nat n * r)"
| "times n v = v"

definition notAnInterval :: "string \<Rightarrow> thrown" where
  "notAnInterval s = new_error C_Error
       (''jubs: every('' @ quoted s @ '') is not an interval'' @ dash @
        ''give a whole count above zero and a unit of second, minute, hour or day, as in '' @ ''every('' @
        quoted ''5 minutes'' @ '')'')"

definition intervalMs :: "string \<Rightarrow> thrown + jnum" where
  "intervalMs interval =
     (case INTERVAL_FORM interval of
        None \<Rightarrow> Inl (notAnInterval interval)
      | Some (n, unit) \<Rightarrow>
          (case INTERVAL_MS unit of
             None \<Rightarrow> Inl (notAnInterval interval)
           | Some unitMs \<Rightarrow> if n \<le> 0 then Inl (notAnInterval interval) else Inr (times n unitMs)))"

definition hour_form :: "string \<Rightarrow> bool" where
  "hour_form s \<longleftrightarrow>
     (case s of [a, b] \<Rightarrow> a \<in> set ''01'' \<and> b \<in> set digits \<or> a = CHR ''2'' \<and> b \<in> set ''0123'' | _ \<Rightarrow> False)"

definition minute_form :: "string \<Rightarrow> bool" where
  "minute_form s \<longleftrightarrow> (case s of [a, b] \<Rightarrow> a \<in> set ''012345'' \<and> b \<in> set digits | _ \<Rightarrow> False)"

definition notATime :: "string \<Rightarrow> thrown" where
  "notATime t =
     new_error C_Error
       (''jubs: '' @ quoted t @ '' is not a time'' @ dash @ ''give '' @ quoted ''HH:MM'' @
        '' in 24 hours, as in dailyAt('' @ quoted ''09:30'' @ '')'')"

definition timeFields :: "string \<Rightarrow> thrown + nat \<times> nat" where
  "timeFields t =
     (case cut_at CHR '':'' t of
        Some (h, m) \<Rightarrow>
          if hour_form h \<and> minute_form m
          then Inr (the (read_nat h), the (read_nat m))
          else Inl (notATime t)
      | None \<Rightarrow> Inl (notATime t))"

definition notAZone :: "string \<Rightarrow> thrown" where
  "notAZone zone =
     new_error C_Error
       (''jubs: '' @ quoted zone @ '' is not a time zone'' @ dash @ ''give an IANA name, as in '' @
        quoted ''America/Sao_Paulo'')"

definition assertTimezone :: "(string \<Rightarrow> bool) \<Rightarrow> string \<Rightarrow> thrown + unit" where
  "assertTimezone known_zone zone =
     (if known_zone zone then Inr ()
      else Inl (notAZone zone))"

text \<open>The timezone an options object carries, where it carries one.\<close>

definition given_zone :: "schedule_options \<Rightarrow> string option" where
  "given_zone opts = (case so_timezone opts of None \<Rightarrow> None | Some z \<Rightarrow> z)"

definition scheduleOf ::
    "(string \<Rightarrow> bool) \<Rightarrow> recurrence \<Rightarrow> schedule_options \<Rightarrow> thrown + schedule" where
  "scheduleOf known_zone rec opts =
     bindE (case given_zone opts of
              None \<Rightarrow> Inr ()
            | Some z \<Rightarrow> if z = [] then Inr () else assertTimezone known_zone z)
       (\<lambda>_. Inr \<lparr>sc_recurrence = rec, sc_timezone = given_zone opts, sc_data = so_data opts\<rparr>)"

definition EVERY_TIMEZONE_FIX :: thrown where
  "EVERY_TIMEZONE_FIX = new_error C_Error
       (''jubs: every() takes no timezone'' @ dash @
        ''an interval recurrence has no time of day to shift, so write dailyAt, weeklyOn, '' @
        ''monthlyOn or cron when the time zone matters'')"

definition every :: "(string \<Rightarrow> bool) \<Rightarrow> string \<Rightarrow> schedule_options \<Rightarrow> thrown + schedule" where
  "every known_zone interval opts =
     (if so_timezone opts \<noteq> None then Inl EVERY_TIMEZONE_FIX
      else bindE (intervalMs interval) (\<lambda>ms. scheduleOf known_zone (EveryMs ms) opts))"

definition dailyAt :: "(string \<Rightarrow> bool) \<Rightarrow> string \<Rightarrow> schedule_options \<Rightarrow> thrown + schedule" where
  "dailyAt known_zone t opts =
     bindE (timeFields t) (\<lambda>(hour, minute).
       scheduleOf known_zone (Pattern (show_nat minute @ '' '' @ show_nat hour @ '' * * *'')) opts)"

definition weeklyOn ::
    "(string \<Rightarrow> bool) \<Rightarrow> weekday \<Rightarrow> string \<Rightarrow> schedule_options \<Rightarrow> thrown + schedule" where
  "weeklyOn known_zone day t opts =
     bindE (timeFields t) (\<lambda>(hour, minute).
       scheduleOf known_zone
         (Pattern (show_nat minute @ '' '' @ show_nat hour @ '' * * '' @ show_nat (WEEKDAYS day))) opts)"

definition notADay :: "jnum \<Rightarrow> thrown" where
  "notADay dayOfMonth =
     new_error C_Error
       (''jubs: monthlyOn('' @ num_text dayOfMonth @ '') is not a day of the month'' @ dash @
        ''give a whole day from 1 to 31, as in monthlyOn(1, '' @ quoted ''09:00'' @ '')'')"

definition monthlyOn ::
    "(string \<Rightarrow> bool) \<Rightarrow> jnum \<Rightarrow> string \<Rightarrow> schedule_options \<Rightarrow> thrown + schedule" where
  "monthlyOn known_zone dayOfMonth t opts =
     (if \<not> is_integer dayOfMonth \<or> num_lt dayOfMonth (JFin 1) \<or> num_lt (JFin 31) dayOfMonth
      then Inl (notADay dayOfMonth)
      else bindE (timeFields t) (\<lambda>(hour, minute).
        scheduleOf known_zone
          (Pattern (show_nat minute @ '' '' @ show_nat hour @ '' '' @ num_text dayOfMonth @ '' * *'')) opts))"

definition cron :: "(string \<Rightarrow> bool) \<Rightarrow> string \<Rightarrow> schedule_options \<Rightarrow> thrown + schedule" where
  "cron known_zone pattern opts = scheduleOf known_zone (Pattern pattern) opts"

section \<open>What the forms accept\<close>

text \<open>The five fields of a cron pattern.\<close>

definition cron_fields :: "string \<Rightarrow> string list" where
  "cron_fields p = split_on CHR '' '' p"

definition pad2 :: "nat \<Rightarrow> string" where
  "pad2 n = (if n < 10 then CHR ''0'' # show_nat n else show_nat n)"

definition clock_time :: "nat \<Rightarrow> nat \<Rightarrow> string" where
  "clock_time h m = pad2 h @ '':'' @ pad2 m"

lemma show_nat_no_space [simp]: "CHR '' '' \<notin> set (show_nat n)"
  using set_show_nat [of n] by (auto simp: digits_def)

lemma in_digits_iff: "c \<in> set digits \<longleftrightarrow> (\<exists>n < 10. c = digits ! n)"
  by (metis in_set_conv_nth length_digits)

lemma two_digits:
  assumes "a < 10" and "b < 10"
  shows "pad2 (10 * a + b) = [digits ! a, digits ! b]"
proof (cases "a = 0")
  case True
  then show ?thesis using assms by (simp add: pad2_def digits_def show_nat.simps)
next
  case False
  then have "show_nat (10 * a + b) = [digits ! a, digits ! b]"
    using assms by (subst show_nat.simps) (simp add: show_nat.simps [of a])
  then show ?thesis using False by (simp add: pad2_def)
qed

lemma read_nat_two: "a < 10 \<Longrightarrow> b < 10 \<Longrightarrow> read_nat [digits ! a, digits ! b] = Some (10 * a + b)"
  by (simp add: read_nat_def)

lemma read_nat_pad2 [simp]: "n < 100 \<Longrightarrow> read_nat (pad2 n) = Some n"
  using two_digits [of "n div 10" "n mod 10"] read_nat_two [of "n div 10" "n mod 10"] by simp

lemma first_digits:
  "c \<in> set ''01'' \<longleftrightarrow> (\<exists>a < 2. c = digits ! a)"
  "c \<in> set ''0123'' \<longleftrightarrow> (\<exists>a < 4. c = digits ! a)"
  "c \<in> set ''012345'' \<longleftrightarrow> (\<exists>a < 6. c = digits ! a)"
  by (simp_all add: numeral_eq_Suc digits_def less_Suc_eq ex_disj_distrib conj_disj_distribR)


lemma hour_form_iff: "hour_form s \<longleftrightarrow> (\<exists>h < 24. s = pad2 h)"
proof
  assume "hour_form s"
  then obtain a b where s: "s = [a, b]" and
    ab: "a \<in> set ''01'' \<and> b \<in> set digits \<or> a = CHR ''2'' \<and> b \<in> set ''0123''"
    by (auto simp: hour_form_def split: list.splits)
  from ab consider "\<exists>m < 2. a = digits ! m" "\<exists>n < 10. b = digits ! n"
    | "a = CHR ''2''" "\<exists>n < 4. b = digits ! n"
    unfolding first_digits in_digits_iff by blast
  then obtain m n where "a = digits ! m" "b = digits ! n" "m < 2 \<and> n < 10 \<or> m = 2 \<and> n < 4"
  proof cases
    case 2
    then show thesis using that [of 2] by (auto simp: digits_def)
  qed blast
  then have "s = pad2 (10 * m + n)" and "10 * m + n < 24"
    using s two_digits [of m n] by auto
  then show "\<exists>h < 24. s = pad2 h" by blast
next
  assume "\<exists>h < 24. s = pad2 h"
  then obtain h where h: "h < 24" "s = pad2 h" by blast
  then have s: "s = [digits ! (h div 10), digits ! (h mod 10)]"
    using two_digits [of "h div 10" "h mod 10"] by simp
  have "h div 10 < 2 \<and> h mod 10 < 10 \<or> h div 10 = 2 \<and> h mod 10 < 4" using h by presburger
  moreover have "digits ! 2 = CHR ''2''" by (simp add: digits_def)
  ultimately show "hour_form s"
    unfolding s hour_form_def list.case first_digits in_digits_iff by metis
qed

lemma minute_form_iff: "minute_form s \<longleftrightarrow> (\<exists>m < 60. s = pad2 m)"
proof
  assume "minute_form s"
  then obtain a b where s: "s = [a, b]" and ab: "a \<in> set ''012345''" "b \<in> set digits"
    by (auto simp: minute_form_def split: list.splits)
  then obtain m n where "a = digits ! m" "b = digits ! n" "m < 6" "n < 10"
    unfolding first_digits in_digits_iff by auto
  then have "s = pad2 (10 * m + n)" and "10 * m + n < 60"
    using s by (auto simp: two_digits)
  then show "\<exists>m < 60. s = pad2 m" by blast
next
  assume "\<exists>m < 60. s = pad2 m"
  then obtain h where h: "h < 60" "s = pad2 h" by blast
  then have s: "s = [digits ! (h div 10), digits ! (h mod 10)]"
    using two_digits [of "h div 10" "h mod 10"] by simp
  have "h div 10 < 6" and "h mod 10 < 10" using h by presburger+
  then show "minute_form s"
    unfolding s minute_form_def list.case first_digits in_digits_iff by blast
qed

lemma pad2_no_colon [simp]: "CHR '':'' \<notin> set (pad2 n)"
  by (simp add: pad2_def)

lemma timeFields_Inr_iff:
  "timeFields t = Inr (h, m) \<longleftrightarrow> h < 24 \<and> m < 60 \<and> t = clock_time h m"
proof -
  have "timeFields t = Inr (h, m) \<longleftrightarrow>
      (\<exists>a b. cut_at CHR '':'' t = Some (a, b) \<and> hour_form a \<and> minute_form b \<and>
         h = the (read_nat a) \<and> m = the (read_nat b))"
    by (auto simp: timeFields_def split: option.splits if_splits)
  also have "\<dots> \<longleftrightarrow> h < 24 \<and> m < 60 \<and> cut_at CHR '':'' t = Some (pad2 h, pad2 m)"
    by (auto simp: hour_form_iff minute_form_iff)
  finally show ?thesis by (simp add: cut_at_Some clock_time_def)
qed

lemma INTERVAL_FORM_Some_iff:
  "INTERVAL_FORM s = Some (n, u) \<longleftrightarrow>
     (\<exists>d. s = d @ '' '' @ u \<and> CHR '' '' \<notin> set d \<and> read_nat d = Some n) \<and> u \<noteq> [] \<and> list_all is_lower u"
proof -
  have "INTERVAL_FORM s = Some (n, u) \<longleftrightarrow>
      (\<exists>d. cut_at CHR '' '' s = Some (d, u) \<and> read_nat d = Some n) \<and> u \<noteq> [] \<and> list_all is_lower u"
    by (auto simp: INTERVAL_FORM_def split: option.splits if_splits)
  then show ?thesis by (auto simp: cut_at_Some)
qed

lemma scheduleOf_no_options [simp]:
  "so_timezone opts = None \<Longrightarrow>
    scheduleOf kz rec opts = Inr \<lparr>sc_recurrence = rec, sc_timezone = None, sc_data = so_data opts\<rparr>"
  by (simp add: scheduleOf_def given_zone_def)

lemma scheduleOf_Inr_iff:
  "scheduleOf kz rec opts = Inr sc \<longleftrightarrow>
     sc = \<lparr>sc_recurrence = rec, sc_timezone = given_zone opts, sc_data = so_data opts\<rparr> \<and>
     (\<forall>z. given_zone opts = Some z \<longrightarrow> z = [] \<or> kz z)"
  by (auto simp: scheduleOf_def assertTimezone_def split: option.splits if_splits)


lemma read_digits_set: "read_digits n s = Some m \<Longrightarrow> set s \<subseteq> set digits"
proof (induction n s rule: read_digits.induct)
  case (2 n c cs)
  then obtain d where "digit_val c = Some d" "read_digits (10 * n + d) cs = Some m"
    by (auto split: option.splits)
  moreover from this(1) have "c \<in> set digits"
    unfolding digit_val_def by (auto dest: map_of_SomeD set_zip_leftD)
  ultimately show ?case using "2.IH" by auto
qed simp

lemma read_nat_no_space: "read_nat s = Some n \<Longrightarrow> CHR '' '' \<notin> set s"
  using read_digits_set [of 0 s n] by (auto simp: read_nat_def digits_def split: if_splits)

lemma INTERVAL_MS_iff:
  "INTERVAL_MS u = Some ms \<longleftrightarrow> (u, ms) \<in> set
     [(''second'', JFin 1000), (''seconds'', JFin 1000), (''minute'', JFin 60000),
      (''minutes'', JFin 60000), (''hour'', JFin 3600000), (''hours'', JFin 3600000),
      (''day'', JFin 86400000), (''days'', JFin 86400000), (''constructor'', JNaN)]"
  unfolding INTERVAL_MS_def by (rule map_of_eq_Some_iff) simp

lemma INTERVAL_MS_lower: "INTERVAL_MS u = Some ms \<Longrightarrow> u \<noteq> [] \<and> list_all is_lower u"
  unfolding INTERVAL_MS_iff by (auto simp: is_lower_def)

end
