(* ===== verification/DataGuarantees.thy ===== *)
theory DataGuarantees
  imports Samples Migrations Deliveries Schedules
begin

text \<open>
  What the data of the library keeps: which definitions are accepted, that an envelope
  survives its storage, how a payload is migrated, what a job id reads as, what a
  schedule is read from and how long a replacing delivery waits.
\<close>

section \<open>Definitions, envelopes and migrations\<close>

text \<open>
  \<open>defineJob\<close> accepts exactly the definitions that keep the rules, and gives back
  the very definition it was given: a version that is a whole number of at least 1,
  migrations from whole versions below it, a timeout that is finite and above 0, and,
  for a job that waits on slots, no uniqueness, idempotency key or schedule and slot
  names a job id can carry.
\<close>

theorem defineJob_accepts:
  "defineJob d = Inr d' \<longleftrightarrow> d' = d \<and> valid_definition d"
proof -
  have "valid_definition d \<longleftrightarrow> assertVersioning d = Inr () \<and> assertTimeout d = Inr () \<and> assertAwaits d = Inr ()"
    by (auto simp: valid_definition_def assertVersioning_Inr_iff assertTimeout_Inr_iff assertAwaits_Inr_iff)
  moreover have "valid_definition d \<Longrightarrow> keep_truthy (jd_version d) = jd_version d \<and>
      keep_truthy (jd_timeoutMs d) = jd_timeoutMs d"
    by (auto simp: valid_definition_def keep_truthy_version keep_truthy_timeout)
  ultimately show ?thesis
    by (auto simp: defineJob_def bindE_Inr_iff)
qed

text \<open>
  C36: an envelope written, stored as JSON and read back is the envelope, with its
  payload as JSON keeps it and the counts of its slots unchanged.
\<close>

theorem envelope_round_trip:
  assumes "is_finite (env_v e)" and "env_name e \<noteq> []"
  shows "readEnvelope (json (envelope_object e)) = Inr (stored_envelope e)"
  using assms by (rule readEnvelope_stored)

theorem envelope_round_trip_witness:
  "readEnvelope (json (envelope_object (mail_envelope\<lparr>env_slots := Some [(''rows'', 2)]\<rparr>))) =
    Inr (mail_envelope\<lparr>env_slots := Some [(''rows'', 2)]\<rparr>)"
  using envelope_round_trip [of "mail_envelope\<lparr>env_slots := Some [(''rows'', 2)]\<rparr>"]
  by (simp add: mail_envelope_def stored_envelope_def stored_value_def)

text \<open>
  C35: a payload stored at a version of at least 1 that a valid definition has already
  passed is raised by exactly the migrations of the versions between the two, each
  over what the one before it gave, and stops at the first that is missing or throws;
  the loop never runs on for ever.
\<close>

theorem migration_runs_every_step:
  assumes "valid_definition d" and "payloadVersion d = of_count n" and "env_v e = of_count m" and "m \<le> n"
  shows "migrateEnvelope d e = run_steps d [m..<n] (env_data e) \<and> migrateEnvelope d e \<noteq> Inl endlessMigration"
proof -
  have "migrateEnvelope d e \<noteq> Inl endlessMigration"
    using migrate_loop_not_endless [OF assms(1)] assms(2-4)
    by (simp add: migrateEnvelope_def assertVersionIsKnown_def)
  with migrateEnvelope_run_steps [OF assms(2-4)] show ?thesis by simp
qed

theorem migration_runs_every_step_witness:
  "valid_definition report_job \<and>
    migrateEnvelope report_job (mail_envelope\<lparr>env_name := ''report''\<rparr>) = Inr (JArr [JArr [JStr ''hi'']])"
proof -
  have valid: "valid_definition report_job"
    by (simp add: valid_definition_def report_job_def payloadVersion_def migrations_of_def slotsOf_def awaits_of_def)
  have v: "payloadVersion report_job = of_count 3"
    by (simp add: report_job_def payloadVersion_def of_count_def)
  have "env_v (mail_envelope\<lparr>env_name := ''report''\<rparr>) = of_count 1"
    by (simp add: mail_envelope_def of_count_def)
  from migration_runs_every_step [OF valid v this] show ?thesis
    using valid by (simp add: numeral_eq_Suc run_step_def stepOf_def report_job_def migrations_of_def
        wrap_step_def of_count_def mail_envelope_def)
qed

section \<open>Job ids\<close>

text \<open>
  Reading a job id cuts it at its first colon and gives back the queue and the
  stored id it was composed of, and refuses any text without both.
\<close>

theorem job_id_round_trip:
  "readJobId i = Inr (q, s) \<longleftrightarrow> i = composeJobId q s \<and> CHR '':'' \<notin> set q \<and> q \<noteq> [] \<and> s \<noteq> []"
  by (rule readJobId_Inr_iff)

text \<open>
  An id names a live job or a dead one and never both: the operations on live jobs
  see nothing exactly where the operations on dead ones read the queue the job was
  buried out of.
\<close>

theorem live_and_dead_ids_are_apart:
  "(readLiveJobId i = Inr None \<longleftrightarrow> (\<exists>q s. readDeadJobId i = Inr (q, s))) \<and>
   (readDeadJobId i = Inr (q, s) \<longleftrightarrow>
      i = composeJobId (deadQueueName q) s \<and> CHR '':'' \<notin> set q \<and> q \<noteq> [] \<and> s \<noteq> [])"
  using readLiveJobId_None_iff readDeadJobId_Inr_iff by blast

section \<open>Schedules and deliveries\<close>

text \<open>
  C40: the function \<open>every\<close> takes no timezone, whatever it holds, and accepts exactly a
  whole count above zero, a space, and a unit: second, minute, hour or day, singular or
  plural, or \<open>constructor\<close>, which its message does not name and whose interval is \<open>NaN\<close>.
  The recurrence is that count of that unit in milliseconds, with the payload of the
  options.
\<close>

theorem every_reads_intervals:
  "every kz s opts = Inr sc \<longleftrightarrow> so_timezone opts = None \<and>
     (\<exists>c n u ms. s = c @ '' '' @ u \<and> read_nat c = Some n \<and> 0 < n \<and> (u, ms) \<in> set
        [(''second'', JFin 1000), (''seconds'', JFin 1000), (''minute'', JFin 60000),
         (''minutes'', JFin 60000), (''hour'', JFin 3600000), (''hours'', JFin 3600000),
         (''day'', JFin 86400000), (''days'', JFin 86400000), (''constructor'', JNaN)] \<and>
        sc = \<lparr>sc_recurrence = EveryMs (times n ms), sc_timezone = None, sc_data = so_data opts\<rparr>)"
proof -
  have "every kz s opts = Inr sc \<longleftrightarrow> so_timezone opts = None \<and>
     (\<exists>n u ms. INTERVAL_FORM s = Some (n, u) \<and> INTERVAL_MS u = Some ms \<and> 0 < n \<and>
        sc = \<lparr>sc_recurrence = EveryMs (times n ms), sc_timezone = None, sc_data = so_data opts\<rparr>)"
    by (auto simp: every_def intervalMs_def bindE_Inr_iff split: option.splits if_splits)
  also have "\<dots> \<longleftrightarrow> so_timezone opts = None \<and>
     (\<exists>c n u ms. s = c @ '' '' @ u \<and> read_nat c = Some n \<and> 0 < n \<and> INTERVAL_MS u = Some ms \<and>
        sc = \<lparr>sc_recurrence = EveryMs (times n ms), sc_timezone = None, sc_data = so_data opts\<rparr>)"
    unfolding INTERVAL_FORM_Some_iff using INTERVAL_MS_lower read_nat_no_space by blast
  finally show ?thesis unfolding INTERVAL_MS_iff .
qed

text \<open>
  The function \<open>dailyAt\<close> accepts exactly the times of a day of twenty-four hours written as two
  digits, a colon and two digits, and its pattern is that minute and hour of every day.
\<close>

theorem dailyAt_reads_times:
  "dailyAt kz t no_options = Inr sc \<longleftrightarrow>
     (\<exists>h m. h < 24 \<and> m < 60 \<and> t = clock_time h m \<and>
        sc = \<lparr>sc_recurrence = Pattern (show_nat m @ '' '' @ show_nat h @ '' * * *''),
              sc_timezone = None, sc_data = JUndefined\<rparr>)"
proof -
  have "dailyAt kz t no_options = Inr sc \<longleftrightarrow>
      (\<exists>h m. timeFields t = Inr (h, m) \<and>
        sc = \<lparr>sc_recurrence = Pattern (show_nat m @ '' '' @ show_nat h @ '' * * *''),
              sc_timezone = None, sc_data = JUndefined\<rparr>)"
    by (auto simp: dailyAt_def bindE_Inr_iff no_options_def)
  then show ?thesis unfolding timeFields_Inr_iff by blast
qed

text \<open>
  A delivery that replaces the last enqueue waits at least as long as the window
  it replaces in, so the newer enqueue always finds the older one still waiting.
\<close>

theorem keepLast_waits_out_its_window:
  assumes "resolveDelivery d data = Inr dl" and "dl_unique dl = Some (RKeepLast key ttl)"
  shows "\<exists>delay. dl_delayMs dl = Some delay \<and> (delay = JNaN \<or> num_le ttl delay)"
  using resolve_keepLast_delay assms unfolding resolveDelivery_def by blast

definition last_policy :: delivery_overrides where
  "last_policy = \<lparr>do_attempts = None, do_backoff = None, do_priority = None, do_keepCompletedForMs = None,
     do_keepFailedCount = None, do_delayMs = Some (JFin 10),
     do_unique = Some \<lparr>uq_key = (\<lambda>v. ''u''), uq_mode = KeepLast, uq_ttlMs = Some (JFin 500)\<rparr>\<rparr>"

definition last_job :: job_definition where
  "last_job = JobDefinition ''last'' ''post'' any_payload None None None None
     (Some (PolicyObject last_policy)) None None None"

theorem keepLast_waits_out_its_window_witness:
  "\<exists>dl delay. resolveDelivery last_job JNull = Inr dl \<and> dl_delayMs dl = Some delay \<and>
     (delay = JNaN \<or> num_le (JFin 500) delay)"
proof -
  define dl where "dl = DELIVERY_DEFAULTS\<lparr>dl_delayMs := Some (JFin 500), dl_unique := Some (RKeepLast ''u'' (JFin 500))\<rparr>"
  have "resolveDelivery last_job JNull = Inr dl"
    by (simp add: resolveDelivery_def resolve_def last_job_def last_policy_def resolveUnique_def
        delivery_defaults_for_def dl_def DELIVERY_DEFAULTS_def)
  then show ?thesis
    using keepLast_waits_out_its_window [of last_job JNull dl "''u''" "JFin 500"]
    by (auto simp: dl_def)
qed

end
