(* ===== verification/Drivers.thy ===== *)
theory Drivers
  imports Envelopes
begin

text \<open>
  The interface between the library and the storage behind it
  (\<open>src/src/Driver.ts\<close>, with the store of \<open>src/src/Idempotency.ts\<close> and the
  burial of \<open>src/src/Dead.ts\<close>): the requests a driver is given, what it gives
  back, and the driver itself, a record of operations over a state. An operation
  that the source writes as an \<open>async\<close> method takes the state and gives back what
  it returned or threw, together with the state it left.
\<close>

section \<open>Operations on a state\<close>

type_synonym ('s, 'a) io = "'s \<Rightarrow> (thrown + 'a) \<times> 's"

definition ret_io :: "'a \<Rightarrow> ('s, 'a) io" where
  "ret_io x s = (Inr x, s)"

definition throw_io :: "thrown \<Rightarrow> ('s, 'a) io" where
  "throw_io e s = (Inl e, s)"

definition lift_io :: "thrown + 'a \<Rightarrow> ('s, 'a) io" where
  "lift_io r s = (r, s)"

definition bind_io :: "('s, 'a) io \<Rightarrow> ('a \<Rightarrow> ('s, 'b) io) \<Rightarrow> ('s, 'b) io" where
  "bind_io m f s = (case m s of (Inl e, s') \<Rightarrow> (Inl e, s') | (Inr x, s') \<Rightarrow> f x s')"

definition catch_io :: "('s, 'a) io \<Rightarrow> (thrown \<Rightarrow> ('s, 'a) io) \<Rightarrow> ('s, 'a) io" where
  "catch_io m h s = (case m s of (Inl e, s') \<Rightarrow> h e s' | (Inr x, s') \<Rightarrow> (Inr x, s'))"

lemma ret_io_apply [simp]: "ret_io x s = (Inr x, s)"
  by (simp add: ret_io_def)

lemma throw_io_apply [simp]: "throw_io e s = (Inl e, s)"
  by (simp add: throw_io_def)

lemma lift_io_apply [simp]: "lift_io r s = (r, s)"
  by (simp add: lift_io_def)

lemma bind_io_Inr [simp]: "m s = (Inr x, s') \<Longrightarrow> bind_io m f s = f x s'"
  by (simp add: bind_io_def)

lemma bind_io_Inl [simp]: "m s = (Inl e, s') \<Longrightarrow> bind_io m f s = (Inl e, s')"
  by (simp add: bind_io_def)

lemma catch_io_Inr [simp]: "m s = (Inr x, s') \<Longrightarrow> catch_io m h s = (Inr x, s')"
  by (simp add: catch_io_def)

lemma catch_io_Inl [simp]: "m s = (Inl e, s') \<Longrightarrow> catch_io m h s = h e s'"
  by (simp add: catch_io_def)

lemma bind_lift_io [simp]:
  "bind_io (lift_io r) f s = (case r of Inl e \<Rightarrow> (Inl e, s) | Inr x \<Rightarrow> f x s)"
  by (simp add: bind_io_def split: sum.splits)

lemma bind_io_eq_Inr:
  "bind_io m f s = (Inr y, s'') \<longleftrightarrow> (\<exists>x s'. m s = (Inr x, s') \<and> f x s' = (Inr y, s''))"
  by (auto simp: bind_io_def split: prod.splits sum.splits)

lemma bind_io_eq_Inl:
  "bind_io m f s = (Inl e, s'') \<longleftrightarrow> m s = (Inl e, s'') \<or> (\<exists>x s'. m s = (Inr x, s') \<and> f x s' = (Inl e, s''))"
  by (auto simp: bind_io_def split: prod.splits sum.splits)

lemma lift_io_eq:
  "lift_io r s = (Inr x, s') \<longleftrightarrow> r = Inr x \<and> s' = s" "lift_io r s = (Inl e, s') \<longleftrightarrow> r = Inl e \<and> s' = s"
  by (cases r; auto)+

section \<open>Requests and answers\<close>

record enqueue_request =
  rq_queue :: string
  rq_envelope :: envelope
  rq_delivery :: delivery
  rq_jobId :: "string option"

text \<open>
  One job of a flow and its children, each beside the slot of its parent it fills.
\<close>

datatype flow_node =
  FlowNode (fn_queue: string) (fn_envelope: envelope) (fn_delivery: delivery)
    (fn_children: "(string \<times> flow_node) list")

record child_failure =
  cf_id :: string
  cf_slot :: string
  cf_reason :: string

record flow_state =
  fs_results :: "child_result list"
  fs_failures :: "child_failure list"
  fs_pending :: jnum

text \<open>\<open>RunningDelivery\<close> of \<open>src/src/Cancellation.ts\<close>, which a delivery extends.\<close>

record running_delivery =
  rd_id :: string
  rd_attemptsStarted :: nat

record job_delivery = running_delivery +
  jdv_attempt :: nat
  jdv_maxAttempts :: jnum
  jdv_envelope :: jval

datatype job_state =
  Waiting | Active | Delayed | Completed | Failed | WaitingChildren | UnknownState

record job_snapshot =
  js_id :: string
  js_queue :: string
  js_name :: string
  js_state :: job_state
  js_envelope :: "envelope option"
  js_attempts :: nat
  js_maxAttempts :: jnum
  js_failure :: "string option"

datatype retry_result = Retried | RetryUnknownJob | NotFailed job_state

datatype cancel_result =
  Removed | Aborting | ChildrenRunning | CancelUnknownJob | Finished job_state

record queue_limiter =
  ql_max :: jnum
  ql_durationMs :: jnum

record schedule_upsert =
  su_recurrence :: recurrence
  su_timezone :: "string option"
  su_envelope :: envelope
  su_delivery :: delivery

section \<open>Burials\<close>

text \<open>
  \<open>Exclude<DeadReason, "child_dead">\<close>, and the reasons in full.
\<close>

datatype plain_reason = AttemptsExhausted | Unrecoverable | VersionAhead | Cancelled | ChildrenShort

datatype dead_reason = ChildDead | Plain plain_reason

text \<open>The children travel inside the one arm that keeps them.\<close>

datatype burial = BuryChildDead "child_result list" | BuryFor plain_reason

record dead_entry =
  de_jobId :: string
  de_envelope :: envelope
  de_error :: serialized_error
  de_burial :: burial

section \<open>Idempotency leases\<close>

text \<open>
  A kept result is an object with or without its \<open>result\<close> property.
\<close>

type_synonym kept_result = "jval option"

datatype idempotency_lease = LeaseAcquired string | LeaseHeld | LeaseComplete kept_result

datatype forget_outcome = Forgotten | NotFound | Running

text \<open>
  \<open>acquire\<close> takes the token \<open>randomUUID()\<close> gave this call. The two durations are
  the lease of a running delivery and the retention of a kept result.
\<close>

record 's idempotency_store =
  ids_acquire :: "string \<Rightarrow> string \<Rightarrow> nat \<Rightarrow> ('s, idempotency_lease) io"
  ids_renew :: "string \<Rightarrow> string \<Rightarrow> nat \<Rightarrow> ('s, unit) io"
  ids_complete :: "string \<Rightarrow> string \<Rightarrow> kept_result \<Rightarrow> nat \<Rightarrow> ('s, unit) io"
  ids_release :: "string \<Rightarrow> string \<Rightarrow> ('s, unit) io"
  ids_forget :: "string \<Rightarrow> ('s, forget_outcome) io"

section \<open>The driver\<close>

record 's job_driver =
  drv_enqueue :: "enqueue_request \<Rightarrow> ('s, string) io"
  drv_get :: "string \<Rightarrow> string \<Rightarrow> ('s, job_snapshot option) io"
  drv_retry :: "string \<Rightarrow> string \<Rightarrow> ('s, retry_result) io"
  drv_cancel :: "string \<Rightarrow> string \<Rightarrow> ('s, cancel_result) io"
  drv_takeCancelled :: "string \<Rightarrow> running_delivery list \<Rightarrow> ('s, running_delivery list) io"
  drv_pause :: "string \<Rightarrow> ('s, unit) io"
  drv_resume :: "string \<Rightarrow> ('s, unit) io"
  drv_reconcileSchedules :: "string \<Rightarrow> schedule_upsert list \<Rightarrow> ('s, unit) io"
  drv_dead_bury :: "string \<Rightarrow> dead_entry \<Rightarrow> ('s, unit) io"
  drv_dead_list :: "string \<Rightarrow> ('s, (string \<times> dead_entry) list) io"
  drv_dead_read :: "string \<Rightarrow> string \<Rightarrow> ('s, dead_entry option) io"
  drv_dead_remove :: "string \<Rightarrow> string \<Rightarrow> ('s, bool) io"
  drv_flow_enqueue :: "flow_node \<Rightarrow> ('s, string) io"
  drv_flow_read :: "string \<Rightarrow> string \<Rightarrow> ('s, flow_state) io"
  drv_idempotency :: "'s idempotency_store"

end
