(* ===== verification/Idempotency.thy ===== *)
theory Idempotency
  imports Drivers
begin

text \<open>
  Idempotency keys (\<open>src/src/Idempotency.ts\<close>): the lease a delivery runs its
  handler under, what a completed key keeps, and the body that outlives its
  delivery. The store is an interface: the locale \<open>lease_store\<close> states what a
  provider promises of the three states of a key, and everything a client of the
  store relies on is proved inside it. Both stores of the program, the scripts over
  Redis and the maps of the memory driver, interpret it.

  A handler's body is the list of what happens from its start on: the effects it
  has, the ticks of the renewal timer, the aborts and the expiry that reach it, and
  how it ends. The list is the interleaving, so a property of every list is a
  property of every schedule.
\<close>

section \<open>The body of a handler\<close>

datatype 's body_event =
    Effect "'s \<Rightarrow> 's"
  | RenewTick
  | CancelSwept
  | ShutdownFired
  | TimerFired
  | BodyReturns jval
  | BodyThrows thrown

type_synonym 's settled = "((thrown + jval) \<times> 's body_event list \<times> 's) option"

text \<open>
  A run is given what a renewal does, and gives back how it settled, what its body
  still has to do, and the state; a run that never settles is \<open>None\<close>.
\<close>

type_synonym 's run = "('s \<Rightarrow> 's) \<Rightarrow> 's \<Rightarrow> 's settled"

text \<open>Following a body to its own end, whatever is aborted around it.\<close>

fun follow_body :: "(jval \<Rightarrow> thrown + jval) \<Rightarrow> 's body_event list \<Rightarrow> 's run" where
  "follow_body finish [] renew s = None"
| "follow_body finish (Effect f # evs) renew s = follow_body finish evs renew (f s)"
| "follow_body finish (RenewTick # evs) renew s = follow_body finish evs renew (renew s)"
| "follow_body finish (BodyReturns v # evs) renew s = Some (finish v, evs, s)"
| "follow_body finish (BodyThrows e # evs) renew s = Some (Inl e, evs, s)"
| "follow_body finish (_ # evs) renew s = follow_body finish evs renew s"

section \<open>The code\<close>

definition IDEMPOTENCY_LEASE_MS :: nat where
  "IDEMPOTENCY_LEASE_MS = 30000"

definition IDEMPOTENCY_RENEW_MS :: nat where
  "IDEMPOTENCY_RENEW_MS = 10000"

definition HELD_RETRY_FLOOR_MS :: nat where
  "HELD_RETRY_FLOOR_MS = 100"

definition HELD_RETRY_MS :: nat where
  "HELD_RETRY_MS = 1000"

definition heldRetryDelayMs :: "nat \<Rightarrow> nat" where
  "heldRetryDelayMs deliveriesStarted =
     min (HELD_RETRY_FLOOR_MS * 2 ^ (max (deliveriesStarted - 1) 0)) HELD_RETRY_MS"

definition IDEMPOTENCY_RESULT_RETENTION_MS :: nat where
  "IDEMPOTENCY_RESULT_RETENTION_MS = 24 * 60 * 60 * 1000"

definition IDEMPOTENCY_MAX_RESULT_BYTES :: nat where
  "IDEMPOTENCY_MAX_RESULT_BYTES = 64 * 1024"

definition LeaseHeldError :: "string \<Rightarrow> thrown" where
  "LeaseHeldError key =
     new_error C_LeaseHeldError
       (''jubs: the idempotency key '' @ quoted key @ '' is held by a running delivery'' @ dash @
        ''this delivery is postponed and delivered again'')"

definition idempotencyKeyFor :: "job_definition \<Rightarrow> jval \<Rightarrow> string option" where
  "idempotencyKeyFor d data =
     (case jd_idempotencyKey d of
        None \<Rightarrow> None
      | Some key \<Rightarrow> Some (jd_name d @ '':'' @ key data))"

text \<open>A text is its UTF-8 bytes, so its length is the length of its encoding.\<close>

definition serialize :: "jval \<Rightarrow> string option" where
  "serialize result = map_option json_written (stringify result)"

definition keptResultOf :: "jval \<Rightarrow> kept_result" where
  "keptResultOf result =
     (case serialize result of
        None \<Rightarrow> None
      | Some serialized \<Rightarrow>
          if length serialized > IDEMPOTENCY_MAX_RESULT_BYTES then None else Some result)"

lemma keptResultOf_Some: "keptResultOf result = Some v \<Longrightarrow> v = result"
  by (simp add: keptResultOf_def split: option.splits if_splits)

text \<open>\<open>lease.kept.result\<close>\<close>

definition kept_value :: "kept_result \<Rightarrow> jval" where
  "kept_value kept = (case kept of None \<Rightarrow> JUndefined | Some v \<Rightarrow> v)"

text \<open>What a tick of \<open>renewWhileRunning\<close> does: a renewal that fails is logged.\<close>

definition renewWhileRunning :: "'s idempotency_store \<Rightarrow> string \<Rightarrow> string \<Rightarrow> 's \<Rightarrow> 's" where
  "renewWhileRunning store key token s = snd (ids_renew store key token IDEMPOTENCY_LEASE_MS s)"

definition settleWhenBodyEnds ::
    "'s idempotency_store \<Rightarrow> string \<Rightarrow> string \<Rightarrow> 's run \<Rightarrow> 's \<Rightarrow> 's option" where
  "settleWhenBodyEnds store key token running s =
     (case running (renewWhileRunning store key token) s of
        None \<Rightarrow> None
      | Some (Inr result, evs, s') \<Rightarrow>
          Some (snd (ids_complete store key token (keptResultOf result)
                       IDEMPOTENCY_RESULT_RETENTION_MS s'))
      | Some (Inl e, evs, s') \<Rightarrow> Some (snd (ids_release store key token s')))"

definition runUnderKey ::
    "'s idempotency_store \<Rightarrow> string \<Rightarrow> string \<Rightarrow> 's run \<Rightarrow> 's \<Rightarrow> 's settled" where
  "runUnderKey store key uuid run s =
     (case ids_acquire store key uuid IDEMPOTENCY_LEASE_MS s of
        (Inl e, s1) \<Rightarrow> Some (Inl e, [], s1)
      | (Inr LeaseHeld, s1) \<Rightarrow> Some (Inl (LeaseHeldError key), [], s1)
      | (Inr (LeaseComplete kept), s1) \<Rightarrow> Some (Inr (kept_value kept), [], s1)
      | (Inr (LeaseAcquired token), s1) \<Rightarrow>
          (case run (renewWhileRunning store key token) s1 of
             None \<Rightarrow> None
           | Some (Inl e, evs, s2) \<Rightarrow>
               if stillRunning e then Some (Inl e, evs, s2)
               else (case ids_release store key token s2 of
                       (Inl e', s3) \<Rightarrow> Some (Inl e', evs, s3)
                     | (Inr _, s3) \<Rightarrow> Some (Inl e, evs, s3))
           | Some (Inr result, evs, s2) \<Rightarrow>
               (case ids_complete store key token (keptResultOf result)
                       IDEMPOTENCY_RESULT_RETENTION_MS s2 of
                  (Inl e', s3) \<Rightarrow> Some (Inl e', evs, s3)
                | (Inr _, s3) \<Rightarrow> Some (Inr result, evs, s3))))"

section \<open>The contract of a store\<close>

datatype key_state = Absent | HeldBy string | Complete kept_result

text \<open>What storing a kept result as JSON keeps of it.\<close>

definition stored_kept :: "kept_result \<Rightarrow> kept_result" where
  "stored_kept kept = (case kept of None \<Rightarrow> None | Some v \<Rightarrow> stringify v)"

definition lease_for :: "key_state \<Rightarrow> string \<Rightarrow> idempotency_lease" where
  "lease_for k token =
     (case k of Absent \<Rightarrow> LeaseAcquired token | HeldBy t \<Rightarrow> LeaseHeld | Complete kept \<Rightarrow> LeaseComplete kept)"

definition forget_for :: "key_state \<Rightarrow> forget_outcome" where
  "forget_for k = (case k of Absent \<Rightarrow> NotFound | HeldBy t \<Rightarrow> Running | Complete kept \<Rightarrow> Forgotten)"

text \<open>
  \<open>view s k\<close> is the state the store keeps the key \<open>k\<close> in, and \<open>given kept\<close> is what it
  gives back of a kept result. The law of \<open>complete\<close>
  says nothing of a key another delivery already completed: the two providers
  differ there.
\<close>

locale lease_store =
  fixes store :: "'s idempotency_store"
    and view :: "'s \<Rightarrow> string \<Rightarrow> key_state"
    and invar :: "'s \<Rightarrow> bool"
    and given :: "kept_result \<Rightarrow> kept_result"
  assumes acquire_law: "invar s \<Longrightarrow> 0 < ms \<Longrightarrow>
      \<exists>s'. ids_acquire store k t ms s = (Inr (lease_for (view s k) t), s') \<and> invar s' \<and>
        view s' = (view s)(k := if view s k = Absent then HeldBy t else view s k)"
    and renew_law: "invar s \<Longrightarrow> 0 < ms \<Longrightarrow>
      \<exists>s'. ids_renew store k t ms s = (Inr (), s') \<and> invar s' \<and> view s' = view s"
    and complete_law: "invar s \<Longrightarrow> 0 < ms \<Longrightarrow> view s k = Absent \<or> view s k = HeldBy t \<Longrightarrow>
      \<exists>s'. ids_complete store k t kept ms s = (Inr (), s') \<and> invar s' \<and>
        view s' = (view s)(k := Complete (given kept))"
    and complete_stale_law: "invar s \<Longrightarrow> 0 < ms \<Longrightarrow> view s k = HeldBy t' \<Longrightarrow> t' \<noteq> t \<Longrightarrow>
      \<exists>s'. ids_complete store k t kept ms s = (Inr (), s') \<and> invar s' \<and> view s' = view s"
    and release_law: "invar s \<Longrightarrow>
      \<exists>s'. ids_release store k t s = (Inr (), s') \<and> invar s' \<and>
        view s' = (if view s k = HeldBy t then (view s)(k := Absent) else view s)"
    and forget_law: "invar s \<Longrightarrow>
      \<exists>s'. ids_forget store k s = (Inr (forget_for (view s k)), s') \<and> invar s' \<and>
        view s' = (view s)(k := case view s k of HeldBy t \<Rightarrow> HeldBy t | _ \<Rightarrow> Absent)"

section \<open>Deliveries of one key, interleaved\<close>

text \<open>
  Any number of deliveries, each with the token \<open>randomUUID()\<close> gave it, over one
  key. A step is one operation of the code: a delivery acquires and starts its
  body or ends without one, the body renews its lease, returns or throws; an
  operator forgets the key; and time passes in the store, which may drop a kept
  result but drops no lease, the case of a worker that renews in time.
\<close>

datatype phase = Fresh | BodyRuns | Ended

record 's lease_system =
  ls_state :: 's
  ls_phase :: "string \<Rightarrow> phase"

definition start_phase :: "idempotency_lease \<Rightarrow> phase" where
  "start_phase lease = (case lease of LeaseAcquired t \<Rightarrow> BodyRuns | _ \<Rightarrow> Ended)"

definition time_passes :: "('s \<Rightarrow> string \<Rightarrow> key_state) \<Rightarrow> ('s \<Rightarrow> bool) \<Rightarrow> string \<Rightarrow> 's \<Rightarrow> 's \<Rightarrow> bool" where
  "time_passes view invar key s s' \<longleftrightarrow>
     invar s' \<and> (view s' key = view s key \<or> (\<exists>kept. view s key = Complete kept) \<and> view s' key = Absent)"

inductive lease_step ::
    "'s idempotency_store \<Rightarrow> ('s \<Rightarrow> string \<Rightarrow> key_state) \<Rightarrow> ('s \<Rightarrow> bool) \<Rightarrow> string \<Rightarrow>
      's lease_system \<Rightarrow> 's lease_system \<Rightarrow> bool"
  for store view invar key where
  start: "ls_phase sys t = Fresh \<Longrightarrow>
     ids_acquire store key t IDEMPOTENCY_LEASE_MS (ls_state sys) = (Inr lease, s') \<Longrightarrow>
     lease_step store view invar key sys
       \<lparr>ls_state = s', ls_phase = (ls_phase sys)(t := start_phase lease)\<rparr>"
| renew: "ls_phase sys t = BodyRuns \<Longrightarrow>
     lease_step store view invar key sys
       (sys\<lparr>ls_state := renewWhileRunning store key t (ls_state sys)\<rparr>)"
| returns: "ls_phase sys t = BodyRuns \<Longrightarrow>
     ids_complete store key t kept IDEMPOTENCY_RESULT_RETENTION_MS (ls_state sys) = (Inr (), s') \<Longrightarrow>
     lease_step store view invar key sys
       \<lparr>ls_state = s', ls_phase = (ls_phase sys)(t := Ended)\<rparr>"
| throws: "ls_phase sys t = BodyRuns \<Longrightarrow>
     ids_release store key t (ls_state sys) = (Inr (), s') \<Longrightarrow>
     lease_step store view invar key sys
       \<lparr>ls_state = s', ls_phase = (ls_phase sys)(t := Ended)\<rparr>"
| forget: "ids_forget store key (ls_state sys) = (Inr out, s') \<Longrightarrow>
     lease_step store view invar key sys (sys\<lparr>ls_state := s'\<rparr>)"
| time: "time_passes view invar key (ls_state sys) s' \<Longrightarrow>
     lease_step store view invar key sys (sys\<lparr>ls_state := s'\<rparr>)"

definition initial_system ::
    "('s \<Rightarrow> string \<Rightarrow> key_state) \<Rightarrow> ('s \<Rightarrow> bool) \<Rightarrow> string \<Rightarrow> 's lease_system \<Rightarrow> bool" where
  "initial_system view invar key sys \<longleftrightarrow>
     invar (ls_state sys) \<and> (\<forall>t. view (ls_state sys) key \<noteq> HeldBy t) \<and> (\<forall>t. ls_phase sys t = Fresh)"

text \<open>A body runs exactly while its token holds the key.\<close>

definition lease_invariant ::
    "('s \<Rightarrow> string \<Rightarrow> key_state) \<Rightarrow> ('s \<Rightarrow> bool) \<Rightarrow> string \<Rightarrow> 's lease_system \<Rightarrow> bool" where
  "lease_invariant view invar key sys \<longleftrightarrow>
     invar (ls_state sys) \<and> (\<forall>t. ls_phase sys t = BodyRuns \<longleftrightarrow> view (ls_state sys) key = HeldBy t)"

lemma durations_positive [simp]:
  "0 < IDEMPOTENCY_LEASE_MS" "0 < IDEMPOTENCY_RESULT_RETENTION_MS"
  by (simp_all add: IDEMPOTENCY_LEASE_MS_def IDEMPOTENCY_RESULT_RETENTION_MS_def)

lemma LeaseHeldError_class [simp]:
  "instance_of (LeaseHeldError key) k \<longleftrightarrow> k = C_LeaseHeldError"
  by (auto simp: LeaseHeldError_def)

context lease_store begin

lemma renewWhileRunning_view:
  assumes "invar s"
  shows "invar (renewWhileRunning store k t s) \<and> view (renewWhileRunning store k t s) = view s"
  using renew_law [OF assms durations_positive(1), of k t]
  by (auto simp: renewWhileRunning_def)

lemma lease_step_invariant:
  assumes "lease_step store view invar key sys sys'" and "lease_invariant view invar key sys"
  shows "lease_invariant view invar key sys'"
  using assms
proof (induction rule: lease_step.induct)
  case (start sys t lease s')
  let ?v = "view (ls_state sys) key"
  from start.prems have inv: "invar (ls_state sys)"
    and held: "\<And>u. ls_phase sys u = BodyRuns \<longleftrightarrow> ?v = HeldBy u"
    by (simp_all add: lease_invariant_def)
  from acquire_law [OF inv durations_positive(1), of key t] start.hyps(2)
  have s': "lease = lease_for ?v t" "invar s'" "view s' key = (if ?v = Absent then HeldBy t else ?v)"
    by auto
  from held [of t] start.hyps(1) have "?v \<noteq> HeldBy t" by simp
  with s' held show ?case
    by (cases ?v) (auto simp: lease_invariant_def lease_for_def start_phase_def)
next
  case (renew sys t)
  then show ?case
    using renewWhileRunning_view by (simp add: lease_invariant_def)
next
  case (returns sys t kept s')
  then have "invar (ls_state sys)" and "view (ls_state sys) key = HeldBy t"
    by (simp_all add: lease_invariant_def)
  with complete_law [OF this(1) durations_positive(2), of key t kept] returns
  show ?case by (auto simp: lease_invariant_def)
next
  case (throws sys t s')
  then have "invar (ls_state sys)" and "view (ls_state sys) key = HeldBy t"
    by (simp_all add: lease_invariant_def)
  with release_law [OF this(1), of key t] throws
  show ?case by (auto simp: lease_invariant_def)
next
  case (forget sys out s')
  then have "invar (ls_state sys)" by (simp add: lease_invariant_def)
  from forget_law [OF this, of key] forget
  show ?case by (auto simp: lease_invariant_def split: key_state.splits)
next
  case (time sys s')
  then have held: "\<And>u. ls_phase sys u = BodyRuns \<longleftrightarrow> view (ls_state sys) key = HeldBy u"
    and inv: "invar s'" by (simp_all add: lease_invariant_def time_passes_def)
  from time.hyps consider "view s' key = view (ls_state sys) key"
    | kept where "view (ls_state sys) key = Complete kept" "view s' key = Absent"
    by (auto simp: time_passes_def)
  then show ?case
    by cases (simp_all add: lease_invariant_def held inv)
qed

lemma reachable_lease_invariant:
  assumes "(lease_step store view invar key)\<^sup>*\<^sup>* sys sys'" and "initial_system view invar key sys"
  shows "lease_invariant view invar key sys'"
  using assms
proof (induction rule: rtranclp_induct)
  case base
  then show ?case by (simp add: initial_system_def lease_invariant_def)
next
  case (step sys' sys'')
  then show ?case by (blast intro: lease_step_invariant)
qed

lemma one_body_at_a_time:
  assumes "(lease_step store view invar key)\<^sup>*\<^sup>* sys sys'" and "initial_system view invar key sys"
    and "ls_phase sys' t = BodyRuns" and "ls_phase sys' t' = BodyRuns"
  shows "t = t'"
  using reachable_lease_invariant [OF assms(1,2)] assms(3,4) by (auto simp: lease_invariant_def)

lemma complete_key_skips_the_body:
  assumes "invar s" and "view s key = Complete kept"
  shows "\<exists>s'. runUnderKey store key uuid run s = Some (Inr (kept_value kept), [], s') \<and>
    invar s' \<and> view s' = view s"
  using acquire_law [OF assms(1) durations_positive(1), of key uuid] assms(2)
  by (auto simp: runUnderKey_def lease_for_def fun_upd_idem)

lemma held_key_postpones:
  assumes "invar s" and "view s key = HeldBy t"
  shows "\<exists>s'. runUnderKey store key uuid run s = Some (Inl (LeaseHeldError key), [], s') \<and>
    invar s' \<and> view s' = view s"
  using acquire_law [OF assms(1) durations_positive(1), of key uuid] assms(2)
  by (auto simp: runUnderKey_def lease_for_def fun_upd_idem)

text \<open>
  What a free key goes through. \<open>keeps_lease run\<close> says that the run leaves the
  lease of its own key where it is, which every run does whose effects do not
  touch the store.
\<close>

definition keeps_lease :: "string \<Rightarrow> string \<Rightarrow> 's run \<Rightarrow> bool" where
  "keeps_lease key t run \<longleftrightarrow>
     (\<forall>s r evs s'. invar s \<longrightarrow> view s key = HeldBy t \<longrightarrow>
        run (renewWhileRunning store key t) s = Some (r, evs, s') \<longrightarrow>
        invar s' \<and> view s' key = HeldBy t)"

lemma keeps_leaseD:
  "keeps_lease key t run \<Longrightarrow> invar s \<Longrightarrow> view s key = HeldBy t \<Longrightarrow>
    run (renewWhileRunning store key t) s = Some (r, evs, s') \<Longrightarrow> invar s' \<and> view s' key = HeldBy t"
  unfolding keeps_lease_def by blast

lemma free_key_acquired:
  assumes "invar s" and "view s key = Absent"
  obtains s1 where "ids_acquire store key t IDEMPOTENCY_LEASE_MS s = (Inr (LeaseAcquired t), s1)"
    "invar s1" "view s1 = (view s)(key := HeldBy t)"
  using acquire_law [OF assms(1) durations_positive(1), of key t] assms(2)
  by (auto simp: lease_for_def)

lemma free_key_completes:
  assumes "invar s" and "view s key = Absent" and "keeps_lease key t run"
    and "runUnderKey store key t run s = Some (Inr v, evs, s')"
  obtains s2 where "invar s2" "view s2 key = HeldBy t"
    "ids_complete store key t (keptResultOf v) IDEMPOTENCY_RESULT_RETENTION_MS s2 = (Inr (), s')"
proof -
  from assms(1,2) obtain s1 where
    s1: "ids_acquire store key t IDEMPOTENCY_LEASE_MS s = (Inr (LeaseAcquired t), s1)"
      "invar s1" "view s1 = (view s)(key := HeldBy t)"
    by (rule free_key_acquired)
  from assms(4) s1(1) obtain s2 where
    s2: "run (renewWhileRunning store key t) s1 = Some (Inr v, evs, s2)"
      "ids_complete store key t (keptResultOf v) IDEMPOTENCY_RESULT_RETENTION_MS s2 = (Inr (), s')"
    by (auto simp: runUnderKey_def split: option.splits sum.splits prod.splits if_splits)
  with keeps_leaseD [OF assms(3) s1(2) _ s2(1)] s1(3) have "invar s2" "view s2 key = HeldBy t"
    by simp_all
  with s2(2) that show thesis by blast
qed

lemma free_key_returns:
  assumes "invar s" and "view s key = Absent" and "keeps_lease key t run"
    and "runUnderKey store key t run s = Some (Inr v, evs, s')"
  shows "invar s' \<and> view s' key = Complete (given (keptResultOf v))"
proof -
  from assms obtain s2 where s2: "invar s2" "view s2 key = HeldBy t"
    "ids_complete store key t (keptResultOf v) IDEMPOTENCY_RESULT_RETENTION_MS s2 = (Inr (), s')"
    by (rule free_key_completes)
  with complete_law [OF s2(1) durations_positive(2), of key t "keptResultOf v"] show ?thesis by auto
qed

lemma free_key_throws:
  assumes "invar s" and "view s key = Absent" and "keeps_lease key t run"
    and "runUnderKey store key t run s = Some (Inl e, evs, s')"
  shows "invar s' \<and> view s' key = (if stillRunning e then HeldBy t else Absent)"
proof -
  from assms(1,2) obtain s1 where
    s1: "ids_acquire store key t IDEMPOTENCY_LEASE_MS s = (Inr (LeaseAcquired t), s1)"
      "invar s1" "view s1 = (view s)(key := HeldBy t)"
    by (rule free_key_acquired)
  obtain r evs2 s2 where r: "run (renewWhileRunning store key t) s1 = Some (r, evs2, s2)"
    using assms(4) s1(1) by (auto simp: runUnderKey_def split: option.splits)
  with keeps_leaseD [OF assms(3) s1(2) _ r] s1(3) have s2: "invar s2" "view s2 key = HeldBy t"
    by simp_all
  show ?thesis
  proof (cases r)
    case (Inl e2)
    then show ?thesis
      using assms(4) s1(1) r s2 release_law [OF s2(1), of key t]
      by (auto simp: runUnderKey_def split: if_splits)
  next
    case (Inr v)
    then show ?thesis
      using assms(4) s1(1) r s2 complete_law [OF s2(1) durations_positive(2), of key t "keptResultOf v"]
      by (auto simp: runUnderKey_def)
  qed
qed

lemma detached_body_settles:
  assumes "invar s" and "view s key = HeldBy t" and "keeps_lease key t running"
    and "settleWhenBodyEnds store key t running s = Some s'"
  shows "\<exists>r evs s2. running (renewWhileRunning store key t) s = Some (r, evs, s2) \<and>
    view s' key = (case r of Inr v \<Rightarrow> Complete (given (keptResultOf v)) | Inl e \<Rightarrow> Absent)"
proof -
  from assms(4) obtain r evs s2 where r: "running (renewWhileRunning store key t) s = Some (r, evs, s2)"
    by (auto simp: settleWhenBodyEnds_def split: option.splits)
  from keeps_leaseD [OF assms(3,1,2) r] have s2: "invar s2" "view s2 key = HeldBy t"
    by simp_all
  have "view s' key = (case r of Inr v \<Rightarrow> Complete (given (keptResultOf v)) | Inl e \<Rightarrow> Absent)"
  proof (cases r)
    case (Inl e)
    then show ?thesis
      using assms(4) r s2(2) release_law [OF s2(1), of key t]
      by (auto simp: settleWhenBodyEnds_def)
  next
    case (Inr v)
    then show ?thesis
      using assms(4) r s2(2) complete_law [OF s2(1) durations_positive(2), of key t "keptResultOf v"]
      by (auto simp: settleWhenBodyEnds_def)
  qed
  with r show ?thesis by blast
qed

lemma second_delivery_replays:
  assumes "invar s" and "view s key = Absent" and "keeps_lease key t run"
    and "runUnderKey store key t run s = Some (Inr v, evs, s')"
  shows "\<exists>s''. runUnderKey store key t' run' s' =
      Some (Inr (kept_value (given (keptResultOf v))), [], s'')"
  using complete_key_skips_the_body free_key_returns [OF assms] by blast

end

section \<open>The retry delay and the key\<close>

lemma heldRetryDelayMs_bounds:
  "HELD_RETRY_FLOOR_MS \<le> heldRetryDelayMs n \<and> heldRetryDelayMs n \<le> HELD_RETRY_MS"
  by (simp add: heldRetryDelayMs_def HELD_RETRY_FLOOR_MS_def HELD_RETRY_MS_def)

lemma heldRetryDelayMs_mono: "m \<le> n \<Longrightarrow> heldRetryDelayMs m \<le> heldRetryDelayMs n"
  unfolding heldRetryDelayMs_def
  by (intro min.mono mult_le_mono power_increasing) auto

end
