(* ===== verification/Validation.thy ===== *)
theory Validation
  imports Definitions
begin

text \<open>
  Validating a payload and a result against the schema of a definition
  (\<open>src/src/Payload.ts\<close>, \<open>src/src/Result.ts\<close>), with the text each refusal
  composes out of the issues the schema reported.
\<close>

fun segment_text :: "segment \<Rightarrow> string" where
  "segment_text (SegKey k) = k"
| "segment_text (SegObject k) = k"

text \<open>\<open>readPath\<close> of both files, which differ in the name of the whole alone.\<close>

definition readPath :: "string \<Rightarrow> issue \<Rightarrow> string" where
  "readPath whole i =
     (case is_path i of
        None \<Rightarrow> whole
      | Some p \<Rightarrow> if p = [] then whole else join ''.'' (map segment_text p))"

definition reasons :: "string \<Rightarrow> issue list \<Rightarrow> string" where
  "reasons whole issues = join ''; '' (map (\<lambda>i. readPath whole i @ '': '' @ is_message i) issues)"

definition PayloadError :: "string \<Rightarrow> issue list \<Rightarrow> thrown" where
  "PayloadError jobName issues =
     new_error C_PayloadError (''jubs: the payload for job '' @ quoted jobName @ '' is invalid'' @ dash @ reasons ''payload'' issues)"

definition validatePayload :: "job_definition \<Rightarrow> jval \<Rightarrow> thrown + jval" where
  "validatePayload d data =
     (case jd_payload d data of
        Issues issues \<Rightarrow> Inl (PayloadError (jd_name d) issues)
      | Value v \<Rightarrow> Inr v)"

definition ResultError :: "string \<Rightarrow> issue list \<Rightarrow> thrown" where
  "ResultError jobName issues =
     new_error C_ResultError (''jubs: the result of job '' @ quoted jobName @ '' is invalid'' @ dash @ reasons ''result'' issues)"

definition validateResult :: "job_definition \<Rightarrow> jval \<Rightarrow> thrown + jval" where
  "validateResult d value =
     (case jd_result d of
        None \<Rightarrow> Inr value
      | Some schema \<Rightarrow>
          (case schema value of
             Issues issues \<Rightarrow> Inl (ResultError (jd_name d) issues)
           | Value v \<Rightarrow> Inr v))"

lemma validatePayload_Inr_iff [result_simps]:
  "validatePayload d data = Inr v \<longleftrightarrow> jd_payload d data = Value v"
  by (auto simp: validatePayload_def split: schema_result.splits)

lemma validatePayload_Inl_class:
  "validatePayload d data = Inl e \<Longrightarrow> instance_of e k \<longleftrightarrow> k = C_PayloadError"
  by (auto simp: validatePayload_def PayloadError_def split: schema_result.splits)

lemma validateResult_Inl_class:
  "validateResult d v = Inl e \<Longrightarrow> instance_of e k \<longleftrightarrow> k = C_ResultError"
  by (auto simp: validateResult_def ResultError_def split: option.splits schema_result.splits)

lemma validateResult_none [simp]: "jd_result d = None \<Longrightarrow> validateResult d v = Inr v"
  by (simp add: validateResult_def)

end
