(* ===== verification/Flows.thy ===== *)
theory Flows
  imports Drivers Validation Deliveries
begin

text \<open>
  Flows (\<open>src/src/Flow.ts\<close>): composing the tree a definition and what fills its
  slots make, and reading back, before a handler runs, what the children of a job
  settled into. The theorems say what a composed tree holds, that its envelope
  records the very shape it was given, and that a read over fewer children than
  that shape is refused.
\<close>

section \<open>What a slot was given\<close>

fun isRecord :: "jval \<Rightarrow> bool" where
  "isRecord (JObj kvs) = True"
| "isRecord v = False"

definition listed :: "string list \<Rightarrow> string" where
  "listed names = join '', '' (map quoted names)"

definition nothingPassed :: "job_definition \<Rightarrow> slot list \<Rightarrow> thrown" where
  "nothingPassed d slots =
     new_error C_Error
       (''jubs: the job '' @ quoted (jd_name d) @ '' waits on the slots '' @ listed (map sl_name slots) @
        '', and this enqueue passed nothing for them'' @ dash @
        ''jobs.enqueue(definition, data, awaits) takes what fills every slot as its third '' @ ''argument'')"

definition slotsMissing :: "job_definition \<Rightarrow> slot list \<Rightarrow> slot list \<Rightarrow> thrown" where
  "slotsMissing d slots missing =
     new_error C_Error
       (''jubs: the job '' @ quoted (jd_name d) @ '' waits on the slots '' @ listed (map sl_name slots) @
        '', and this enqueue passed nothing for '' @ listed (map sl_name missing) @ dash @
        ''every slot a definition declares is filled at enqueue, because a flow enqueued '' @
        ''short would run this job over an input it never had'')"

definition oneForMany :: "job_definition \<Rightarrow> slot \<Rightarrow> thrown" where
  "oneForMany d stray =
     new_error C_Error
       (''jubs: the job '' @ quoted (jd_name d) @ '' waits on many of '' @
        quoted (jd_name (sl_definition stray)) @ '' in the slot '' @ quoted (sl_name stray) @
        '', and this enqueue passed one value'' @ dash @
        ''fill that slot with an array, or drop the array around the definition the slot '' @
        ''declares to wait on exactly one'')"

definition manyForOne :: "job_definition \<Rightarrow> slot \<Rightarrow> thrown" where
  "manyForOne d stray =
     new_error C_Error
       (''jubs: the job '' @ quoted (jd_name d) @ '' waits on exactly one '' @
        quoted (jd_name (sl_definition stray)) @ '' in the slot '' @ quoted (sl_name stray) @
        '', and this enqueue passed an array'' @ dash @
        ''fill that slot with a single value, or wrap the definition the slot declares in an '' @
        ''array to wait on many'')"

definition assertAwaitsInput :: "job_definition \<Rightarrow> jval \<Rightarrow> thrown + jval" where
  "assertAwaitsInput d awaits =
     (let slots = slotsOf d in
      if slots = [] then Inr (JObj [])
      else if \<not> isRecord awaits
        then Inl (nothingPassed d slots)
      else
        let missing = filter (\<lambda>s. get_prop awaits (sl_name s) = JUndefined) slots in
        if missing \<noteq> []
        then Inl (slotsMissing d slots missing)
        else
          (case find (\<lambda>s. sl_many s \<noteq> is_array (get_prop awaits (sl_name s))) slots of
             None \<Rightarrow> Inr awaits
           | Some stray \<Rightarrow> if sl_many stray then Inl (oneForMany d stray) else Inl (manyForOne d stray)))"

definition childInput :: "slot \<Rightarrow> jval \<Rightarrow> jval \<times> jval" where
  "childInput s given =
     (if slotsOf (sl_definition s) = [] then (given, JUndefined)
      else if isRecord given then (get_prop given ''data'', get_prop given ''awaits'')
      else (JUndefined, JUndefined))"

section \<open>Composing a flow\<close>

definition flowUnique :: "job_definition \<Rightarrow> thrown" where
  "flowUnique d =
     new_error C_Error
       (''jubs: the job '' @ quoted (jd_name d) @ '' declares `unique` and takes part in a flow'' @ dash @
        ''uniqueness does not apply inside a flow, at any position, so drop `unique` from its '' @
        ''delivery or enqueue that job on its own with jobs.enqueue'')"

definition slotNotArray :: "slot \<Rightarrow> thrown" where
  "slotNotArray s =
     new_error C_Error
       (''jubs: the slot '' @ quoted (sl_name s) @ '', which waits on many of '' @
        quoted (jd_name (sl_definition s)) @ '', was given what is not the array its enqueue proved'')"

definition composed_node ::
    "job_definition \<Rightarrow> jval \<Rightarrow> delivery \<Rightarrow> (string \<times> flow_node) list list \<Rightarrow> flow_node" where
  "composed_node d data delivery composing =
     (let envelope = writeEnvelope d data Flow;
          slots = zip (map sl_name (slotsOf d)) (map (\<lambda>nodes. int (length nodes)) composing)
      in FlowNode (jd_queue d)
           (if composing = [] then envelope else envelope\<lparr>env_slots := Some slots\<rparr>)
           delivery (concat composing))"

lemma size_slot_definition [termination_simp]:
  assumes "s \<in> set (slotsOf d)"
  shows "size (sl_definition s) < size d"
proof -
  from assms obtain name decl aw where
    aw: "jd_awaits d = Some aw" "(name, decl) \<in> set aw" "s = read_slot (name, decl)"
    by (cases "jd_awaits d") (auto simp: slotsOf_def awaits_of_def)
  then have "size (sl_definition s) < size decl"
    by (cases decl) auto
  also have "size decl \<le> size_list (size_prod (\<lambda>_. 0) size) aw"
    using aw(2) by (induction aw) auto
  also have "\<dots> \<le> size d"
    using aw(1) by (cases d) simp
  finally show ?thesis .
qed

function composeFlow :: "job_definition \<Rightarrow> jval \<Rightarrow> jval \<Rightarrow> thrown + flow_node"
  and composeSlot :: "slot \<Rightarrow> jval \<Rightarrow> thrown + (string \<times> flow_node) list"
  and composeChild :: "slot \<Rightarrow> jval \<Rightarrow> thrown + string \<times> flow_node" where
  "composeFlow d data awaits =
     bindE (assertAwaitsInput d awaits) (\<lambda>filled.
     bindE (validatePayload d data) (\<lambda>validated.
     bindE (resolveDelivery d validated) (\<lambda>delivery.
       if dl_unique delivery \<noteq> None then Inl (flowUnique d)
       else bindE (mapE (\<lambda>s. composeSlot s filled) (slotsOf d)) (\<lambda>composing.
         Inr (composed_node d data delivery composing)))))"
| "composeSlot s awaits =
     (let given = get_prop awaits (sl_name s) in
      if \<not> sl_many s then mapE (\<lambda>one. composeChild s one) [given]
      else (case given of
              JArr many \<Rightarrow> mapE (\<lambda>one. composeChild s one) many
            | _ \<Rightarrow> Inl (slotNotArray s)))"
| "composeChild s given =
     bindE (composeFlow (sl_definition s) (fst (childInput s given)) (snd (childInput s given)))
       (\<lambda>node. Inr (sl_name s, node))"
  by pat_completeness auto
termination
  by (relation "measure (\<lambda>x. case x of Inl (d, _) \<Rightarrow> 3 * size d
        | Inr (Inl (s, _)) \<Rightarrow> 3 * size (sl_definition s) + 2
        | Inr (Inr (s, _)) \<Rightarrow> 3 * size (sl_definition s) + 1)")
    (auto dest: size_slot_definition)

declare composeFlow.simps [simp del] composeSlot.simps [simp del] composeChild.simps [simp del]

section \<open>Reading the children back\<close>

definition ChildDeadError :: "job_definition \<Rightarrow> flow_state \<Rightarrow> thrown" where
  "ChildDeadError d state =
     (let declared = map_of (map (\<lambda>s. (sl_name s, jd_name (sl_definition s))) (rev (slotsOf d)));
          named = (\<lambda>f. case declared (cf_slot f) of
                     Some runs \<Rightarrow> if runs = [] then quoted (cf_slot f)
                                  else quoted (cf_slot f) @ '', which runs '' @ quoted runs
                   | None \<Rightarrow> quoted (cf_slot f));
          reasons = join ''; '' (map (\<lambda>f. named f @ '' ('' @ cf_id f @ ''): '' @ cf_reason f)
                      (fs_failures state))
      in Err C_ChildDeadError
        (''jubs: the job '' @ quoted (jd_name d) @ '' waits on children, and one of them failed every attempt'' @
        dash @ reasons)
           (Some []) None False (fs_results state))"

definition ChildrenPendingError :: "job_definition \<Rightarrow> jnum \<Rightarrow> thrown" where
  "ChildrenPendingError d pending =
     new_error C_ChildrenPendingError
       (''jubs: the job '' @ quoted (jd_name d) @ '' waits on children, and '' @ num_text pending @
        '' of them '' @ (if pending = JFin 1 then ''has'' else ''have'') @ '' not finished yet'' @ dash @
        ''this delivery ended before the handler ran, because a slot they fill would have '' @
        ''read empty. The job waits on its children again, spending no attempt, and runs once '' @
        ''they settle.'')"

definition ChildrenShortError :: "string \<Rightarrow> thrown" where
  "ChildrenShortError message = new_error C_ChildrenShortError message"

definition arrivedIn :: "flow_state \<Rightarrow> string \<Rightarrow> nat" where
  "arrivedIn state slot = length (filter (\<lambda>r. cr_slot r = slot) (fs_results state))"

definition expectedIn :: "(string \<times> int) list option \<Rightarrow> string \<Rightarrow> int option" where
  "expectedIn declared slot = (case declared of None \<Rightarrow> None | Some counts \<Rightarrow> map_of counts slot)"

definition countsUnrecorded :: "job_definition \<Rightarrow> string list \<Rightarrow> thrown" where
  "countsUnrecorded d unrecorded =
     ChildrenShortError
       (''jubs: the job '' @ quoted (jd_name d) @ '' waits on the slots '' @ listed unrecorded @
        '', and its envelope carries no record of how many children they were given'' @ dash @
        ''it was written by a build that did not record those counts, or it was enqueued with '' @
        ''no children at all, and nothing left tells the two apart. Without the counts the '' @
        ''runtime cannot know whether those slots are full or empty, and running the handler '' @
        ''would risk reading an empty slot and completing green. Enqueue the flow again from '' @
        ''the top with jobs.enqueue(definition, data, awaits), which builds the whole flow; '' @
        ''one envelope on its own cannot be replayed into a flow.'')"

definition slotsShort :: "job_definition \<Rightarrow> string list \<Rightarrow> thrown" where
  "slotsShort d short =
     ChildrenShortError
       (''jubs: the job '' @ quoted (jd_name d) @
        '' waits on children, and a slot holds fewer than it was enqueued with'' @ dash @ join ''; '' short @
        ''. Redis writes nothing when a child leaves its parent, so the missing ones were '' @
        ''most likely cancelled with jobs.cancel(id) or removed with another job of this '' @
        ''flow. The handler would read that slot short and complete green, so the job is '' @
        ''buried instead: enqueue the flow again with jobs.enqueue(definition, data, awaits).'')"

definition childrenShort ::
    "job_definition \<Rightarrow> (string \<times> int) list option \<Rightarrow> flow_state \<Rightarrow> thrown option" where
  "childrenShort d declared state =
     (let counted = map (\<lambda>s. (sl_name s, expectedIn declared (sl_name s), arrivedIn state (sl_name s)))
                      (slotsOf d);
          unrecorded = filter (\<lambda>(name, expected, arrived). expected = None) counted
      in if unrecorded \<noteq> []
         then Some (countsUnrecorded d (map fst unrecorded))
         else
           let short = concat (map (\<lambda>(name, expected, arrived).
                 case expected of None \<Rightarrow> []
                 | Some n \<Rightarrow>
                     if int arrived < n
                     then [quoted name @ '' was given '' @ show_int n @ '' and '' @ show_nat arrived @ '' arrived'']
                     else []) counted)
           in if short = [] then None else Some (slotsShort d short))"

definition childrenOf :: "job_definition \<Rightarrow> flow_state \<Rightarrow> thrown + (string \<times> jval) list" where
  "childrenOf d state =
     mapE (\<lambda>s. bindE
         (mapE (\<lambda>r. validateResult (sl_definition s) (cr_value r))
            (filter (\<lambda>r. cr_slot r = sl_name s) (fs_results state)))
         (\<lambda>values. Inr (sl_name s,
            if sl_many s then JArr values
            else (case values of [] \<Rightarrow> JUndefined | v # vs \<Rightarrow> v))))
       (slotsOf d)"

text \<open>What \<open>childrenFor\<close> decides once the children have been read.\<close>

definition settledChildren ::
    "job_definition \<Rightarrow> envelope \<Rightarrow> flow_state \<Rightarrow> thrown + (string \<times> jval) list" where
  "settledChildren d envelope state =
     (if num_lt (JFin 0) (fs_pending state) then Inl (ChildrenPendingError d (fs_pending state))
      else if fs_failures state \<noteq> [] then Inl (ChildDeadError d state)
      else (case childrenShort d (env_slots envelope) state of
              Some short \<Rightarrow> Inl short
            | None \<Rightarrow> childrenOf d state))"

definition childrenFor ::
    "'s job_driver \<Rightarrow> job_definition \<Rightarrow> envelope \<Rightarrow> string \<Rightarrow> string \<Rightarrow> ('s, (string \<times> jval) list) io" where
  "childrenFor drv d envelope queue i =
     (if slotsOf d = [] then ret_io []
      else bind_io (drv_flow_read drv queue i) (\<lambda>state. lift_io (settledChildren d envelope state)))"

section \<open>What a composed flow holds\<close>

text \<open>
  The keys of an object are distinct, at every level of what a definition waits on.
\<close>

fun distinct_slots :: "job_definition \<Rightarrow> bool" where
  "distinct_slots d \<longleftrightarrow>
     distinct (map sl_name (slotsOf d)) \<and> (\<forall>s \<in> set (slotsOf d). distinct_slots (sl_definition s))"

declare distinct_slots.simps [simp del]

definition children_in :: "flow_node \<Rightarrow> string \<Rightarrow> nat" where
  "children_in node slot = length (filter (\<lambda>c. fst c = slot) (fn_children node))"

text \<open>
  A node is well composed for a definition when it goes to the queue of that
  definition, carries its envelope with the flow as its origin and no uniqueness,
  records for every slot how many children fill it, and every child fills a slot
  and is well composed for the definition of that slot.
\<close>

fun well_composed :: "job_definition \<Rightarrow> flow_node \<Rightarrow> bool" where
  "well_composed d (FlowNode q env dl children) \<longleftrightarrow>
     q = jd_queue d \<and> env_name env = jd_name d \<and> env_v env = payloadVersion d \<and>
     env_origin env = Flow \<and> dl_unique dl = None \<and>
     env_slots env =
       (if slotsOf d = [] then None
        else Some (map (\<lambda>s. (sl_name s, int (length (filter (\<lambda>c. fst c = sl_name s) children))))
                     (slotsOf d))) \<and>
     (\<forall>c \<in> set children. \<exists>s \<in> set (slotsOf d).
        sl_name s = fst c \<and> well_composed (sl_definition s) (snd c))"

lemma slot_counts:
  assumes "list_all2 (\<lambda>s nodes. \<forall>c \<in> set nodes. fst c = sl_name s) slots composing"
    and "distinct (map sl_name slots)"
  shows "zip (map sl_name slots) (map (\<lambda>nodes. int (length nodes)) composing) =
    map (\<lambda>s. (sl_name s, int (length (filter (\<lambda>c. fst c = sl_name s) (concat composing))))) slots"
  using assms
proof (induction rule: list_all2_induct)
  case Nil
  show ?case by simp
next
  case (Cons s slots nodes composing)
  have here: "filter (\<lambda>c. fst c = sl_name s) nodes = nodes"
    using Cons.hyps(1) by (auto simp: filter_id_conv)
  have "\<forall>c \<in> set (concat composing). fst c \<in> sl_name ` set slots"
    using Cons.hyps(2) by (induction rule: list_all2_induct) auto
  with Cons.prems have away: "filter (\<lambda>c. fst c = sl_name s) (concat composing) = []"
    by (fastforce simp: filter_empty_conv)
  have other: "t \<in> set slots \<Longrightarrow> filter (\<lambda>c. fst c = sl_name t) nodes = []" for t
    using Cons.hyps(1) Cons.prems by (auto simp: filter_empty_conv)
  have rest: "map (\<lambda>t. (sl_name t, int (length (filter (\<lambda>c. fst c = sl_name t) (concat (nodes # composing)))))) slots
      = map (\<lambda>t. (sl_name t, int (length (filter (\<lambda>c. fst c = sl_name t) (concat composing))))) slots"
    by (rule map_cong) (simp_all add: other)
  show ?case
    using Cons.IH Cons.prems rest by (simp add: here away)
qed

lemma composeFlow_Inr:
  assumes "composeFlow d x aw = Inr node"
  obtains filled validated dl composing where
    "assertAwaitsInput d aw = Inr filled" "validatePayload d x = Inr validated"
    "resolveDelivery d validated = Inr dl" "dl_unique dl = None"
    "list_all2 (\<lambda>s nodes. composeSlot s filled = Inr nodes) (slotsOf d) composing"
    "node = composed_node d x dl composing"
  using assms
  by (auto simp: composeFlow.simps bindE_Inr_iff mapE_Inr_iff split: if_splits)

lemma well_composed_node:
  assumes "distinct (map sl_name (slotsOf d))" and "dl_unique dl = None"
    and slots: "list_all2 (\<lambda>s nodes. \<forall>c \<in> set nodes. fst c = sl_name s \<and>
           well_composed (sl_definition s) (snd c)) (slotsOf d) composing"
  shows "well_composed d (composed_node d x dl composing)"
proof -
  have "list_all2 (\<lambda>s nodes. \<forall>c \<in> set nodes. fst c = sl_name s) (slotsOf d) composing"
    using slots by (rule list_all2_mono) blast
  note counts = slot_counts [OF this assms(1)]
  have "\<forall>c \<in> set (concat composing). \<exists>s \<in> set (slotsOf d).
        sl_name s = fst c \<and> well_composed (sl_definition s) (snd c)"
    using slots by (induction rule: list_all2_induct) auto
  moreover have "composing = [] \<longleftrightarrow> slotsOf d = []"
    using slots by auto
  ultimately show ?thesis
    using assms(2) counts by (simp add: composed_node_def Let_def)
qed

lemma composeFlow_well_composed_aux:
  "composeFlow d x aw = Inr node \<Longrightarrow> distinct_slots d \<Longrightarrow> well_composed d node"
  "composeSlot s filled = Inr nodes \<Longrightarrow> distinct_slots (sl_definition s) \<Longrightarrow>
     \<forall>c \<in> set nodes. fst c = sl_name s \<and> well_composed (sl_definition s) (snd c)"
  "composeChild s given = Inr child \<Longrightarrow> distinct_slots (sl_definition s) \<Longrightarrow>
     fst child = sl_name s \<and> well_composed (sl_definition s) (snd child)"
proof (induction d x aw and s filled and s given arbitrary: node and nodes and child
    rule: composeFlow_composeSlot_composeChild.induct)
  case (1 d x aw)
  from "1.prems"(1) obtain filled validated dl composing where
    c: "assertAwaitsInput d aw = Inr filled" "validatePayload d x = Inr validated"
      "resolveDelivery d validated = Inr dl" "dl_unique dl = None"
      "list_all2 (\<lambda>s nodes. composeSlot s filled = Inr nodes) (slotsOf d) composing"
      "node = composed_node d x dl composing"
    by (rule composeFlow_Inr)
  from "1.prems"(2) have ds: "distinct (map sl_name (slotsOf d))"
    "\<And>s. s \<in> set (slotsOf d) \<Longrightarrow> distinct_slots (sl_definition s)"
    by (simp_all add: distinct_slots.simps [of d])
  have "list_all2 (\<lambda>s nodes. \<forall>c \<in> set nodes. fst c = sl_name s \<and>
      well_composed (sl_definition s) (snd c)) (slotsOf d) composing"
    using c(5)
  proof (rule list.rel_mono_strong)
    fix s nodes
    assume "s \<in> set (slotsOf d)" and "composeSlot s filled = Inr nodes"
    then show "\<forall>c \<in> set nodes. fst c = sl_name s \<and> well_composed (sl_definition s) (snd c)"
      using "1.IH" [OF c(1-3) _ _ _ ds(2)] c(4) by simp
  qed
  with ds(1) c(4) show ?case unfolding c(6) by (rule well_composed_node)
next
  case (2 s filled)
  show ?case
  proof (cases "sl_many s")
    case True
    with "2.prems"(1) obtain many where
      m: "get_prop filled (sl_name s) = JArr many" "mapE (composeChild s) many = Inr nodes"
      by (auto simp: composeSlot.simps split: jval.splits)
    show ?thesis
      using mapE_set [OF m(2)] "2.IH"(2) "2.prems"(2) True m(1) by fastforce
  next
    case False
    with "2.prems"(1) obtain child where
      "composeChild s (get_prop filled (sl_name s)) = Inr child" "nodes = [child]"
      by (auto simp: composeSlot.simps split: sum.splits)
    then show ?thesis
      using "2.IH"(1) "2.prems"(2) False by simp
  qed
next
  case (3 s given)
  then show ?case by (auto simp: composeChild.simps bindE_Inr_iff)
qed

lemma map_of_slot_counts:
  assumes "distinct (map sl_name slots)" and "s \<in> set slots"
  shows "map_of (map (\<lambda>s. (sl_name s, f (sl_name s))) slots) (sl_name s) = Some (f (sl_name s))"
  using assms by (induction slots) auto

lemma well_composed_expectedIn:
  assumes "well_composed d node" and "distinct_slots d" and "s \<in> set (slotsOf d)"
  shows "expectedIn (env_slots (fn_envelope node)) (sl_name s) = Some (int (children_in node (sl_name s)))"
proof -
  obtain q env dl children where node: "node = FlowNode q env dl children"
    by (cases node)
  have "distinct (map sl_name (slotsOf d))"
    using assms(2) by (simp add: distinct_slots.simps [of d])
  with assms show ?thesis
    by (auto simp: node expectedIn_def children_in_def
        map_of_slot_counts [where f = "\<lambda>n. int (length (filter (\<lambda>c. fst c = n) children))"])
qed

lemma childrenShort_None_iff:
  "childrenShort d declared st = None \<longleftrightarrow>
     (\<forall>s \<in> set (slotsOf d). \<exists>n. expectedIn declared (sl_name s) = Some n \<and>
        n \<le> int (arrivedIn st (sl_name s)))"
proof -
  have "childrenShort d declared st = None \<longleftrightarrow>
      (\<forall>s \<in> set (slotsOf d). expectedIn declared (sl_name s) \<noteq> None) \<and>
      (\<forall>s \<in> set (slotsOf d). \<forall>n. expectedIn declared (sl_name s) = Some n \<longrightarrow>
         \<not> int (arrivedIn st (sl_name s)) < n)"
    by (auto simp: childrenShort_def Let_def filter_map o_def filter_empty_conv split: option.splits)
  then show ?thesis by (fastforce simp: not_less)
qed

lemma short_errors [simp]:
  "instance_of (countsUnrecorded d unrecorded) k \<longleftrightarrow> k = C_ChildrenShortError"
  "instance_of (slotsShort d short) k \<longleftrightarrow> k = C_ChildrenShortError"
  by (auto simp: countsUnrecorded_def slotsShort_def ChildrenShortError_def)

lemma childrenShort_class:
  "childrenShort d declared st = Some e \<Longrightarrow> instance_of e k \<longleftrightarrow> k = C_ChildrenShortError"
  by (auto simp: childrenShort_def Let_def split: if_splits)

lemma ChildDeadError_class [simp]:
  "instance_of (ChildDeadError d st) k \<longleftrightarrow> k = C_ChildDeadError"
  by (auto simp: ChildDeadError_def Let_def)

lemma ChildDeadError_results [simp]: "err_results (ChildDeadError d st) = fs_results st"
  by (simp add: ChildDeadError_def Let_def)

lemma ChildrenPendingError_class [simp]:
  "instance_of (ChildrenPendingError d n) k \<longleftrightarrow> k = C_ChildrenPendingError"
  by (auto simp: ChildrenPendingError_def)

lemma childrenOf_Inl_class:
  assumes "childrenOf d st = Inl e"
  shows "instance_of e k \<longleftrightarrow> k = C_ResultError"
proof -
  have inner: "mapE (\<lambda>r. validateResult sd (cr_value r)) rs = Inl e \<Longrightarrow> instance_of e k \<longleftrightarrow> k = C_ResultError"
    for sd rs
    by (induction rs) (auto dest: validateResult_Inl_class split: sum.splits)
  have "mapE (\<lambda>s. bindE
         (mapE (\<lambda>r. validateResult (sl_definition s) (cr_value r))
            (filter (\<lambda>r. cr_slot r = sl_name s) (fs_results st)))
         (\<lambda>values. Inr (sl_name s,
            if sl_many s then JArr values
            else (case values of [] \<Rightarrow> JUndefined | v # vs \<Rightarrow> v)))) slots = Inl e
      \<Longrightarrow> instance_of e k \<longleftrightarrow> k = C_ResultError" for slots
    by (induction slots) (auto simp: bindE_Inl_iff dest: inner split: sum.splits)
  with assms show ?thesis by (simp add: childrenOf_def)
qed

text \<open>
  Every refusal of \<open>settledChildren\<close> is one of the four errors the runtime knows.
\<close>

lemma settledChildren_Inl_class:
  assumes "settledChildren d env st = Inl e"
  shows "(\<forall>k. instance_of e k \<longleftrightarrow> k = C_ChildrenPendingError) \<or> (\<forall>k. instance_of e k \<longleftrightarrow> k = C_ChildDeadError) \<or>
    (\<forall>k. instance_of e k \<longleftrightarrow> k = C_ChildrenShortError) \<or> (\<forall>k. instance_of e k \<longleftrightarrow> k = C_ResultError)"
  using assms
  by (auto simp: settledChildren_def childrenShort_class childrenOf_Inl_class
      split: if_splits option.splits)

lemma settledChildren_Inr_iff:
  "settledChildren d env st = Inr ch \<longleftrightarrow>
     \<not> num_lt (JFin 0) (fs_pending st) \<and> fs_failures st = [] \<and>
     (\<forall>s \<in> set (slotsOf d). \<exists>n. expectedIn (env_slots env) (sl_name s) = Some n \<and>
        n \<le> int (arrivedIn st (sl_name s))) \<and>
     childrenOf d st = Inr ch"
  by (auto simp: settledChildren_def childrenShort_None_iff [symmetric] split: option.splits)

lemma childrenOf_Inr_iff:
  "childrenOf d st = Inr ch \<longleftrightarrow>
     list_all2 (\<lambda>s entry. fst entry = sl_name s \<and>
       (\<exists>values. list_all2 (\<lambda>r v. validateResult (sl_definition s) (cr_value r) = Inr v)
            (filter (\<lambda>r. cr_slot r = sl_name s) (fs_results st)) values \<and>
          snd entry = (if sl_many s then JArr values
                       else (case values of [] \<Rightarrow> JUndefined | v # vs \<Rightarrow> v))))
       (slotsOf d) ch"
  unfolding childrenOf_def mapE_Inr_iff bindE_Inr_iff
  by (rule arg_cong [where f = "\<lambda>R. list_all2 R (slotsOf d) ch"]) (auto simp: fun_eq_iff)

end
