(* ===== verification/DeadLetters.thy ===== *)
theory DeadLetters
  imports Flows Migrations
begin

text \<open>
  The dead queue (\<open>src/src/Dead.ts\<close>): which failures bury a job and for what
  reason, and the reading of a stored record, which refuses anything that is not a
  burial. The round trip says that every record the runtime writes is read back.
\<close>

section \<open>Which failures bury a job\<close>

fun raised :: "thrown \<Rightarrow> thrown" where
  "raised (Err c m st ca run res) =
     (if extends_unrecoverable c
      then (case ca of None \<Rightarrow> Err c m st ca run res | Some cause \<Rightarrow> cause)
      else Err c m st ca run res)"
| "raised (Thrown v) = Thrown v"

definition childDead :: "thrown \<Rightarrow> thrown option" where
  "childDead e = (let cause = raised e in if instance_of cause C_ChildDeadError then Some cause else None)"

definition burialFor :: "job_delivery \<Rightarrow> thrown \<Rightarrow> burial option" where
  "burialFor delivery e =
     (if instance_of e C_CancelledError then Some (BuryFor Cancelled)
      else if instance_of e C_VersionAheadError then Some (BuryFor VersionAhead)
      else (case childDead e of
              Some dead \<Rightarrow> Some (BuryChildDead (err_results dead))
            | None \<Rightarrow>
                if instance_of (raised e) C_ChildrenShortError then Some (BuryFor ChildrenShort)
                else if instance_of e C_UnrecoverableError then Some (BuryFor Unrecoverable)
                else if num_le (jdv_maxAttempts delivery) (of_count (jdv_attempt delivery))
                  then Some (BuryFor AttemptsExhausted)
                else None))"

section \<open>Reading a record\<close>

definition DeadRecordError :: "string \<Rightarrow> thrown" where
  "DeadRecordError reason =
     new_error C_DeadRecordError
       (''jubs: the stored dead record is not a jubs burial'' @ dash @ reason @
        ''. Nothing can replay a record of this shape; drop it with jobs.dead.discard(id).'')"

fun plain_reason_text :: "plain_reason \<Rightarrow> string" where
  "plain_reason_text AttemptsExhausted = ''attempts_exhausted''"
| "plain_reason_text Unrecoverable = ''unrecoverable''"
| "plain_reason_text VersionAhead = ''version_ahead''"
| "plain_reason_text Cancelled = ''cancelled''"
| "plain_reason_text ChildrenShort = ''children_short''"

fun reason_text :: "dead_reason \<Rightarrow> string" where
  "reason_text ChildDead = ''child_dead''"
| "reason_text (Plain r) = plain_reason_text r"

definition DEAD_REASONS :: "dead_reason list" where
  "DEAD_REASONS = [Plain AttemptsExhausted, Plain Unrecoverable, Plain VersionAhead,
     Plain Cancelled, ChildDead, Plain ChildrenShort]"

text \<open>\<open>isDeadReason\<close>, with the reason it recognised.\<close>

definition isDeadReason :: "jval \<Rightarrow> dead_reason option" where
  "isDeadReason v = find (\<lambda>r. JStr (reason_text r) = v) DEAD_REASONS"

definition readSnapshot :: "jval \<Rightarrow> string \<Rightarrow> thrown + error_snapshot" where
  "readSnapshot stored field =
     (if \<not> is_objectlike stored
      then Inl (DeadRecordError (''its '' @ field @ '' is '' @ json_text stored @ '', which is not a serialized error''))
      else (case get_prop stored ''name'' of
        JStr name \<Rightarrow>
          (case get_prop stored ''message'' of
             JStr message \<Rightarrow>
               (case get_prop stored ''stack'' of
                  JUndefined \<Rightarrow> Inr \<lparr>es_name = name, es_message = message, es_stack = None\<rparr>
                | JStr stack \<Rightarrow> Inr \<lparr>es_name = name, es_message = message, es_stack = Some stack\<rparr>
                | _ \<Rightarrow> Inl (DeadRecordError (''its '' @ field @ '' carries a stack that is not text'')))
           | _ \<Rightarrow> Inl (DeadRecordError (''its '' @ field @ '' carries no error message'')))
      | _ \<Rightarrow> Inl (DeadRecordError (''its '' @ field @ '' carries no error name''))))"

definition readError :: "jval \<Rightarrow> thrown + serialized_error" where
  "readError stored =
     bindE (readSnapshot stored ''error'') (\<lambda>read.
       case get_prop stored ''cause'' of
         JUndefined \<Rightarrow> Inr (error_snapshot.extend read \<lparr>es_cause = None\<rparr>)
       | cause \<Rightarrow> bindE (readSnapshot cause ''error cause'') (\<lambda>c.
                    Inr (error_snapshot.extend read \<lparr>es_cause = Some c\<rparr>)))"

fun read_child :: "jval \<Rightarrow> thrown + child_result" where
  "read_child child =
     (case (is_objectlike child, get_prop child ''slot'') of
        (True, JStr slot) \<Rightarrow> Inr \<lparr>cr_slot = slot, cr_value = get_prop child ''value''\<rparr>
      | _ \<Rightarrow> Inl (DeadRecordError (''its child '' @ json_text child @ '' names no slot it filled'')))"

fun readChildren :: "jval \<Rightarrow> thrown + child_result list" where
  "readChildren (JArr stored) = mapE read_child stored"
| "readChildren v =
     Inl (DeadRecordError
       (''it was buried for '' @ quoted ''child_dead'' @ '' and its children are '' @ json_text v @
        '', which is not a list of what the children returned''))"

definition readDeadEntry :: "jval \<Rightarrow> thrown + dead_entry" where
  "readDeadEntry stored =
     (if \<not> is_objectlike stored
      then Inl (DeadRecordError (''expected an object, got '' @ js_typeof stored))
      else (case get_prop stored ''jobId'' of
        JStr jobId \<Rightarrow>
          if jobId = [] then Inl (DeadRecordError ''its job id is missing, so it names no job to put back'')
          else (case isDeadReason (get_prop stored ''reason'') of
             None \<Rightarrow> Inl (DeadRecordError
               (''its reason '' @ json_text (get_prop stored ''reason'') @ '' is not one a job is buried for''))
           | Some reason \<Rightarrow>
               bindE (readEnvelope (get_prop stored ''envelope'')) (\<lambda>envelope.
               bindE (readError (get_prop stored ''error'')) (\<lambda>err.
                 (case reason of
                    ChildDead \<Rightarrow>
                      bindE (readChildren (get_prop stored ''children'')) (\<lambda>children.
                        Inr \<lparr>de_jobId = jobId, de_envelope = envelope, de_error = err,
                             de_burial = BuryChildDead children\<rparr>)
                  | Plain r \<Rightarrow>
                      if get_prop stored ''children'' \<noteq> JUndefined
                      then Inl (DeadRecordError
                       (''it was buried for '' @ quoted (plain_reason_text r) @
                        '' and still carries children, which only a child_dead burial holds''))
                      else Inr \<lparr>de_jobId = jobId, de_envelope = envelope, de_error = err,
                                de_burial = BuryFor r\<rparr>))))
      | _ \<Rightarrow> Inl (DeadRecordError ''its job id is missing, so it names no job to put back'')))"

section \<open>The object a burial is stored as\<close>

definition optional :: "string option \<Rightarrow> jval" where
  "optional s = (case s of None \<Rightarrow> JUndefined | Some t \<Rightarrow> JStr t)"

definition snapshot_object :: "error_snapshot \<Rightarrow> jval" where
  "snapshot_object e = JObj [(''name'', JStr (es_name e)), (''message'', JStr (es_message e)),
     (''stack'', optional (es_stack e))]"

definition error_object :: "serialized_error \<Rightarrow> jval" where
  "error_object e = JObj [(''name'', JStr (es_name e)), (''message'', JStr (es_message e)),
     (''stack'', optional (es_stack e)),
     (''cause'', case es_cause e of None \<Rightarrow> JUndefined | Some c \<Rightarrow> snapshot_object c)]"

definition child_object :: "child_result \<Rightarrow> jval" where
  "child_object c = JObj [(''slot'', JStr (cr_slot c)), (''value'', cr_value c)]"

fun burial_reason :: "burial \<Rightarrow> dead_reason" where
  "burial_reason (BuryChildDead cs) = ChildDead"
| "burial_reason (BuryFor r) = Plain r"

fun burial_children :: "burial \<Rightarrow> jval" where
  "burial_children (BuryChildDead cs) = JArr (map child_object cs)"
| "burial_children (BuryFor r) = JUndefined"

definition dead_object :: "dead_entry \<Rightarrow> jval" where
  "dead_object e = JObj [(''jobId'', JStr (de_jobId e)),
     (''envelope'', envelope_object (de_envelope e)),
     (''error'', error_object (de_error e)),
     (''reason'', JStr (reason_text (burial_reason (de_burial e)))),
     (''children'', burial_children (de_burial e))]"

definition stored_child :: "child_result \<Rightarrow> child_result" where
  "stored_child c = c\<lparr>cr_value := stored_value (cr_value c)\<rparr>"

fun stored_burial :: "burial \<Rightarrow> burial" where
  "stored_burial (BuryChildDead cs) = BuryChildDead (map stored_child cs)"
| "stored_burial (BuryFor r) = BuryFor r"

definition stored_entry :: "dead_entry \<Rightarrow> dead_entry" where
  "stored_entry e = e\<lparr>de_envelope := stored_envelope (de_envelope e),
     de_burial := stored_burial (de_burial e)\<rparr>"

section \<open>Which failure is which burial\<close>

lemma raised_unrecoverable:
  "e \<noteq> Thrown JUndefined \<Longrightarrow> raised (unrecoverable e) = e"
  by (simp add: unrecoverable_def new_error_def)

lemma raised_other: "\<not> instance_of e C_UnrecoverableError \<Longrightarrow> raised e = e"
  by (cases e) auto

lemma burialFor_None_iff:
  "burialFor delivery e = None \<longleftrightarrow>
     \<not> instance_of e C_UnrecoverableError \<and> \<not> instance_of e C_ChildDeadError \<and>
     \<not> instance_of e C_ChildrenShortError \<and>
     \<not> num_le (jdv_maxAttempts delivery) (of_count (jdv_attempt delivery))"
proof (cases e)
  case (Err c m st ca run res)
  then show ?thesis
    by (cases c) (auto simp: burialFor_def childDead_def Let_def split: option.splits)
next
  case (Thrown v)
  then show ?thesis by (simp add: burialFor_def childDead_def)
qed

section \<open>A record is read back\<close>

lemma reason_text_inject [simp]: "reason_text a = reason_text b \<longleftrightarrow> a = b"
proof -
  have "plain_reason_text p = plain_reason_text q \<longleftrightarrow> p = q" for p q
    by (cases p; cases q) simp_all
  moreover have "plain_reason_text p \<noteq> ''child_dead''" for p
    by (cases p) simp_all
  ultimately show ?thesis by (cases a; cases b) (auto dest: sym)
qed

lemma isDeadReason_text [simp]: "isDeadReason (JStr (reason_text r)) = Some r"
proof (cases r)
  case ChildDead
  then show ?thesis by (simp add: isDeadReason_def DEAD_REASONS_def)
next
  case (Plain p)
  then show ?thesis by (cases p) (simp_all add: isDeadReason_def DEAD_REASONS_def)
qed

lemmas isDeadReason_texts [simp] =
  isDeadReason_text [of ChildDead, simplified] isDeadReason_text [of "Plain p" for p, simplified]

lemma get_prop_json_object:
  "distinct (map fst kvs) \<Longrightarrow> get_prop (json (JObj kvs)) k = stored_value (get_prop (JObj kvs) k)"
  by (simp only: get_prop_json stored_value_def)

lemma stored_value_optional [simp]: "stored_value (optional s) = optional s"
  by (simp add: optional_def stored_value_def split: option.splits)

lemma readSnapshot_stored:
  "readSnapshot (json (snapshot_object e)) field = Inr e"
proof -
  have "get_prop (json (snapshot_object e)) k = stored_value (get_prop (snapshot_object e) k)" for k
    unfolding snapshot_object_def by (rule get_prop_json_object) simp
  then show ?thesis
    by (simp add: readSnapshot_def)
      (simp add: snapshot_object_def stored_value_def optional_def split: option.splits)
qed

lemma readError_stored: "readError (json (error_object e)) = Inr e"
proof -
  let ?j = "json (error_object e)"
  have get: "get_prop ?j k = stored_value (get_prop (error_object e) k)" for k
    unfolding error_object_def by (rule get_prop_json_object) simp
  have top: "readSnapshot ?j ''error'' = Inr (error_snapshot.truncate e)"
    by (simp add: readSnapshot_def get)
      (simp add: error_object_def stored_value_def optional_def error_snapshot.defs split: option.splits)
  show ?thesis
  proof (cases "es_cause e")
    case None
    then have "get_prop ?j ''cause'' = JUndefined"
      by (simp add: get error_object_def stored_value_def)
    with top None show ?thesis
      by (simp add: readError_def error_snapshot.defs)
  next
    case (Some c)
    then have "get_prop ?j ''cause'' = json (snapshot_object c)"
      by (simp add: get error_object_def stored_value_def snapshot_object_def)
    moreover obtain kvs where "json (snapshot_object c) = JObj kvs"
      by (simp add: snapshot_object_def)
    ultimately have "get_prop ?j ''cause'' = JObj kvs" and "readSnapshot (JObj kvs) ''error cause'' = Inr c"
      using readSnapshot_stored [of c] by simp_all
    with top Some show ?thesis
      by (simp add: readError_def error_snapshot.defs)
  qed
qed

lemma read_child_stored: "read_child (json (child_object c)) = Inr (stored_child c)"
proof -
  have "get_prop (json (child_object c)) k = stored_value (get_prop (child_object c) k)" for k
    unfolding child_object_def by (rule get_prop_json_object) simp
  then show ?thesis
    by simp (simp add: child_object_def stored_child_def stored_value_def)
qed

lemma readChildren_stored:
  "readChildren (json (JArr (map child_object cs))) = Inr (map stored_child cs)"
  by (simp add: mapE_Inr_iff list_all2_map1 list_all2_map2 read_child_stored list_all2_same
      del: read_child.simps)

lemma readDeadEntry_stored:
  assumes "de_jobId e \<noteq> []" and "is_finite (env_v (de_envelope e))" and "env_name (de_envelope e) \<noteq> []"
  shows "readDeadEntry (json (dead_object e)) = Inr (stored_entry e)"
proof -
  let ?j = "json (dead_object e)"
  have get: "get_prop ?j k = stored_value (get_prop (dead_object e) k)" for k
    unfolding dead_object_def by (rule get_prop_json_object) simp
  have "get_prop ?j ''jobId'' = JStr (de_jobId e)"
    "get_prop ?j ''reason'' = JStr (reason_text (burial_reason (de_burial e)))"
    "get_prop ?j ''envelope'' = json (envelope_object (de_envelope e))"
    "get_prop ?j ''error'' = json (error_object (de_error e))"
    "get_prop ?j ''children'' = stored_value (burial_children (de_burial e))"
    by (simp_all add: get dead_object_def stored_value_def envelope_object_def error_object_def)
  moreover have "is_objectlike ?j" by (simp add: dead_object_def)
  moreover have "readEnvelope (json (envelope_object (de_envelope e))) = Inr (stored_envelope (de_envelope e))"
    using assms(2,3) by (rule readEnvelope_stored)
  ultimately show ?thesis
    using assms(1) readChildren_stored
    by (cases "de_burial e")
      (simp_all add: readDeadEntry_def readError_stored stored_entry_def stored_value_def
        del: readChildren.simps json.simps)
qed

end
