(* ===== verification/Aborts.thy ===== *)
theory Aborts
  imports Errors
begin

text \<open>
  The two errors a running handler is aborted with (\<open>src/src/Cancellation.ts\<close>,
  \<open>src/src/Shutdown.ts\<close>): the cancellation, which is a failure no attempt follows,
  and the shutdown, which is no failure of the job at all. The flag is the promise of
  a body that went on running.
\<close>

definition CANCEL_SWEEP_MS :: nat where
  "CANCEL_SWEEP_MS = 250"

definition SHUTDOWN_REDELIVERY_MS :: nat where
  "SHUTDOWN_REDELIVERY_MS = 1000"

definition CancelledError :: "string \<Rightarrow> bool \<Rightarrow> thrown" where
  "CancelledError name running =
     Err C_CancelledError (''jubs: the job '' @ quoted name @ '' was cancelled while it ran'' @ dash @
        ''its signal was aborted and the attempt failed without a retry'')
       (Some []) None running []"

definition ShutdownAbortError :: "string \<Rightarrow> bool \<Rightarrow> thrown" where
  "ShutdownAbortError name running =
     Err C_ShutdownAbortError (''jubs: the job '' @ quoted name @ '' was still running when close() ran out of time'' @ dash @
        ''this delivery waits '' @ show_nat SHUTDOWN_REDELIVERY_MS @
        ''ms, is delivered again and spends no attempt'')
       (Some []) None running []"

lemma abort_errors [simp]:
  "instance_of (CancelledError n r) k \<longleftrightarrow> k = C_CancelledError \<or> k = C_UnrecoverableError"
  "instance_of (ShutdownAbortError n r) k \<longleftrightarrow> k = C_ShutdownAbortError"
  "stillRunning (CancelledError n r) = r" "stillRunning (ShutdownAbortError n r) = r"
  by (auto simp: CancelledError_def ShutdownAbortError_def)

lemma abort_errors_no_cause [simp]:
  "err_cause (CancelledError n r) = None" "err_cause (ShutdownAbortError n r) = None"
  by (simp_all add: CancelledError_def ShutdownAbortError_def)

end
