(* ===== verification/Runtime.thy ===== *)
theory Runtime
  imports Idempotency DeadLetters Aborts Schedules
begin

text \<open>
  The runtime (\<open>src/src/Runtime.ts\<close>, \<open>src/src/Hooks.ts\<close>): what one delivery goes
  through, from the envelope to the outcome the driver is given, and what starting
  and closing a runtime does. It is written over any driver: a record of operations
  on a state, which hooks and handlers act on as well.

  A handler's body is the list of what happens from its start on, as in
  \<open>Idempotency\<close>; a body that never ends is a list without an end, and a delivery over
  it is \<open>None\<close>. \<open>AbortController\<close> is the first reason it was aborted with.
\<close>

section \<open>Events and hooks\<close>

record job_event =
  je_name :: string
  je_queue :: string
  je_id :: string
  je_attempt :: nat
  je_origin :: origin

record job_failure_event = job_event +
  je_error :: serialized_error

record 's job_hooks =
  hk_onStart :: "(job_event \<Rightarrow> ('s, unit) io) option"
  hk_onSuccess :: "(job_event \<Rightarrow> ('s, unit) io) option"
  hk_onAttemptFailed :: "(job_failure_event \<Rightarrow> ('s, unit) io) option"
  hk_onDead :: "(job_failure_event \<Rightarrow> ('s, unit) io) option"

text \<open>A hook that throws is logged: what it threw goes nowhere.\<close>

definition notify :: "('e \<Rightarrow> ('s, unit) io) option \<Rightarrow> 'e \<Rightarrow> 's \<Rightarrow> 's" where
  "notify hook event s = (case hook of None \<Rightarrow> s | Some h \<Rightarrow> snd (h event s))"

section \<open>Configuration and handlers\<close>

record job_context =
  cx_id :: string
  cx_attempt :: nat
  cx_maxAttempts :: jnum
  cx_origin :: origin
  cx_children :: "(string \<times> jval) list"

record 's job_handler =
  jh_definition :: job_definition
  jh_body :: "jval \<Rightarrow> job_context \<Rightarrow> 's body_event list"

text \<open>\<open>defineHandler\<close> of \<open>src/src/Definition.ts\<close>.\<close>

definition defineHandler :: "job_definition \<Rightarrow> (jval \<Rightarrow> job_context \<Rightarrow> 's body_event list) \<Rightarrow> 's job_handler" where
  "defineHandler d run = \<lparr>jh_definition = d, jh_body = run\<rparr>"

record 's jobs_config =
  cf_driver :: "'s job_driver"
  cf_definitions :: "job_definition list option"
  cf_deadQueues :: "string list option"
  cf_timezone :: "string option"
  cf_hooks :: "'s job_hooks"

section \<open>Running a body\<close>

definition HandlerTimeoutError :: "string \<Rightarrow> jnum \<Rightarrow> thrown" where
  "HandlerTimeoutError name timeoutMs =
     Err C_HandlerTimeoutError
       (''jubs: the job '' @ quoted name @ '' ran past its `timeoutMs` of '' @ num_text timeoutMs @ ''ms'' @
        dash @ ''its signal was aborted and the attempt failed, while the handler body kept running'')
       (Some []) None True []"

text \<open>\<open>controller.abort(reason)\<close>: a controller already aborted keeps its reason.\<close>

definition abort_with :: "thrown \<Rightarrow> thrown option \<Rightarrow> thrown option" where
  "abort_with e reason = (case reason of None \<Rightarrow> Some e | Some r \<Rightarrow> Some r)"

text \<open>
  \<open>runUnderTimeout\<close> over the events of one body: how the race between the body and
  its timer settled, the reason the controller holds by then, and what the body has
  left to do. A definition without \<open>timeoutMs\<close> sets no timer.
\<close>

fun runUnderTimeout ::
    "job_definition \<Rightarrow> (jval \<Rightarrow> thrown + jval) \<Rightarrow> thrown option \<Rightarrow> 's body_event list \<Rightarrow> ('s \<Rightarrow> 's) \<Rightarrow> 's \<Rightarrow>
      ((thrown + jval) \<times> thrown option \<times> 's body_event list \<times> 's) option" where
  "runUnderTimeout d finish reason [] renew s = None"
| "runUnderTimeout d finish reason (Effect f # evs) renew s =
     runUnderTimeout d finish reason evs renew (f s)"
| "runUnderTimeout d finish reason (RenewTick # evs) renew s =
     runUnderTimeout d finish reason evs renew (renew s)"
| "runUnderTimeout d finish reason (CancelSwept # evs) renew s =
     runUnderTimeout d finish (abort_with (CancelledError (jd_name d) False) reason) evs renew s"
| "runUnderTimeout d finish reason (ShutdownFired # evs) renew s =
     runUnderTimeout d finish (abort_with (ShutdownAbortError (jd_name d) False) reason) evs renew s"
| "runUnderTimeout d finish reason (TimerFired # evs) renew s =
     (case jd_timeoutMs d of
        None \<Rightarrow> runUnderTimeout d finish reason evs renew s
      | Some timeoutMs \<Rightarrow>
          let expired = HandlerTimeoutError (jd_name d) timeoutMs
          in Some (Inl expired, abort_with expired reason, evs, s))"
| "runUnderTimeout d finish reason (BodyReturns v # evs) renew s = Some (finish v, reason, evs, s)"
| "runUnderTimeout d finish reason (BodyThrows e # evs) renew s = Some (Inl e, reason, evs, s)"

text \<open>
  The \<open>catch\<close> around it: an error the body failed with under an aborted signal is
  replaced by the abort, which keeps it as its cause and keeps the promise of a body
  still running.
\<close>

definition replaced_by :: "thrown \<Rightarrow> thrown \<Rightarrow> thrown" where
  "replaced_by abort e = (if abort \<noteq> e then with_cause abort e else abort)"

definition abortedError :: "string \<Rightarrow> thrown option \<Rightarrow> thrown \<Rightarrow> thrown" where
  "abortedError name reason e =
     (case reason of
        None \<Rightarrow> e
      | Some r \<Rightarrow>
          if instance_of r C_CancelledError
          then replaced_by (if stillRunning e then CancelledError name True else r) e
          else if \<not> instance_of r C_ShutdownAbortError \<or> instance_of e C_UnrecoverableError then e
          else replaced_by (if stillRunning e then ShutdownAbortError name True else r) e)"

definition finish_body :: "job_definition \<Rightarrow> jval \<Rightarrow> thrown + jval" where
  "finish_body d v = catchE (validateResult d v) (\<lambda>e. Inl (unrecoverable e))"

definition run_body :: "job_definition \<Rightarrow> 's body_event list \<Rightarrow> 's run" where
  "run_body d evs renew s =
     (case runUnderTimeout d (finish_body d) None evs renew s of
        None \<Rightarrow> None
      | Some (Inr v, reason, rest, s') \<Rightarrow> Some (Inr v, rest, s')
      | Some (Inl e, reason, rest, s') \<Rightarrow> Some (Inl (abortedError (jd_name d) reason e), rest, s'))"

section \<open>Handlers\<close>

definition twoHandlers :: "string \<Rightarrow> thrown" where
  "twoHandlers name =
     new_error C_Error
       (''jubs: two handlers are registered for the job '' @ quoted name @ dash @
        ''a job name takes exactly one handler'')"

fun handlers_from :: "(string \<times> 's job_handler) list \<Rightarrow> 's job_handler list \<Rightarrow> thrown + (string \<times> 's job_handler) list" where
  "handlers_from byName [] = Inr byName"
| "handlers_from byName (h # hs) =
     (let name = jd_name (jh_definition h) in
      if map_of byName name \<noteq> None
      then Inl (twoHandlers name)
      else handlers_from (byName @ [(name, h)]) hs)"

definition handlersByName :: "'s job_handler list \<Rightarrow> thrown + (string \<times> 's job_handler) list" where
  "handlersByName hs = handlers_from [] hs"

definition noHandlerRuns :: "job_definition \<Rightarrow> thrown" where
  "noHandlerRuns orphan =
     new_error C_Error
       (''jubs: the job '' @ quoted (jd_name orphan) @ '' is registered on the started queue '' @
        quoted (jd_queue orphan) @ '' but no handler runs it'' @ dash @
        ''pass its handler to start(), or drop it from createJobs({ definitions })'')"

definition assertEveryDefinitionRuns ::
    "job_definition list \<Rightarrow> (string \<times> 's job_handler) list \<Rightarrow> string list \<Rightarrow> thrown + unit" where
  "assertEveryDefinitionRuns definitions byName queues =
     (case find (\<lambda>d. jd_queue d \<in> set queues \<and> map_of byName (jd_name d) = None) definitions of
        None \<Rightarrow> Inr ()
      | Some orphan \<Rightarrow> Inl (noHandlerRuns orphan))"

text \<open>\<open>if (!stray)\<close> takes a stray queue of the empty name for none.\<close>

definition truthy_find :: "(string \<Rightarrow> bool) \<Rightarrow> string list \<Rightarrow> string option" where
  "truthy_find P xs = (case find P xs of None \<Rightarrow> None | Some x \<Rightarrow> if x = [] then None else Some x)"

definition strayTuning :: "string \<Rightarrow> string list \<Rightarrow> thrown" where
  "strayTuning stray queues =
     new_error C_Error
       (''jubs: start() was given tuning for the queue '' @ quoted stray @ '', which no handler starts'' @
        dash @ ''the started queues are '' @ join '', '' (map quoted queues))"

definition assertEveryTunedQueueStarted :: "string list \<Rightarrow> string list \<Rightarrow> thrown + unit" where
  "assertEveryTunedQueueStarted tuned queues =
     (case truthy_find (\<lambda>q. q \<notin> set queues) tuned of
        None \<Rightarrow> Inr ()
      | Some stray \<Rightarrow> Inl (strayTuning stray queues))"

definition consumesADeadQueue :: "string \<Rightarrow> thrown" where
  "consumesADeadQueue guarded =
     new_error C_Error
       (''jubs: start() would open a worker on '' @ quoted (deadQueueName guarded) @
        '', which is the dead queue of '' @ quoted guarded @ dash @
        ''a dead queue is consumed by nobody, so rename that queue or drop '' @ quoted guarded @
        '' from createJobs({ deadQueues })'')"

definition assertNoQueueConsumesADeadQueue :: "string list \<Rightarrow> string list \<Rightarrow> thrown + unit" where
  "assertNoQueueConsumesADeadQueue deadQueues queues =
     (case truthy_find (\<lambda>q. deadQueueName q \<in> set queues) deadQueues of
        None \<Rightarrow> Inr ()
      | Some guarded \<Rightarrow> Inl (consumesADeadQueue guarded))"

section \<open>Schedules\<close>

definition DEFAULT_TIMEZONE :: string where
  "DEFAULT_TIMEZONE = ''UTC''"

definition unfitSchedule :: "job_definition \<Rightarrow> thrown \<Rightarrow> thrown" where
  "unfitSchedule d reason =
     with_cause (new_error C_Error
       (''jubs: the schedule of the job '' @ quoted (jd_name d) @ '' carries no payload its schema accepts'' @
        dash @ ''a scheduled job has no producer to pass one, so give the schedule its own `data`, '' @
        ''as in every('' @ quoted ''5 minutes'' @ '', { data: { ... } })'' @ dash @ message_of reason)) reason"

definition delayedSchedule :: "job_definition \<Rightarrow> thrown" where
  "delayedSchedule d =
     new_error C_Error
       (''jubs: the job '' @ quoted (jd_name d) @ '' has a schedule and a delivery `delayMs`'' @ dash @
        ''a delay postpones one enqueue, which a recurrence has no place for, so drop '' @
        ''`delayMs` from its delivery'')"

definition scheduleUpsert :: "'s jobs_config \<Rightarrow> job_definition \<Rightarrow> schedule \<Rightarrow> thrown + schedule_upsert" where
  "scheduleUpsert config d sc =
     bindE (catchE (validatePayload d (sc_data sc)) (\<lambda>e. Inl (unfitSchedule d e)))
       (\<lambda>data. bindE (resolveDeliveryWithoutUniqueness d data) (\<lambda>dl.
          if dl_delayMs dl \<noteq> None
          then Inl (delayedSchedule d)
          else Inr \<lparr>su_recurrence = sc_recurrence sc,
                    su_timezone = (case sc_recurrence sc of
                        EveryMs ms \<Rightarrow> None
                      | Pattern p \<Rightarrow> Some (or_else (sc_timezone sc) (or_else (cf_timezone config) DEFAULT_TIMEZONE))),
                    su_envelope = writeEnvelope d (sc_data sc) Scheduled, su_delivery = dl\<rparr>))"

definition declaredSchedules :: "'s jobs_config \<Rightarrow> 's job_handler list \<Rightarrow> string \<Rightarrow> thrown + schedule_upsert list" where
  "declaredSchedules config handlers queue =
     mapE (\<lambda>h. scheduleUpsert config (jh_definition h) (the (jd_schedule (jh_definition h))))
       (filter (\<lambda>h. jd_queue (jh_definition h) = queue \<and> jd_schedule (jh_definition h) \<noteq> None) handlers)"

fun reconcile_each :: "'s job_driver \<Rightarrow> (string \<times> schedule_upsert list) list \<Rightarrow> ('s, unit) io" where
  "reconcile_each drv [] = ret_io ()"
| "reconcile_each drv ((queue, declared) # rest) =
     bind_io (drv_reconcileSchedules drv queue declared) (\<lambda>_. reconcile_each drv rest)"

definition reconcileEveryQueue :: "'s jobs_config \<Rightarrow> 's job_handler list \<Rightarrow> string list \<Rightarrow> ('s, unit) io" where
  "reconcileEveryQueue config handlers queues =
     bind_io (lift_io (mapE (\<lambda>q. bindE (declaredSchedules config handlers q) (\<lambda>declared. Inr (q, declared))) queues))
       (reconcile_each (cf_driver config))"

section \<open>One delivery\<close>

definition noHandler :: "string \<Rightarrow> thrown" where
  "noHandler name = new_error C_Error (''jubs: no handler is registered for job '' @ quoted name)"

definition envelopeOf :: "job_delivery \<Rightarrow> thrown + envelope" where
  "envelopeOf delivery = catchE (readEnvelope (jdv_envelope delivery)) (\<lambda>e. Inl (unrecoverable e))"

definition refuse_children :: "thrown \<Rightarrow> thrown" where
  "refuse_children e =
     (if instance_of e C_ChildDeadError \<or> instance_of e C_ChildrenShortError \<or> instance_of e C_ResultError
      then unrecoverable e else e)"

text \<open>What \<open>dispatch\<close> does before the body: the payload and the children, or a refusal.\<close>

definition prepare ::
    "'s jobs_config \<Rightarrow> 's job_handler \<Rightarrow> envelope \<Rightarrow> job_event \<Rightarrow> job_delivery \<Rightarrow> ('s, jval \<times> (string \<times> jval) list) io" where
  "prepare config h envelope event delivery =
     bind_io (lift_io (catchE (migrateEnvelope (jh_definition h) envelope) (\<lambda>e. Inl (unrecoverable e)))) (\<lambda>migrated.
     bind_io (lift_io (catchE (validatePayload (jh_definition h) migrated) (\<lambda>e. Inl (unrecoverable e)))) (\<lambda>data.
     bind_io (catch_io (childrenFor (cf_driver config) (jh_definition h) envelope (je_queue event) (rd_id delivery))
                (\<lambda>e. throw_io (refuse_children e))) (\<lambda>children.
       ret_io (data, children))))"

definition run_prepared ::
    "'s jobs_config \<Rightarrow> string \<Rightarrow> 's job_handler \<Rightarrow> envelope \<Rightarrow> job_event \<Rightarrow> job_delivery \<Rightarrow>
      jval \<Rightarrow> (string \<times> jval) list \<Rightarrow> 's \<Rightarrow> 's settled" where
  "run_prepared config uuid h envelope event delivery data children s =
     (let d = jh_definition h;
          run = run_body d (jh_body h data \<lparr>cx_id = je_id event, cx_attempt = jdv_attempt delivery,
            cx_maxAttempts = jdv_maxAttempts delivery, cx_origin = env_origin envelope, cx_children = children\<rparr>)
      in case (case idempotencyKeyFor d data of
                 Some key \<Rightarrow> runUnderKey (drv_idempotency (cf_driver config)) key uuid run s
               | None \<Rightarrow> run (\<lambda>s. s) s) of
           None \<Rightarrow> None
         | Some (Inl e, evs, s') \<Rightarrow> Some (Inl e, evs, s')
         | Some (Inr v, evs, s') \<Rightarrow> Some (Inr v, evs, notify (hk_onSuccess (cf_hooks config)) event s'))"

definition dispatch ::
    "'s jobs_config \<Rightarrow> string \<Rightarrow> (string \<times> 's job_handler) list \<Rightarrow>
      envelope \<Rightarrow> job_event \<Rightarrow> job_delivery \<Rightarrow> 's \<Rightarrow> 's settled" where
  "dispatch config uuid byName envelope event delivery s =
     (case map_of byName (env_name envelope) of
        None \<Rightarrow> Some (Inl (unrecoverable (noHandler (env_name envelope))), [], s)
      | Some h \<Rightarrow>
          (case assertVersionIsKnown (jh_definition h) envelope of
             Inl e \<Rightarrow> Some (Inl e, [], s)
           | Inr _ \<Rightarrow>
               (case prepare config h envelope event delivery (notify (hk_onStart (cf_hooks config)) event s) of
                  (Inl e, s1) \<Rightarrow> Some (Inl e, [], s1)
                | (Inr (data, children), s1) \<Rightarrow>
                    run_prepared config uuid h envelope event delivery data children s1)))"

definition failure_event :: "job_event \<Rightarrow> thrown \<Rightarrow> job_failure_event" where
  "failure_event event e = job_event.extend event \<lparr>je_error = serializeError e\<rparr>"

text \<open>A dead queue that refuses an entry is logged: the outcome of the job stands.\<close>

definition report ::
    "'s jobs_config \<Rightarrow> envelope \<Rightarrow> job_event \<Rightarrow> job_delivery \<Rightarrow> thrown \<Rightarrow> 's \<Rightarrow> 's" where
  "report config envelope event delivery e s =
     (let failure = failure_event event e;
          s1 = notify (hk_onAttemptFailed (cf_hooks config)) failure s
      in case burialFor delivery e of
           None \<Rightarrow> s1
         | Some burial \<Rightarrow>
             let s2 = (if je_queue event \<in> set (or_else (cf_deadQueues config) [])
                       then snd (drv_dead_bury (cf_driver config) (je_queue event)
                              \<lparr>de_jobId = je_id event, de_envelope = envelope,
                               de_error = je_error failure, de_burial = burial\<rparr> s1)
                       else s1)
             in notify (hk_onDead (cf_hooks config)) failure s2)"

text \<open>The refusals that end a delivery without ending an attempt.\<close>

definition unreported :: "thrown \<Rightarrow> bool" where
  "unreported e \<longleftrightarrow>
     instance_of e C_LeaseHeldError \<or> instance_of e C_ShutdownAbortError \<or> instance_of e C_ChildrenPendingError"

definition event_of :: "string \<Rightarrow> envelope \<Rightarrow> job_delivery \<Rightarrow> job_event" where
  "event_of queue envelope delivery =
     \<lparr>je_name = env_name envelope, je_queue = queue, je_id = composeJobId queue (rd_id delivery),
      je_attempt = jdv_attempt delivery, je_origin = env_origin envelope\<rparr>"

definition runOn ::
    "'s jobs_config \<Rightarrow> string \<Rightarrow> (string \<times> 's job_handler) list \<Rightarrow> string \<Rightarrow> job_delivery \<Rightarrow> 's \<Rightarrow> 's settled" where
  "runOn config uuid byName queue delivery s =
     (case envelopeOf delivery of
        Inl e \<Rightarrow> Some (Inl e, [], s)
      | Inr envelope \<Rightarrow>
          let event = event_of queue envelope delivery in
          (case dispatch config uuid byName envelope event delivery s of
             None \<Rightarrow> None
           | Some (Inr v, evs, s') \<Rightarrow> Some (Inr v, evs, s')
           | Some (Inl e, evs, s') \<Rightarrow>
               if unreported e then Some (Inl e, evs, s')
               else Some (Inl e, evs, report config envelope event delivery e s')))"

section \<open>The deliveries a runtime is running\<close>

record live_delivery = running_delivery +
  lv_queue :: string
  lv_name :: string
  lv_controller :: nat

text \<open>A \<open>Map\<close> keeps its keys in the order they were first set.\<close>

fun add_live :: "live_delivery \<Rightarrow> (string \<times> live_delivery list) list \<Rightarrow> (string \<times> live_delivery list) list" where
  "add_live d [] = [(lv_queue d, [d])]"
| "add_live d ((q, ds) # rest) =
     (if q = lv_queue d then (q, ds @ [d]) # rest else (q, ds) # add_live d rest)"

definition liveByQueue :: "live_delivery list \<Rightarrow> (string \<times> live_delivery list) list" where
  "liveByQueue live = fold add_live live []"

definition as_running :: "live_delivery \<Rightarrow> running_delivery" where
  "as_running d = running_delivery.truncate d"

type_synonym controllers = "nat \<Rightarrow> thrown option"

definition abort_live :: "(string \<Rightarrow> thrown) \<Rightarrow> live_delivery list \<Rightarrow> controllers \<Rightarrow> controllers" where
  "abort_live abort ds cs = fold (\<lambda>d c. c(lv_controller d := abort_with (abort (lv_name d)) (c (lv_controller d)))) ds cs"

text \<open>\<open>takeCancelled\<close> gives back the very entries it was passed.\<close>

fun sweep_queues ::
    "'s job_driver \<Rightarrow> (string \<times> live_delivery list) list \<Rightarrow> controllers \<Rightarrow> ('s, controllers) io" where
  "sweep_queues drv [] cs = ret_io cs"
| "sweep_queues drv ((queue, running) # rest) cs =
     bind_io (drv_takeCancelled drv queue (map as_running running)) (\<lambda>cancelled.
       sweep_queues drv rest
         (abort_live (\<lambda>name. CancelledError name False)
            (filter (\<lambda>d. as_running d \<in> set cancelled) running) cs))"

definition sweepCancellations :: "'s job_driver \<Rightarrow> live_delivery list \<Rightarrow> controllers \<Rightarrow> ('s, controllers) io" where
  "sweepCancellations drv live cs = sweep_queues drv (liveByQueue live) cs"

section \<open>Starting and closing\<close>

definition DEFAULT_CONCURRENCY :: jnum where
  "DEFAULT_CONCURRENCY = JFin 10"

record queue_tuning =
  qt_concurrency :: "jnum option"
  qt_limiter :: "queue_limiter option"

record consume_request =
  cq_queue :: string
  cq_concurrency :: jnum
  cq_limiter :: "queue_limiter option"

definition consumeRequest :: "string \<Rightarrow> queue_tuning option \<Rightarrow> consume_request" where
  "consumeRequest queue tuning =
     \<lparr>cq_queue = queue,
      cq_concurrency = (case tuning of None \<Rightarrow> DEFAULT_CONCURRENCY
                        | Some t \<Rightarrow> or_else (qt_concurrency t) DEFAULT_CONCURRENCY),
      cq_limiter = (case tuning of None \<Rightarrow> None | Some t \<Rightarrow> qt_limiter t)\<rparr>"

text \<open>\<open>Promise.allSettled\<close>: every call is made, and every outcome is kept in order.\<close>

fun settle_all :: "('a \<Rightarrow> ('s, 'c) io) \<Rightarrow> 'a list \<Rightarrow> 's \<Rightarrow> (thrown + 'c) list \<times> 's" where
  "settle_all f [] s = ([], s)"
| "settle_all f (x # xs) s =
     (case f x s of (r, s1) \<Rightarrow> (case settle_all f xs s1 of (rs, s2) \<Rightarrow> (r # rs, s2)))"

definition fulfilled :: "(thrown + 'c) list \<Rightarrow> 'c list" where
  "fulfilled rs = concat (map (\<lambda>r. case r of Inr c \<Rightarrow> [c] | Inl e \<Rightarrow> []) rs)"

definition rejected :: "(thrown + 'c) list \<Rightarrow> thrown list" where
  "rejected rs = concat (map (\<lambda>r. case r of Inr c \<Rightarrow> [] | Inl e \<Rightarrow> [e]) rs)"

definition openConsumers ::
    "(consume_request \<Rightarrow> ('s, 'c) io) \<Rightarrow> ('c \<Rightarrow> ('s, unit) io) \<Rightarrow> consume_request list \<Rightarrow> ('s, 'c list) io" where
  "openConsumers consume close requests s =
     (case settle_all consume requests s of
        (settled, s1) \<Rightarrow>
          (case rejected settled of
             [] \<Rightarrow> (Inr (fulfilled settled), s1)
           | refused # _ \<Rightarrow> (Inl refused, snd (settle_all close (fulfilled settled) s1))))"

definition start_checks ::
    "'s jobs_config \<Rightarrow> 's job_handler list \<Rightarrow> string list \<Rightarrow> thrown + (string \<times> 's job_handler) list \<times> string list" where
  "start_checks config handlers tuned =
     bindE (handlersByName handlers) (\<lambda>byName.
       let queues = uniq (map (\<lambda>h. jd_queue (jh_definition h)) handlers);
           deadQueues = uniq (or_else (cf_deadQueues config) [])
       in bindE (assertEveryDefinitionRuns (or_else (cf_definitions config) []) byName queues) (\<lambda>_.
          bindE (assertEveryTunedQueueStarted tuned queues) (\<lambda>_.
          bindE (assertNoQueueConsumesADeadQueue deadQueues queues) (\<lambda>_.
            Inr (byName, queues)))))"

definition startRuntime ::
    "'s jobs_config \<Rightarrow> (consume_request \<Rightarrow> ('s, 'c) io) \<Rightarrow> ('c \<Rightarrow> ('s, unit) io) \<Rightarrow>
      's job_handler list \<Rightarrow> (string \<times> queue_tuning) list \<Rightarrow> ('s, 'c list) io" where
  "startRuntime config consume close handlers tuning =
     bind_io (lift_io (start_checks config handlers (map fst tuning))) (\<lambda>(byName, queues).
     bind_io (reconcileEveryQueue config handlers queues) (\<lambda>_.
       openConsumers consume close (map (\<lambda>q. consumeRequest q (map_of tuning q)) queues)))"

text \<open>
  \<open>drainConsumers\<close> once the race is decided: a runtime that drained in time aborts
  nothing, and one that did not aborts every delivery it still runs.
\<close>

definition drainConsumers :: "bool \<Rightarrow> live_delivery list \<Rightarrow> controllers \<Rightarrow> controllers" where
  "drainConsumers expired live cs =
     (if expired then abort_live (\<lambda>name. ShutdownAbortError name False) live cs else cs)"


section \<open>How a body settles\<close>

fun quiet :: "'s body_event \<Rightarrow> bool" where
  "quiet (Effect f) = True"
| "quiet RenewTick = True"
| "quiet e = False"

fun ends_body :: "'s body_event \<Rightarrow> bool" where
  "ends_body (BodyReturns v) = True"
| "ends_body (BodyThrows e) = True"
| "ends_body e = False"

text \<open>The state the effects and the renewals of a run lead to.\<close>

fun after_events :: "('s \<Rightarrow> 's) \<Rightarrow> 's body_event list \<Rightarrow> 's \<Rightarrow> 's" where
  "after_events renew [] s = s"
| "after_events renew (Effect f # evs) s = after_events renew evs (f s)"
| "after_events renew (RenewTick # evs) s = after_events renew evs (renew s)"
| "after_events renew (_ # evs) s = after_events renew evs s"

lemma runUnderTimeout_quiet:
  "list_all quiet pre \<Longrightarrow>
    runUnderTimeout d fin reason (pre @ evs) renew s =
    runUnderTimeout d fin reason evs renew (after_events renew pre s)"
proof (induction pre arbitrary: s)
  case (Cons ev pre)
  then show ?case by (cases ev) auto
qed simp

lemma abort_with_Some [simp]: "abort_with e (Some r) = Some r"
  by (simp add: abort_with_def)

lemma runUnderTimeout_keeps_reason:
  "runUnderTimeout d fin (Some r) evs renew s = Some (out, reason, rest, s') \<Longrightarrow> reason = Some r"
  by (induction d fin "Some r" evs renew s rule: runUnderTimeout.induct)
    (auto simp: Let_def split: option.splits)

lemma runUnderTimeout_settles:
  "\<exists>ev \<in> set evs. ends_body ev \<Longrightarrow> \<exists>r. runUnderTimeout d fin reason evs renew s = Some r"
  by (induction d fin reason evs renew s rule: runUnderTimeout.induct)
    (auto simp: Let_def split: option.splits)

lemma runUnderTimeout_timer_settles:
  "TimerFired \<in> set evs \<Longrightarrow> jd_timeoutMs d \<noteq> None \<Longrightarrow>
    \<exists>r. runUnderTimeout d fin reason evs renew s = Some r"
  by (induction d fin reason evs renew s rule: runUnderTimeout.induct)
    (auto simp: Let_def split: option.splits)

lemma runUnderTimeout_Inr:
  "runUnderTimeout d fin reason evs renew s = Some (Inr v, reason', rest, s') \<Longrightarrow>
    \<exists>w. BodyReturns w \<in> set evs \<and> fin w = Inr v"
  by (induction d fin reason evs renew s rule: runUnderTimeout.induct)
    (auto simp: Let_def split: option.splits)

lemma finish_body_Inr_iff [simp]: "finish_body d w = Inr v \<longleftrightarrow> validateResult d w = Inr v"
  by (simp add: finish_body_def catchE_throw_Inr)

lemma finish_body_Inl:
  "finish_body d w = Inl e \<Longrightarrow> instance_of e k \<longleftrightarrow> k = C_UnrecoverableError"
  by (cases "validateResult d w") (auto simp: finish_body_def)

lemma run_body_settles:
  assumes "(\<exists>ev \<in> set evs. ends_body ev) \<or> TimerFired \<in> set evs \<and> jd_timeoutMs d \<noteq> None"
  shows "\<exists>out rest s'. run_body d evs renew s = Some (out, rest, s')"
proof -
  have "\<exists>r. runUnderTimeout d (finish_body d) None evs renew s = Some r"
    using assms by (metis runUnderTimeout_settles runUnderTimeout_timer_settles)
  then obtain out reason rest s' where
    "runUnderTimeout d (finish_body d) None evs renew s = Some (out, reason, rest, s')"
    by auto
  then show ?thesis by (cases out) (auto simp: run_body_def)
qed

lemma run_body_Inr:
  assumes "run_body d evs renew s = Some (Inr v, rest, s')"
  shows "\<exists>w. BodyReturns w \<in> set evs \<and> validateResult d w = Inr v"
proof -
  from assms obtain reason where
    "runUnderTimeout d (finish_body d) None evs renew s = Some (Inr v, reason, rest, s')"
    by (auto simp: run_body_def split: option.splits sum.splits)
  then show ?thesis using runUnderTimeout_Inr by fastforce
qed

section \<open>What an abort makes of an error\<close>

lemma HandlerTimeoutError_class [simp]:
  "instance_of (HandlerTimeoutError name ms) k \<longleftrightarrow> k = C_HandlerTimeoutError"
  "stillRunning (HandlerTimeoutError name ms)"
  by (auto simp: HandlerTimeoutError_def)

lemma replaced_by_class [simp]:
  "instance_of (replaced_by a e) k = instance_of a k" "stillRunning (replaced_by a e) = stillRunning a"
  by (simp_all add: replaced_by_def)

lemma instance_of_cancelled:
  "instance_of r C_CancelledError \<Longrightarrow> instance_of r C_UnrecoverableError"
  by (cases r) auto

lemma abortedError_cancelled:
  assumes "instance_of r C_CancelledError"
  shows "instance_of (abortedError name (Some r) e) C_CancelledError"
  using assms by (simp add: abortedError_def)

lemma abortedError_cancelled_running:
  "\<not> stillRunning r \<Longrightarrow> instance_of r C_CancelledError \<Longrightarrow>
    stillRunning (abortedError name (Some r) e) = stillRunning e"
  by (simp add: abortedError_def)

lemma abortedError_shutdown:
  assumes "r = ShutdownAbortError name' False"
  shows "abortedError name (Some r) e =
    (if instance_of e C_UnrecoverableError then e
     else replaced_by (ShutdownAbortError (if stillRunning e then name else name') (stillRunning e)) e)"
  using assms by (simp add: abortedError_def)

lemma burialFor_cancelled:
  "instance_of e C_CancelledError \<Longrightarrow> burialFor delivery e = Some (BuryFor Cancelled)"
  by (simp add: burialFor_def)

lemma run_body_cancelled:
  assumes "list_all quiet pre" and "run_body d (pre @ CancelSwept # post) renew s = Some (Inl e, rest, s')"
  shows "instance_of e C_CancelledError"
proof -
  from assms(2) obtain e0 reason where
    "runUnderTimeout d (finish_body d) (Some (CancelledError (jd_name d) False)) post renew (after_events renew pre s)
      = Some (Inl e0, reason, rest, s')" "e = abortedError (jd_name d) reason e0"
    by (auto simp: run_body_def runUnderTimeout_quiet [OF assms(1)] abort_with_def
        split: option.splits sum.splits)
  then show ?thesis
    using runUnderTimeout_keeps_reason abortedError_cancelled abort_errors(1) by metis
qed

lemma run_body_shutdown:
  assumes "list_all quiet pre" and "run_body d (pre @ ShutdownFired # post) renew s = Some (Inl e, rest, s')"
  shows "instance_of e C_ShutdownAbortError \<or> instance_of e C_UnrecoverableError"
proof -
  from assms(2) obtain e0 reason where
    "runUnderTimeout d (finish_body d) (Some (ShutdownAbortError (jd_name d) False)) post renew (after_events renew pre s)
      = Some (Inl e0, reason, rest, s')" "e = abortedError (jd_name d) reason e0"
    by (auto simp: run_body_def runUnderTimeout_quiet [OF assms(1)] abort_with_def
        split: option.splits sum.splits)
  then have "e = abortedError (jd_name d) (Some (ShutdownAbortError (jd_name d) False)) e0"
    using runUnderTimeout_keeps_reason by metis
  then show ?thesis by (simp add: abortedError_shutdown split: if_splits)
qed

lemma run_body_timeout:
  assumes "list_all quiet pre" and "jd_timeoutMs d = Some ms"
  shows "run_body d (pre @ TimerFired # post) renew s =
    Some (Inl (HandlerTimeoutError (jd_name d) ms), post, after_events renew pre s)"
  by (simp add: run_body_def runUnderTimeout_quiet [OF assms(1)] assms(2) abort_with_def
      abortedError_def Let_def)


section \<open>A body under a lease\<close>

text \<open>
  \<open>leaves_key\<close>: no effect of the body moves its own key out of the lease it runs
  under, which is true of every body that does not touch the store itself.
\<close>

definition leaves_key :: "('s \<Rightarrow> string \<Rightarrow> key_state) \<Rightarrow> ('s \<Rightarrow> bool) \<Rightarrow> string \<Rightarrow> string \<Rightarrow> 's body_event list \<Rightarrow> bool" where
  "leaves_key view invar key t evs \<longleftrightarrow>
     (\<forall>f s. Effect f \<in> set evs \<longrightarrow> invar s \<longrightarrow> view s key = HeldBy t \<longrightarrow> invar (f s) \<and> view (f s) key = HeldBy t)"

lemma leaves_key_Cons:
  "leaves_key view invar key t (ev # evs) \<longleftrightarrow>
     leaves_key view invar key t [ev] \<and> leaves_key view invar key t evs"
  by (auto simp: leaves_key_def)

lemma leaves_key_rest:
  "runUnderTimeout d fin reason evs renew s = Some (out, reason', rest, s') \<Longrightarrow>
    leaves_key view invar key t evs \<Longrightarrow> leaves_key view invar key t rest"
  by (induction d fin reason evs renew s rule: runUnderTimeout.induct)
    (auto simp: Let_def leaves_key_Cons [of view invar key t _ "_ # _"] leaves_key_def split: option.splits)

text \<open>Bodies run over a store of leases: what both providers of one inherit.\<close>

locale leased_bodies = lease_store
begin

lemma runUnderTimeout_keeps:
  assumes "runUnderTimeout d fin reason evs (renewWhileRunning store key t) s = Some (out, reason', rest, s')"
    and "leaves_key view invar key t evs" and "invar s" and "view s key = HeldBy t"
  shows "invar s' \<and> view s' key = HeldBy t"
  using assms
proof (induction d fin reason evs "renewWhileRunning store key t" s rule: runUnderTimeout.induct)
  case (2 d fin reason f evs s)
  then have "invar (f s) \<and> view (f s) key = HeldBy t" "leaves_key view invar key t evs"
    by (auto simp: leaves_key_def)
  with 2 show ?case by simp
next
  case (3 d fin reason evs s)
  moreover have "leaves_key view invar key t evs" using 3 by (simp add: leaves_key_def)
  ultimately show ?case using renewWhileRunning_view by simp
qed (auto simp: leaves_key_def Let_def split: option.splits)

lemma run_body_keeps_lease:
  "leaves_key view invar key t evs \<Longrightarrow> keeps_lease key t (run_body d evs)"
  unfolding keeps_lease_def run_body_def
  by (auto split: option.splits sum.splits dest: runUnderTimeout_keeps)

lemma follow_body_keeps:
  assumes "follow_body fin evs (renewWhileRunning store key t) s = Some (out, rest, s')"
    and "leaves_key view invar key t evs" and "invar s" and "view s key = HeldBy t"
  shows "invar s' \<and> view s' key = HeldBy t"
  using assms
proof (induction fin evs "renewWhileRunning store key t" s rule: follow_body.induct)
  case (2 fin f evs s)
  then have "invar (f s) \<and> view (f s) key = HeldBy t" "leaves_key view invar key t evs"
    by (auto simp: leaves_key_def)
  with 2 show ?case by simp
next
  case (3 fin evs s)
  moreover have "leaves_key view invar key t evs" using 3 by (simp add: leaves_key_def)
  ultimately show ?case using renewWhileRunning_view by simp
qed (auto simp: leaves_key_def)

lemma follow_body_keeps_lease:
  "leaves_key view invar key t evs \<Longrightarrow> keeps_lease key t (follow_body fin evs)"
  unfolding keeps_lease_def using follow_body_keeps by blast

text \<open>
  A body that outlives its delivery: the key stays held when the delivery ends, and
  settles when the body does, with the body's own result or free again.
\<close>

lemma timed_out_body:
  assumes "invar s" and "view s key = Absent" and "jd_timeoutMs d = Some ms"
    and "list_all quiet pre" and "leaves_key view invar key t (pre @ TimerFired # post)"
    and "runUnderKey store key t (run_body d (pre @ TimerFired # post)) s = Some (out, rest, s')"
  shows "out = Inl (HandlerTimeoutError (jd_name d) ms) \<and> rest = post \<and> invar s' \<and> view s' key = HeldBy t \<and>
    (\<forall>s''. settleWhenBodyEnds store key t (follow_body fin post) s' = Some s'' \<longrightarrow>
       (\<exists>r evs s2. follow_body fin post (renewWhileRunning store key t) s' = Some (r, evs, s2) \<and>
          view s'' key = (case r of Inr v \<Rightarrow> Complete (given (keptResultOf v)) | Inl e \<Rightarrow> Absent)))"
proof -
  have body: "run_body d (pre @ TimerFired # post) renew s =
      Some (Inl (HandlerTimeoutError (jd_name d) ms), post, after_events renew pre s)" for renew s
    using assms(3,4) by (simp add: run_body_timeout)
  have out: "out = Inl (HandlerTimeoutError (jd_name d) ms)" "rest = post"
  proof -
    obtain s1 where "ids_acquire store key t IDEMPOTENCY_LEASE_MS s = (Inr (LeaseAcquired t), s1)"
      using free_key_acquired [OF assms(1,2)] by metis
    with assms(6) body show "out = Inl (HandlerTimeoutError (jd_name d) ms)" "rest = post"
      by (simp_all add: runUnderKey_def)
  qed
  from assms(6) out free_key_throws [OF assms(1,2) run_body_keeps_lease [OF assms(5)]]
  have held: "invar s'" "view s' key = HeldBy t" by auto
  have "leaves_key view invar key t post"
    using assms(5) by (auto simp: leaves_key_def)
  then have "keeps_lease key t (follow_body fin post)" by (rule follow_body_keeps_lease)
  with out held detached_body_settles [OF held this] show ?thesis by blast
qed

end

section \<open>What a delivery is prepared with\<close>

lemma prepare_Inr:
  assumes "prepare config h envelope event delivery s = (Inr (data, children), s')"
    and "slotsOf (jh_definition h) \<noteq> []"
  shows "\<exists>st. drv_flow_read (cf_driver config) (je_queue event) (rd_id delivery) s = (Inr st, s') \<and>
    settledChildren (jh_definition h) envelope st = Inr children"
  using assms
  by (auto simp: prepare_def childrenFor_def bind_io_def catch_io_def lift_io_def
      split: sum.splits prod.splits)

lemma prepare_payload:
  assumes "prepare config h envelope event delivery s = (Inr (data, children), s')"
  shows "\<exists>migrated. migrateEnvelope (jh_definition h) envelope = Inr migrated \<and>
    validatePayload (jh_definition h) migrated = Inr data"
  using assms
  by (auto simp: prepare_def bind_io_def lift_io_def ret_io_def catchE_throw_Inr
      split: sum.splits prod.splits elim!: catchE.elims)

lemma prepare_pending:
  assumes "migrateEnvelope (jh_definition h) envelope = Inr migrated"
    and "validatePayload (jh_definition h) migrated = Inr data"
    and "slotsOf (jh_definition h) \<noteq> []"
    and "drv_flow_read (cf_driver config) (je_queue event) (rd_id delivery) s = (Inr st, s')"
    and "num_lt (JFin 0) (fs_pending st)"
  shows "prepare config h envelope event delivery s =
    (Inl (ChildrenPendingError (jh_definition h) (fs_pending st)), s')"
  using assms
  by (simp add: prepare_def childrenFor_def settledChildren_def bind_io_def catch_io_def
      refuse_children_def)


section \<open>What \<open>start\<close> checks\<close>

definition handler_names :: "'s job_handler list \<Rightarrow> string list" where
  "handler_names hs = map (\<lambda>h. jd_name (jh_definition h)) hs"

lemma handlers_from_Inr_iff:
  "handlers_from byName hs = Inr r \<longleftrightarrow>
     distinct (handler_names hs) \<and> set (handler_names hs) \<inter> fst ` set byName = {} \<and>
     r = byName @ map (\<lambda>h. (jd_name (jh_definition h), h)) hs"
proof (induction byName hs rule: handlers_from.induct)
  case (1 byName)
  then show ?case by (auto simp: handler_names_def)
next
  case (2 byName h hs)
  show ?case
  proof (cases "map_of byName (jd_name (jh_definition h)) = None")
    case True
    then have "jd_name (jh_definition h) \<notin> fst ` set byName" by (simp add: map_of_eq_None_iff)
    with True "2.IH" [OF refl] show ?thesis by (auto simp: handler_names_def)
  next
    case False
    then have "jd_name (jh_definition h) \<in> fst ` set byName" by (simp add: map_of_eq_None_iff)
    with False show ?thesis by (auto simp: handler_names_def Let_def)
  qed
qed

lemma handlersByName_Inr_iff:
  "handlersByName hs = Inr r \<longleftrightarrow>
     distinct (handler_names hs) \<and> r = map (\<lambda>h. (jd_name (jh_definition h), h)) hs"
  by (simp add: handlersByName_def handlers_from_Inr_iff)

lemma handlersByName_lookup:
  assumes "handlersByName hs = Inr byName" and "map_of byName name = Some h"
  shows "h \<in> set hs \<and> jd_name (jh_definition h) = name"
  using assms by (auto simp: handlersByName_Inr_iff dest!: map_of_SomeD)

lemma assertEveryDefinitionRuns_Inr_iff:
  "assertEveryDefinitionRuns ds byName queues = Inr u \<longleftrightarrow>
     (\<forall>d \<in> set ds. jd_queue d \<in> set queues \<longrightarrow> jd_name d \<in> fst ` set byName)"
  by (auto simp: assertEveryDefinitionRuns_def find_None_iff map_of_eq_None_iff
      split: option.splits dest!: find_Some_in)

lemma truthy_find_None:
  "truthy_find P xs = None \<Longrightarrow> [] \<notin> set xs \<or> \<not> P [] \<Longrightarrow> \<not> (\<exists>x \<in> set xs. P x)"
  by (auto simp: truthy_find_def find_None_iff split: option.splits if_splits dest: find_Some_in)

lemma start_checks_Inr:
  assumes "start_checks config handlers tuned = Inr (byName, queues)"
  shows "distinct (handler_names handlers)"
    and "queues = uniq (map (\<lambda>h. jd_queue (jh_definition h)) handlers)"
    and "byName = map (\<lambda>h. (jd_name (jh_definition h), h)) handlers"
    and "\<forall>d \<in> set (or_else (cf_definitions config) []). jd_queue d \<in> set queues \<longrightarrow>
      jd_name d \<in> set (handler_names handlers)"
    and "[] \<notin> set tuned \<Longrightarrow> set tuned \<subseteq> set queues"
    and "[] \<notin> set (or_else (cf_deadQueues config) []) \<Longrightarrow>
      \<forall>q \<in> set (or_else (cf_deadQueues config) []). deadQueueName q \<notin> set queues"
proof -
  from assms have by_name: "handlersByName handlers = Inr byName"
    and queues: "queues = uniq (map (\<lambda>h. jd_queue (jh_definition h)) handlers)"
    and runs: "assertEveryDefinitionRuns (or_else (cf_definitions config) []) byName queues = Inr ()"
    and tuned: "assertEveryTunedQueueStarted tuned queues = Inr ()"
    and dead: "assertNoQueueConsumesADeadQueue (uniq (or_else (cf_deadQueues config) [])) queues = Inr ()"
    by (auto simp: start_checks_def bindE_Inr_iff Let_def)
  show "distinct (handler_names handlers)" and "byName = map (\<lambda>h. (jd_name (jh_definition h), h)) handlers"
    using by_name by (simp_all add: handlersByName_Inr_iff)
  show "queues = uniq (map (\<lambda>h. jd_queue (jh_definition h)) handlers)" by (rule queues)
  show "\<forall>d \<in> set (or_else (cf_definitions config) []). jd_queue d \<in> set queues \<longrightarrow>
      jd_name d \<in> set (handler_names handlers)"
    using runs by_name
    by (auto simp: assertEveryDefinitionRuns_Inr_iff handlersByName_Inr_iff handler_names_def image_image)
  show "set tuned \<subseteq> set queues" if "[] \<notin> set tuned"
    using tuned truthy_find_None [of "\<lambda>q. q \<notin> set queues" tuned] that
    by (auto simp: assertEveryTunedQueueStarted_def split: option.splits)
  show "\<forall>q \<in> set (or_else (cf_deadQueues config) []). deadQueueName q \<notin> set queues"
    if "[] \<notin> set (or_else (cf_deadQueues config) [])"
    using dead truthy_find_None [of "\<lambda>q. deadQueueName q \<in> set queues" "uniq (or_else (cf_deadQueues config) [])"] that
    by (auto simp: assertNoQueueConsumesADeadQueue_def split: option.splits)
qed

section \<open>Opening consumers\<close>

lemma fulfilled_simps [simp]:
  "fulfilled [] = []" "fulfilled (Inr c # rs) = c # fulfilled rs" "fulfilled (Inl e # rs) = fulfilled rs"
  by (simp_all add: fulfilled_def)

lemma rejected_simps [simp]:
  "rejected [] = []" "rejected (Inr c # rs) = rejected rs" "rejected (Inl e # rs) = e # rejected rs"
  by (simp_all add: rejected_def)

lemma fulfilled_all: "rejected rs = [] \<Longrightarrow> length (fulfilled rs) = length rs"
proof (induction rs)
  case (Cons r rs)
  then show ?case by (cases r) auto
qed simp

lemma settle_all_length: "settle_all f xs s = (rs, s') \<Longrightarrow> length rs = length xs"
  by (induction f xs s arbitrary: rs s' rule: settle_all.induct) (auto split: prod.splits)

text \<open>
  A ledger of what is open: a consumer opened adds itself, a consumer closed takes
  itself out, and a refusal leaves it as it was.
\<close>

definition counts_open ::
    "(consume_request \<Rightarrow> ('s, 'c) io) \<Rightarrow> ('c \<Rightarrow> ('s, unit) io) \<Rightarrow> ('s \<Rightarrow> 'c set) \<Rightarrow> bool" where
  "counts_open consume close opened \<longleftrightarrow>
     (\<forall>q s. (case consume q s of
               (Inr c, s') \<Rightarrow> c \<notin> opened s \<and> opened s' = insert c (opened s)
             | (Inl e, s') \<Rightarrow> opened s' = opened s)) \<and>
     (\<forall>c s. opened (snd (close c s)) = opened s - {c})"

lemma counts_open_consume:
  assumes "counts_open consume close opened"
  shows "consume q s = (Inr c, s') \<Longrightarrow> c \<notin> opened s \<and> opened s' = insert c (opened s)"
    and "consume q s = (Inl e, s') \<Longrightarrow> opened s' = opened s"
proof -
  have "case consume q s of
      (Inr c, s') \<Rightarrow> c \<notin> opened s \<and> opened s' = insert c (opened s)
    | (Inl e, s') \<Rightarrow> opened s' = opened s"
    using assms [unfolded counts_open_def, THEN conjunct1] by (elim allE)
  then show "consume q s = (Inr c, s') \<Longrightarrow> c \<notin> opened s \<and> opened s' = insert c (opened s)"
    and "consume q s = (Inl e, s') \<Longrightarrow> opened s' = opened s" by simp_all
qed

lemma settle_all_opens:
  assumes "counts_open consume close opened" and "settle_all consume qs s = (rs, s')"
  shows "opened s' = opened s \<union> set (fulfilled rs) \<and> opened s \<inter> set (fulfilled rs) = {}"
  using assms(2)
proof (induction qs arbitrary: s rs)
  case (Cons q qs)
  obtain r s1 where one: "consume q s = (r, s1)" by fastforce
  obtain rs1 where rest: "settle_all consume qs s1 = (rs1, s')" "rs = r # rs1"
    using Cons.prems one by (simp split: prod.splits)
  show ?case
  proof (cases r)
    case (Inl e)
    then have "opened s1 = opened s" using counts_open_consume(2) [OF assms(1)] one by simp
    with Cons.IH [OF rest(1)] rest(2) Inl show ?thesis by simp
  next
    case (Inr c)
    then have "c \<notin> opened s" "opened s1 = insert c (opened s)"
      using counts_open_consume(1) [OF assms(1)] one by simp_all
    with Cons.IH [OF rest(1)] rest(2) Inr show ?thesis by simp
  qed
qed simp

lemma settle_all_closes:
  assumes "counts_open consume close opened"
  shows "opened (snd (settle_all close cs s)) = opened s - set cs"
proof (induction cs arbitrary: s)
  case (Cons c cs)
  obtain r s1 where one: "close c s = (r, s1)" by fastforce
  have "opened (snd (close c s)) = opened s - {c}"
    using assms by (simp add: counts_open_def)
  then have "opened s1 = opened s - {c}" by (simp add: one)
  moreover have "snd (settle_all close (c # cs) s) = snd (settle_all close cs s1)"
    by (simp add: one split: prod.split)
  ultimately show ?case using Cons [of s1] by (simp add: Diff_insert2 [symmetric])
qed simp

section \<open>Which deliveries a sweep aborts\<close>

lemma abort_live_other:
  "\<forall>d \<in> set ds. lv_controller d \<noteq> n \<Longrightarrow> abort_live ab ds cs n = cs n"
  unfolding abort_live_def by (induction ds arbitrary: cs) auto

lemma abort_live_aborts:
  "d \<in> set ds \<Longrightarrow> distinct (map lv_controller ds) \<Longrightarrow>
    abort_live ab ds cs (lv_controller d) = abort_with (ab (lv_name d)) (cs (lv_controller d))"
proof (induction ds arbitrary: cs)
  case (Cons e ds)
  let ?cs = "cs(lv_controller e := abort_with (ab (lv_name e)) (cs (lv_controller e)))"
  have step: "abort_live ab (e # ds) cs = abort_live ab ds ?cs" by (simp add: abort_live_def)
  show ?case
  proof (cases "d = e")
    case True
    with Cons.prems(2) have "\<forall>x \<in> set ds. lv_controller x \<noteq> lv_controller d"
      by (auto simp: image_iff)
    then have "abort_live ab ds ?cs (lv_controller d) = ?cs (lv_controller d)"
      by (rule abort_live_other)
    with True step show ?thesis by simp
  next
    case False
    with Cons.prems have "d \<in> set ds" "lv_controller d \<noteq> lv_controller e" by (auto simp: image_iff)
    moreover have "distinct (map lv_controller ds)" using Cons.prems(2) by simp
    ultimately have "abort_live ab ds ?cs (lv_controller d) = abort_with (ab (lv_name d)) (?cs (lv_controller d))"
      by (intro Cons.IH)
    with step \<open>lv_controller d \<noteq> lv_controller e\<close> show ?thesis
      by (simp only: fun_upd_def if_False)
  qed
qed simp

definition all_live :: "(string \<times> live_delivery list) list \<Rightarrow> live_delivery set" where
  "all_live by_queue = (\<Union>(q, ds) \<in> set by_queue. set ds)"

definition filed :: "(string \<times> live_delivery list) list \<Rightarrow> bool" where
  "filed by_queue \<longleftrightarrow> (\<forall>(q, ds) \<in> set by_queue. \<forall>d \<in> set ds. lv_queue d = q)"

lemma all_live_add [simp]: "all_live (add_live d by_queue) = insert d (all_live by_queue)"
  unfolding all_live_def by (induction d by_queue rule: add_live.induct) auto

lemma filed_add [simp]: "filed by_queue \<Longrightarrow> filed (add_live d by_queue)"
  unfolding filed_def by (induction d by_queue rule: add_live.induct) auto

lemma all_live_fold: "all_live (fold add_live live by_queue) = set live \<union> all_live by_queue"
  by (induction live arbitrary: by_queue) simp_all

lemma filed_fold: "filed by_queue \<Longrightarrow> filed (fold add_live live by_queue)"
  by (induction live arbitrary: by_queue) simp_all

lemma liveByQueue_all: "all_live (liveByQueue live) = set live"
  unfolding liveByQueue_def all_live_fold by (simp add: all_live_def)

lemma liveByQueue_filed: "filed (liveByQueue live)"
  unfolding liveByQueue_def by (rule filed_fold) (simp add: filed_def)

end
