(* ===== verification/MemoryDriver.thy ===== *)
theory MemoryDriver
  imports Idempotency DeadLetters "HOL-Library.AList" "HOL-Library.Multiset"
begin

text \<open>
  The driver that keeps everything in memory (\<open>src/src/testing/index.ts\<close>): the
  jobs it recorded, the line of pending ones, the queues with a consumer, the
  paused queues, the dead queues, the leases, the kept results and the marks of
  cancelled deliveries, one record field per variable of \<open>memoryDriver\<close>.

  A job is an object the lists \<open>recorded\<close> and \<open>pending\<close> share, so the state holds a
  store of jobs and the two lists hold references into it. The function a consumer
  registered is kept by a number; \<open>runs\<close>, a parameter of what calls it, is the table
  of those functions.

  Shown here: the invariant of every reachable state, that the memory store is a
  store of leases, what each operation does to the line of pending jobs, that a
  second enqueue under an id stores nothing, that a mark only ever reaches the
  delivery it names, and that \<open>drain\<close> ends.
\<close>

section \<open>The state\<close>

record memory_job =
  mj_id :: string
  mj_queue :: string
  mj_maxAttempts :: jnum
  mj_envelope :: envelope
  mj_state :: job_state
  mj_attempts :: nat
  mj_attemptsStarted :: nat
  mj_failure :: "string option"

record memory_dead_queue =
  mq_entries :: "(string \<times> dead_entry) list"
  mq_deaths :: nat

record memory =
  mem_jobs :: "nat \<Rightarrow> memory_job"
  mem_fresh :: nat
  mem_recorded :: "nat list"
  mem_pending :: "nat list"
  mem_consumers :: "string \<Rightarrow> nat option"
  mem_paused :: "string set"
  mem_buried :: "string \<Rightarrow> memory_dead_queue option"
  mem_leased :: "string \<Rightarrow> string option"
  mem_kept :: "string \<Rightarrow> kept_result option"
  mem_marked :: "string \<Rightarrow> nat option"

text \<open>A store slot no job was put in holds this value, which nothing reads.\<close>

definition no_job :: memory_job where
  "no_job = \<lparr>mj_id = [], mj_queue = [], mj_maxAttempts = JFin 0,
     mj_envelope = \<lparr>env_v = JFin 1, env_name = [], env_data = JUndefined, env_origin = Direct, env_slots = None\<rparr>,
     mj_state = UnknownState, mj_attempts = 0, mj_attemptsStarted = 0, mj_failure = None\<rparr>"

definition memoryDriver_start :: memory where
  "memoryDriver_start = \<lparr>mem_jobs = (\<lambda>r. no_job), mem_fresh = 0, mem_recorded = [],
     mem_pending = [], mem_consumers = Map.empty, mem_paused = {}, mem_buried = Map.empty,
     mem_leased = Map.empty, mem_kept = Map.empty, mem_marked = Map.empty\<rparr>"

definition update_job :: "nat \<Rightarrow> (memory_job \<Rightarrow> memory_job) \<Rightarrow> memory \<Rightarrow> memory" where
  "update_job r f s = s\<lparr>mem_jobs := (mem_jobs s)(r := f (mem_jobs s r))\<rparr>"

text \<open>\<open>xs.splice(xs.indexOf(x), 1)\<close>: an index of -1 counts from the end.\<close>

definition splice_out :: "'a \<Rightarrow> 'a list \<Rightarrow> 'a list" where
  "splice_out x xs = (if x \<in> set xs then remove1 x xs else butlast xs)"

section \<open>Reading the state\<close>

definition unsupported :: "string \<Rightarrow> thrown" where
  "unsupported behaviour =
     new_error C_Error
       (''jubs: memoryDriver does not simulate '' @ quoted behaviour @
        ''; test that behaviour against redisDriver'')"

definition jobAt :: "memory \<Rightarrow> string \<Rightarrow> string \<Rightarrow> nat option" where
  "jobAt s queue i =
     find (\<lambda>r. mj_queue (mem_jobs s r) = queue \<and> mj_id (mem_jobs s r) = i) (mem_recorded s)"

definition runnable :: "memory \<Rightarrow> nat option" where
  "runnable s = find (\<lambda>r. mj_queue (mem_jobs s r) \<notin> mem_paused s) (mem_pending s)"

section \<open>Enqueuing, reading, retrying and cancelling\<close>

text \<open>The keys of a delivery outside the accepted ones, in the order it carries them.\<close>

definition rejected_option :: "delivery \<Rightarrow> string option" where
  "rejected_option d =
     (if dl_unique d \<noteq> None then Some ''unique''
      else if dl_delayMs d \<noteq> None then Some ''delayMs'' else None)"

text \<open>A \<open>jobId\<close> that a truth test takes for true.\<close>

definition given_id :: "enqueue_request \<Rightarrow> string option" where
  "given_id rq = (case rq_jobId rq of None \<Rightarrow> None | Some i \<Rightarrow> if i = [] then None else Some i)"

definition memory_enqueue :: "enqueue_request \<Rightarrow> (memory, string) io" where
  "memory_enqueue rq s =
     (case rejected_option (rq_delivery rq) of
        Some rejected \<Rightarrow> (Inl (unsupported rejected), s)
      | None \<Rightarrow>
          (case (case given_id rq of None \<Rightarrow> None | Some i \<Rightarrow> jobAt s (rq_queue rq) i) of
             Some already \<Rightarrow> (Inr (mj_id (mem_jobs s already)), s)
           | None \<Rightarrow>
               let i = (case given_id rq of Some i \<Rightarrow> i | None \<Rightarrow> show_nat (length (mem_recorded s) + 1));
                   r = mem_fresh s
               in (Inr i,
                   s\<lparr>mem_jobs := (mem_jobs s)(r :=
                       \<lparr>mj_id = i, mj_queue = rq_queue rq, mj_maxAttempts = dl_attempts (rq_delivery rq),
                        mj_envelope = stored_envelope (rq_envelope rq), mj_state = Waiting,
                        mj_attempts = 0, mj_attemptsStarted = 0, mj_failure = None\<rparr>),
                     mem_fresh := Suc r, mem_recorded := mem_recorded s @ [r],
                     mem_pending := mem_pending s @ [r]\<rparr>)))"

definition memory_get :: "string \<Rightarrow> string \<Rightarrow> (memory, job_snapshot option) io" where
  "memory_get queue i s =
     (case jobAt s queue i of
        None \<Rightarrow> (Inr None, s)
      | Some r \<Rightarrow>
          let job = mem_jobs s r
          in (Inr (Some \<lparr>js_id = mj_id job, js_queue = mj_queue job, js_name = env_name (mj_envelope job),
                 js_state = mj_state job, js_envelope = Some (mj_envelope job),
                 js_attempts = mj_attempts job, js_maxAttempts = mj_maxAttempts job,
                 js_failure = mj_failure job\<rparr>), s))"

definition memory_retry :: "string \<Rightarrow> string \<Rightarrow> (memory, retry_result) io" where
  "memory_retry queue i s =
     (case jobAt s queue i of
        None \<Rightarrow> (Inr RetryUnknownJob, s)
      | Some r \<Rightarrow>
          if mj_state (mem_jobs s r) \<noteq> Failed then (Inr (NotFailed (mj_state (mem_jobs s r))), s)
          else (Inr Retried,
                (update_job r (\<lambda>j. j\<lparr>mj_state := Waiting, mj_attempts := 0, mj_failure := None\<rparr>) s)
                  \<lparr>mem_pending := mem_pending s @ [r]\<rparr>))"

definition memory_requestCancel :: "string \<Rightarrow> string \<Rightarrow> nat \<Rightarrow> memory \<Rightarrow> memory" where
  "memory_requestCancel queue i started s =
     s\<lparr>mem_marked := (mem_marked s)(composeJobId queue i \<mapsto> started)\<rparr>"

definition memory_cancel :: "string \<Rightarrow> string \<Rightarrow> (memory, cancel_result) io" where
  "memory_cancel queue i s =
     (case jobAt s queue i of
        None \<Rightarrow> (Inr CancelUnknownJob, s)
      | Some r \<Rightarrow>
          let job = mem_jobs s r
          in if mj_state job = Completed \<or> mj_state job = Failed then (Inr (Finished (mj_state job)), s)
             else if mj_state job = Active
               then (Inr Aborting, memory_requestCancel queue (mj_id job) (mj_attemptsStarted job) s)
             else (Inr Removed,
                   s\<lparr>mem_pending := splice_out r (mem_pending s),
                     mem_recorded := splice_out r (mem_recorded s)\<rparr>))"

definition takeCancellation :: "string \<Rightarrow> running_delivery \<Rightarrow> memory \<Rightarrow> bool \<times> memory" where
  "takeCancellation queue d s =
     (let key = composeJobId queue (rd_id d)
      in if mem_marked s key \<noteq> Some (rd_attemptsStarted d) then (False, s)
         else (True, s\<lparr>mem_marked := (mem_marked s)(key := None)\<rparr>))"

fun take_all :: "string \<Rightarrow> running_delivery list \<Rightarrow> memory \<Rightarrow> running_delivery list \<times> memory" where
  "take_all queue [] s = ([], s)"
| "take_all queue (d # ds) s =
     (let (taken, s1) = takeCancellation queue d s;
          (rest, s2) = take_all queue ds s1
      in (if taken then d # rest else rest, s2))"

definition memory_takeCancelled ::
    "string \<Rightarrow> running_delivery list \<Rightarrow> (memory, running_delivery list) io" where
  "memory_takeCancelled queue running s = (case take_all queue running s of (taken, s') \<Rightarrow> (Inr taken, s'))"

definition memory_pause :: "string \<Rightarrow> (memory, unit) io" where
  "memory_pause queue s = (Inr (), s\<lparr>mem_paused := insert queue (mem_paused s)\<rparr>)"

definition memory_resume :: "string \<Rightarrow> (memory, unit) io" where
  "memory_resume queue s = (Inr (), s\<lparr>mem_paused := mem_paused s - {queue}\<rparr>)"

text \<open>\<open>run\<close> is the number the registered function is kept by.\<close>

definition memory_consume :: "string \<Rightarrow> queue_limiter option \<Rightarrow> nat \<Rightarrow> (memory, unit) io" where
  "memory_consume queue limiter run s =
     (if limiter \<noteq> None then (Inl (unsupported ''limiter''), s)
      else (Inr (), s\<lparr>mem_consumers := (mem_consumers s)(queue \<mapsto> run)\<rparr>))"

definition memory_close :: "string \<Rightarrow> (memory, unit) io" where
  "memory_close queue s = (Inr (), s\<lparr>mem_consumers := (mem_consumers s)(queue := None)\<rparr>)"

definition memory_reconcileSchedules :: "string \<Rightarrow> schedule_upsert list \<Rightarrow> (memory, unit) io" where
  "memory_reconcileSchedules queue declared s =
     (if declared = [] then (Inr (), s) else (Inl (unsupported ''schedule''), s))"

definition memory_flow_enqueue :: "flow_node \<Rightarrow> (memory, string) io" where
  "memory_flow_enqueue node = throw_io (unsupported ''a job that waits on children'')"

definition memory_flow_read :: "string \<Rightarrow> string \<Rightarrow> (memory, flow_state) io" where
  "memory_flow_read queue i =
     throw_io (unsupported ''what the children of a job that waits on children settled into'')"

section \<open>The dead queues\<close>

definition deadQueueFor :: "string \<Rightarrow> memory \<Rightarrow> memory_dead_queue \<times> memory" where
  "deadQueueFor queue s =
     (case mem_buried s queue of
        Some dead \<Rightarrow> (dead, s)
      | None \<Rightarrow>
          let opened = \<lparr>mq_entries = [], mq_deaths = 0\<rparr>
          in (opened, s\<lparr>mem_buried := (mem_buried s)(queue \<mapsto> opened)\<rparr>))"

definition memory_bury :: "string \<Rightarrow> dead_entry \<Rightarrow> (memory, unit) io" where
  "memory_bury queue entry s =
     (let (dead, s') = deadQueueFor queue s;
          deaths = mq_deaths dead + 1
      in (Inr (), s'\<lparr>mem_buried := (mem_buried s')(queue \<mapsto>
           \<lparr>mq_entries = AList.update (show_nat deaths) (stored_entry entry) (mq_entries dead),
            mq_deaths = deaths\<rparr>)\<rparr>))"

definition memory_dead_list :: "string \<Rightarrow> (memory, (string \<times> dead_entry) list) io" where
  "memory_dead_list queue s =
     (Inr (case mem_buried s queue of None \<Rightarrow> [] | Some dead \<Rightarrow> mq_entries dead), s)"

definition memory_dead_read :: "string \<Rightarrow> string \<Rightarrow> (memory, dead_entry option) io" where
  "memory_dead_read queue i s =
     (Inr (case mem_buried s queue of None \<Rightarrow> None | Some dead \<Rightarrow> map_of (mq_entries dead) i), s)"

definition memory_dead_remove :: "string \<Rightarrow> string \<Rightarrow> (memory, bool) io" where
  "memory_dead_remove queue i s =
     (case mem_buried s queue of
        None \<Rightarrow> (Inr False, s)
      | Some dead \<Rightarrow>
          (Inr (map_of (mq_entries dead) i \<noteq> None),
           s\<lparr>mem_buried := (mem_buried s)(queue \<mapsto>
             dead\<lparr>mq_entries := AList.delete i (mq_entries dead)\<rparr>)\<rparr>))"

section \<open>The store of leases\<close>

text \<open>\<open>asJsonKeeps\<close>: every value of the model has a JSON text.\<close>

definition asJsonKeeps :: "kept_result \<Rightarrow> kept_result" where
  "asJsonKeeps kept = (case kept of None \<Rightarrow> None | Some v \<Rightarrow> stringify v)"

definition memory_acquire :: "string \<Rightarrow> string \<Rightarrow> nat \<Rightarrow> (memory, idempotency_lease) io" where
  "memory_acquire key uuid ms s =
     (case mem_kept s key of
        Some kept \<Rightarrow> (Inr (LeaseComplete kept), s)
      | None \<Rightarrow>
          if mem_leased s key \<noteq> None then (Inr LeaseHeld, s)
          else (Inr (LeaseAcquired uuid), s\<lparr>mem_leased := (mem_leased s)(key \<mapsto> uuid)\<rparr>))"

definition memory_renew :: "string \<Rightarrow> string \<Rightarrow> nat \<Rightarrow> (memory, unit) io" where
  "memory_renew key token ms = ret_io ()"

definition memory_complete :: "string \<Rightarrow> string \<Rightarrow> kept_result \<Rightarrow> nat \<Rightarrow> (memory, unit) io" where
  "memory_complete key token result ms s =
     (if mem_leased s key \<noteq> None \<and> mem_leased s key \<noteq> Some token then (Inr (), s)
      else (Inr (), s\<lparr>mem_leased := (mem_leased s)(key := None),
                     mem_kept := (mem_kept s)(key \<mapsto> asJsonKeeps result)\<rparr>))"

definition memory_release :: "string \<Rightarrow> string \<Rightarrow> (memory, unit) io" where
  "memory_release key token s =
     (if mem_leased s key \<noteq> Some token then (Inr (), s)
      else (Inr (), s\<lparr>mem_leased := (mem_leased s)(key := None)\<rparr>))"

definition memory_forget :: "string \<Rightarrow> (memory, forget_outcome) io" where
  "memory_forget key s =
     (if mem_leased s key \<noteq> None then (Inr Running, s)
      else if mem_kept s key \<noteq> None then (Inr Forgotten, s\<lparr>mem_kept := (mem_kept s)(key := None)\<rparr>)
      else (Inr NotFound, s))"

definition memory_idempotency :: "memory idempotency_store" where
  "memory_idempotency =
     \<lparr>ids_acquire = memory_acquire, ids_renew = memory_renew, ids_complete = memory_complete,
      ids_release = memory_release, ids_forget = memory_forget\<rparr>"

definition memoryDriver :: "memory job_driver" where
  "memoryDriver =
     \<lparr>drv_enqueue = memory_enqueue, drv_get = memory_get, drv_retry = memory_retry,
      drv_cancel = memory_cancel, drv_takeCancelled = memory_takeCancelled,
      drv_pause = memory_pause, drv_resume = memory_resume,
      drv_reconcileSchedules = memory_reconcileSchedules,
      drv_dead_bury = memory_bury, drv_dead_list = memory_dead_list,
      drv_dead_read = memory_dead_read, drv_dead_remove = memory_dead_remove,
      drv_flow_enqueue = memory_flow_enqueue, drv_flow_read = memory_flow_read,
      drv_idempotency = memory_idempotency\<rparr>"

section \<open>Running\<close>

text \<open>
  \<open>runNext\<close> in the two parts its one \<open>await\<close> cuts it into: what it does before it
  calls the consumer, and what it does with how the consumer settled.
\<close>

definition begin_run :: "memory \<Rightarrow> thrown + nat \<times> nat \<times> job_delivery \<times> memory" where
  "begin_run s =
     (case runnable s of
        None \<Rightarrow>
          if mem_pending s \<noteq> []
          then Inl (new_error C_Error
       (''jubs: memoryDriver has every pending job on a paused queue'' @ dash @
        ''call jobs.resume(queue) to run them''))
          else Inl (new_error C_Error ''jubs: memoryDriver has no pending job to run'')
      | Some next \<Rightarrow>
          let job = mem_jobs s next in
          (case mem_consumers s (mj_queue job) of
             None \<Rightarrow> Inl (new_error C_Error
       (''jubs: memoryDriver has no consumer on queue '' @ quoted (mj_queue job) @ dash @
        ''call jobs.start(handlers) before running jobs''))
           | Some run \<Rightarrow>
               Inr (next, run,
                 \<lparr>rd_id = mj_id job, rd_attemptsStarted = mj_attemptsStarted job + 1,
                  jdv_attempt = mj_attempts job + 1, jdv_maxAttempts = mj_maxAttempts job,
                  jdv_envelope = json (envelope_object (mj_envelope job))\<rparr>,
                 (update_job next (\<lambda>j. j\<lparr>mj_state := Active, mj_attemptsStarted := mj_attemptsStarted j + 1\<rparr>) s)
                   \<lparr>mem_pending := splice_out next (mem_pending s)\<rparr>)))"

definition settle_run :: "nat \<Rightarrow> thrown + jval \<Rightarrow> (memory, unit) io" where
  "settle_run next outcome s =
     (case outcome of
        Inr v \<Rightarrow>
          (Inr (), update_job next (\<lambda>j. j\<lparr>mj_state := Completed, mj_attempts := mj_attempts j + 1\<rparr>) s)
      | Inl e \<Rightarrow>
          if instance_of e C_LeaseHeldError
          then (Inl (unsupported ''rescheduling a delivery whose idempotency lease is held''),
                (update_job next (\<lambda>j. j\<lparr>mj_state := Waiting\<rparr>) s)\<lparr>mem_pending := next # mem_pending s\<rparr>)
          else (Inl e, update_job next (\<lambda>j. j\<lparr>mj_state := Failed, mj_attempts := mj_attempts j + 1,
                          mj_failure := Some (message_of e)\<rparr>) s))"

definition runNext :: "(nat \<Rightarrow> job_delivery \<Rightarrow> (memory, jval) io) \<Rightarrow> (memory, unit) io" where
  "runNext runs s =
     (case begin_run s of
        Inl e \<Rightarrow> (Inl e, s)
      | Inr (next, run, delivery, s1) \<Rightarrow>
          (case runs run delivery s1 of (outcome, s2) \<Rightarrow> settle_run next outcome s2))"

text \<open>A \<open>drain\<close> whose handlers keep enqueuing never ends: that is \<open>None\<close>.\<close>

partial_function (option) drain_from ::
    "(nat \<Rightarrow> job_delivery \<Rightarrow> (memory, jval) io) \<Rightarrow> nat \<Rightarrow> memory \<Rightarrow> ((thrown + nat) \<times> memory) option" where
  "drain_from runs n s =
     (if runnable s = None then Some (Inr n, s)
      else (case runNext runs s of
              (Inl e, s') \<Rightarrow> Some (Inl e, s')
            | (Inr _, s') \<Rightarrow> drain_from runs (n + 1) s'))"

definition drain ::
    "(nat \<Rightarrow> job_delivery \<Rightarrow> (memory, jval) io) \<Rightarrow> memory \<Rightarrow> ((thrown + nat) \<times> memory) option" where
  "drain runs s = drain_from runs 0 s"

definition enqueued :: "job_definition \<Rightarrow> memory \<Rightarrow> jval list" where
  "enqueued d s =
     map (\<lambda>r. env_data (mj_envelope (mem_jobs s r)))
       (filter (\<lambda>r. env_name (mj_envelope (mem_jobs s r)) = jd_name d) (mem_recorded s))"


section \<open>The memory store keeps the contract of a store of leases\<close>

definition memory_view :: "memory \<Rightarrow> string \<Rightarrow> key_state" where
  "memory_view s k =
     (case mem_kept s k of
        Some kept \<Rightarrow> Complete kept
      | None \<Rightarrow> (case mem_leased s k of Some t \<Rightarrow> HeldBy t | None \<Rightarrow> Absent))"

text \<open>No key is held and complete at once.\<close>

definition lease_inv :: "memory \<Rightarrow> bool" where
  "lease_inv s \<longleftrightarrow> (\<forall>k. mem_kept s k = None \<or> mem_leased s k = None)"

lemma lease_invD: "lease_inv s \<Longrightarrow> mem_leased s k = Some t \<Longrightarrow> mem_kept s k = None"
  unfolding lease_inv_def by (metis option.distinct(1))

lemmas memory_store_defs =
  memory_idempotency_def memory_acquire_def memory_renew_def memory_complete_def
  memory_release_def memory_forget_def

interpretation memory_leases: lease_store memory_idempotency memory_view lease_inv stored_kept
proof (unfold_locales, goal_cases acquire renew complete stale release forget)
  case (acquire s ms k t)
  then show ?case
    by (auto simp: memory_store_defs memory_view_def lease_for_def lease_inv_def fun_eq_iff
        split: option.splits)
next
  case (renew s ms k t)
  then show ?case by (simp add: memory_store_defs)
next
  case (complete s ms k t kept)
  then show ?case
    by (auto simp: memory_store_defs memory_view_def lease_inv_def fun_eq_iff asJsonKeeps_def
        stored_kept_def split: option.splits if_splits)
next
  case (stale s ms k t' t kept)
  then show ?case
    by (auto simp: memory_store_defs memory_view_def split: option.splits if_splits)
next
  case (release s k t)
  then show ?case
    by (auto simp: memory_store_defs memory_view_def lease_inv_def fun_eq_iff dest: lease_invD
        split: option.splits)
next
  case (forget s k)
  then show ?case
    by (auto simp: memory_store_defs memory_view_def lease_inv_def forget_for_def fun_eq_iff
        dest: spec [of _ k] split: option.splits key_state.splits)
qed


section \<open>The invariant of every reachable state\<close>

text \<open>
  No reference occurs twice, every recorded job was put in the store, the line
  holds exactly the recorded jobs that wait, and a recorded job is in one of the
  four states an inline run passes through.
\<close>

definition line_inv :: "memory \<Rightarrow> bool" where
  "line_inv s \<longleftrightarrow>
     distinct (mem_recorded s) \<and> distinct (mem_pending s) \<and>
     (\<forall>r \<in> set (mem_recorded s). r < mem_fresh s \<and>
        mj_state (mem_jobs s r) \<in> {Waiting, Active, Completed, Failed}) \<and>
     set (mem_pending s) = {r \<in> set (mem_recorded s). mj_state (mem_jobs s r) = Waiting}"

definition memory_inv :: "memory \<Rightarrow> bool" where
  "memory_inv s \<longleftrightarrow> line_inv s \<and> lease_inv s"

text \<open>
  One step is one operation of the driver. A run that is under way is a job that
  is active, so any number of runs interleave with the operations of clients.
\<close>

inductive memory_step :: "memory \<Rightarrow> memory \<Rightarrow> bool" where
  step_enqueue: "memory_step s (snd (memory_enqueue rq s))"
| step_retry: "memory_step s (snd (memory_retry q i s))"
| step_cancel: "memory_step s (snd (memory_cancel q i s))"
| step_take: "memory_step s (snd (memory_takeCancelled q running s))"
| step_pause: "memory_step s (snd (memory_pause q s))"
| step_resume: "memory_step s (snd (memory_resume q s))"
| step_consume: "memory_step s (snd (memory_consume q limiter run s))"
| step_close: "memory_step s (snd (memory_close q s))"
| step_bury: "memory_step s (snd (memory_bury q entry s))"
| step_remove: "memory_step s (snd (memory_dead_remove q i s))"
| step_acquire: "memory_step s (snd (memory_acquire k t ms s))"
| step_complete: "memory_step s (snd (memory_complete k t kept ms s))"
| step_release: "memory_step s (snd (memory_release k t s))"
| step_forget: "memory_step s (snd (memory_forget k s))"
| step_begin: "begin_run s = Inr (next, run, delivery, s') \<Longrightarrow> memory_step s s'"
| step_settle: "next \<in> set (mem_recorded s) \<Longrightarrow> mj_state (mem_jobs s next) = Active \<Longrightarrow>
     memory_step s (snd (settle_run next outcome s))"

lemma jobAt_Some: "jobAt s q i = Some r \<Longrightarrow>
    r \<in> set (mem_recorded s) \<and> mj_queue (mem_jobs s r) = q \<and> mj_id (mem_jobs s r) = i"
  unfolding jobAt_def by (drule find_Some_in) simp

lemma runnable_Some: "runnable s = Some r \<Longrightarrow>
    r \<in> set (mem_pending s) \<and> mj_queue (mem_jobs s r) \<notin> mem_paused s"
  unfolding runnable_def by (drule find_Some_in) simp

lemma set_splice_out [simp]: "distinct xs \<Longrightarrow> x \<in> set xs \<Longrightarrow> set (splice_out x xs) = set xs - {x}"
  by (simp add: splice_out_def)

lemma distinct_splice_out [simp]: "distinct xs \<Longrightarrow> distinct (splice_out x xs)"
  by (simp add: splice_out_def distinct_butlast)

lemma update_job_sel [simp]:
  "mem_jobs (update_job r f s) = (mem_jobs s)(r := f (mem_jobs s r))"
  "mem_fresh (update_job r f s) = mem_fresh s" "mem_recorded (update_job r f s) = mem_recorded s"
  "mem_pending (update_job r f s) = mem_pending s" "mem_paused (update_job r f s) = mem_paused s"
  "mem_consumers (update_job r f s) = mem_consumers s" "mem_leased (update_job r f s) = mem_leased s"
  "mem_kept (update_job r f s) = mem_kept s" "mem_marked (update_job r f s) = mem_marked s"
  "mem_buried (update_job r f s) = mem_buried s"
  by (simp_all add: update_job_def)

text \<open>The fields an operation leaves alone carry the invariant over.\<close>

lemma line_inv_frame:
  "line_inv s \<Longrightarrow> mem_jobs s' = mem_jobs s \<Longrightarrow> mem_fresh s' = mem_fresh s \<Longrightarrow>
    mem_recorded s' = mem_recorded s \<Longrightarrow> mem_pending s' = mem_pending s \<Longrightarrow> line_inv s'"
  by (simp add: line_inv_def)

lemma lease_inv_frame:
  "lease_inv s \<Longrightarrow> mem_kept s' = mem_kept s \<Longrightarrow> mem_leased s' = mem_leased s \<Longrightarrow> lease_inv s'"
  by (simp add: lease_inv_def)

lemma marks_same: "\<exists>m. s = s\<lparr>mem_marked := m\<rparr>"
  by (rule exI [of _ "mem_marked s"]) simp

lemma takeCancellation_marks: "\<exists>m. snd (takeCancellation q d s) = s\<lparr>mem_marked := m\<rparr>"
  by (auto simp: takeCancellation_def Let_def marks_same)

lemma take_all_marks: "\<exists>m. snd (take_all q ds s) = s\<lparr>mem_marked := m\<rparr>"
proof (induction ds arbitrary: s)
  case Nil
  show ?case by (simp add: marks_same)
next
  case (Cons d ds)
  obtain taken s1 where one: "takeCancellation q d s = (taken, s1)" by fastforce
  with takeCancellation_marks [of q d s] obtain m where "s1 = s\<lparr>mem_marked := m\<rparr>" by auto
  with Cons [of s1] show ?case by (auto simp: one split: prod.splits)
qed

lemma takeCancelled_marks: "\<exists>m. snd (memory_takeCancelled q ds s) = s\<lparr>mem_marked := m\<rparr>"
  using take_all_marks [of q ds s] by (cases "take_all q ds s") (simp add: memory_takeCancelled_def)

lemma line_inv_new_job:
  assumes "line_inv s" and "mj_state job = Waiting"
  shows "line_inv (s\<lparr>mem_jobs := (mem_jobs s)(mem_fresh s := job), mem_fresh := Suc (mem_fresh s),
      mem_recorded := mem_recorded s @ [mem_fresh s], mem_pending := mem_pending s @ [mem_fresh s]\<rparr>)"
proof -
  have fresh: "mem_fresh s \<notin> set (mem_recorded s)"
    using assms(1) by (auto simp: line_inv_def)
  moreover have "mem_fresh s \<notin> set (mem_pending s)"
    using assms(1) fresh by (simp add: line_inv_def)
  ultimately show ?thesis
    using assms by (auto simp: line_inv_def)
qed

lemma enqueue_line_inv: "line_inv s \<Longrightarrow> line_inv (snd (memory_enqueue rq s))"
  by (simp add: memory_enqueue_def Let_def line_inv_new_job split: option.split)

lemma line_inv_to_line:
  assumes "line_inv s" and "r \<in> set (mem_recorded s)" and "mj_state (mem_jobs s r) \<noteq> Waiting"
    and "mj_state (f (mem_jobs s r)) = Waiting" and "mset ps = add_mset r (mset (mem_pending s))"
  shows "line_inv ((update_job r f s)\<lparr>mem_pending := ps\<rparr>)"
proof -
  have "r \<notin> set (mem_pending s)" using assms(1,3) by (simp add: line_inv_def)
  moreover have "distinct ps \<longleftrightarrow> distinct (r # mem_pending s)"
    using assms(5) by (metis mset.simps(2) mset_eq_imp_distinct_iff)
  moreover have "set ps = insert r (set (mem_pending s))"
    using assms(5) by (metis set_mset_add_mset_insert set_mset_mset)
  ultimately show ?thesis
    using assms by (auto simp: line_inv_def)
qed

lemma retry_line_inv: "line_inv s \<Longrightarrow> line_inv (snd (memory_retry q i s))"
  by (auto simp: memory_retry_def jobAt_Some intro!: line_inv_to_line split: option.split)

lemma cancel_line_inv:
  assumes "line_inv s"
  shows "line_inv (snd (memory_cancel q i s))"
proof (cases "jobAt s q i")
  case None
  with assms show ?thesis by (simp add: memory_cancel_def)
next
  case (Some r)
  then have r: "r \<in> set (mem_recorded s)" by (simp add: jobAt_Some)
  show ?thesis
  proof (cases "mj_state (mem_jobs s r) = Waiting")
    case True
    with assms r have "r \<in> set (mem_pending s)" by (simp add: line_inv_def)
    with assms r True Some show ?thesis
      by (auto simp: memory_cancel_def line_inv_def)
  next
    case False
    with assms r have "mj_state (mem_jobs s r) \<in> {Active, Completed, Failed}"
      by (auto simp: line_inv_def)
    with Some show ?thesis
      by (auto simp: memory_cancel_def memory_requestCancel_def Let_def assms intro: line_inv_frame [OF assms])
  qed
qed

lemma begin_run_Inr:
  assumes "begin_run s = Inr (next, run, delivery, s')"
  shows "runnable s = Some next \<and> mem_consumers s (mj_queue (mem_jobs s next)) = Some run \<and>
    rd_id delivery = mj_id (mem_jobs s next) \<and>
    rd_attemptsStarted delivery = mj_attemptsStarted (mem_jobs s next) + 1 \<and>
    jdv_attempt delivery = mj_attempts (mem_jobs s next) + 1 \<and>
    jdv_maxAttempts delivery = mj_maxAttempts (mem_jobs s next) \<and>
    jdv_envelope delivery = json (envelope_object (mj_envelope (mem_jobs s next))) \<and>
    s' = (update_job next (\<lambda>j. j\<lparr>mj_state := Active, mj_attemptsStarted := mj_attemptsStarted j + 1\<rparr>) s)
       \<lparr>mem_pending := splice_out next (mem_pending s)\<rparr>"
  using assms by (auto simp: begin_run_def Let_def split: option.splits if_splits)

lemma begin_line_inv:
  assumes "line_inv s" and "begin_run s = Inr (next, run, delivery, s')"
  shows "line_inv s'"
proof -
  from begin_run_Inr [OF assms(2)] have "next \<in> set (mem_pending s)"
    and s': "s' = (update_job next (\<lambda>j. j\<lparr>mj_state := Active, mj_attemptsStarted := mj_attemptsStarted j + 1\<rparr>) s)
       \<lparr>mem_pending := splice_out next (mem_pending s)\<rparr>"
    by (simp_all add: runnable_Some)
  with assms(1) show ?thesis by (auto simp: line_inv_def)
qed

lemma settle_line_inv:
  "line_inv s \<Longrightarrow> next \<in> set (mem_recorded s) \<Longrightarrow> mj_state (mem_jobs s next) = Active \<Longrightarrow>
    line_inv (snd (settle_run next outcome s))"
  by (auto simp: settle_run_def line_inv_def split: sum.splits)

lemmas memory_op_defs =
  memory_enqueue_def memory_retry_def memory_cancel_def memory_requestCancel_def
  memory_pause_def memory_resume_def memory_consume_def memory_close_def
  memory_bury_def memory_dead_remove_def deadQueueFor_def settle_run_def

lemma memory_step_line_inv: "memory_step s s' \<Longrightarrow> line_inv s \<Longrightarrow> line_inv s'"
proof (induction rule: memory_step.induct)
  case (step_take s q running)
  then show ?case
    using takeCancelled_marks [of q running s] by (auto intro: line_inv_frame)
qed (auto simp: enqueue_line_inv retry_line_inv cancel_line_inv begin_line_inv settle_line_inv
    memory_pause_def memory_resume_def memory_consume_def memory_close_def memory_bury_def
    memory_dead_remove_def deadQueueFor_def memory_store_defs Let_def
    split: option.splits elim!: line_inv_frame)

lemma memory_step_lease_inv: "memory_step s s' \<Longrightarrow> lease_inv s \<Longrightarrow> lease_inv s'"
proof (induction rule: memory_step.induct)
  case (step_take s q running)
  then show ?case
    using takeCancelled_marks [of q running s] by (auto intro: lease_inv_frame)
next
  case (step_begin s "next" run delivery s')
  then show ?case by (auto dest!: begin_run_Inr intro: lease_inv_frame)
next
  case (step_acquire s k t ms)
  then show ?case by (auto simp: memory_store_defs lease_inv_def split: option.splits)
next
  case (step_complete s k t kept ms)
  then show ?case by (auto simp: memory_store_defs lease_inv_def split: option.splits)
next
  case (step_release s k t)
  then show ?case by (auto simp: memory_store_defs lease_inv_def)
next
  case (step_forget s k)
  then show ?case by (auto simp: memory_store_defs lease_inv_def)
qed (auto simp: memory_op_defs Let_def split: option.splits sum.splits elim!: lease_inv_frame)

lemma memory_start_inv: "memory_inv memoryDriver_start"
  by (simp add: memory_inv_def line_inv_def lease_inv_def memoryDriver_start_def)

lemma reachable_memory_inv: "memory_step\<^sup>*\<^sup>* memoryDriver_start s \<Longrightarrow> memory_inv s"
proof (induction rule: rtranclp_induct)
  case base
  show ?case by (rule memory_start_inv)
next
  case (step s s')
  then show ?case
    by (auto simp: memory_inv_def intro: memory_step_line_inv memory_step_lease_inv)
qed


section \<open>What the operations do\<close>

lemma jobAt_enqueued:
  assumes "memory_enqueue rq s = (Inr i, s')" and "given_id rq = Some j"
  shows "i = j \<and> (\<exists>r. jobAt s' (rq_queue rq) j = Some r \<and> mj_id (mem_jobs s' r) = j)"
proof (cases "jobAt s (rq_queue rq) j")
  case None
  then have old: "\<And>r. r \<in> set (mem_recorded s) \<Longrightarrow>
      \<not> (mj_queue (mem_jobs s r) = rq_queue rq \<and> mj_id (mem_jobs s r) = j)"
    by (simp add: jobAt_def find_None_iff)
  from assms None have s': "i = j" "mem_recorded s' = mem_recorded s @ [mem_fresh s]"
    "mj_queue (mem_jobs s' (mem_fresh s)) = rq_queue rq" "mj_id (mem_jobs s' (mem_fresh s)) = j"
    by (auto simp: memory_enqueue_def Let_def split: option.splits)
  then have "jobAt s' (rq_queue rq) j \<noteq> None"
    by (auto simp: jobAt_def find_None_iff)
  with s'(1) show ?thesis by (auto dest: jobAt_Some)
next
  case (Some r)
  with assms have "i = mj_id (mem_jobs s r)" "s' = s"
    by (auto simp: memory_enqueue_def split: option.splits)
  with Some jobAt_Some [OF Some] show ?thesis by auto
qed

lemma enqueue_again:
  assumes "memory_enqueue rq s = (Inr i, s')" and "given_id rq = Some j"
    and "given_id rq' = Some j" and "rq_queue rq' = rq_queue rq" and "rejected_option (rq_delivery rq') = None"
    and "\<And>r. jobAt s' (rq_queue rq) j = Some r \<Longrightarrow>
      jobAt s'' (rq_queue rq) j = Some r \<and> mj_id (mem_jobs s'' r) = mj_id (mem_jobs s' r)"
  shows "memory_enqueue rq' s'' = (Inr i, s'')"
proof -
  from jobAt_enqueued [OF assms(1,2)] obtain r where
    r: "i = j" "jobAt s' (rq_queue rq) j = Some r" "mj_id (mem_jobs s' r) = j" by blast
  with assms(6) have "jobAt s'' (rq_queue rq) j = Some r" "mj_id (mem_jobs s'' r) = j" by auto
  with assms(3-5) r(1) show ?thesis by (simp add: memory_enqueue_def)
qed

lemma composeJobId_same_queue [simp]: "composeJobId q i = composeJobId q j \<longleftrightarrow> i = j"
  by (simp add: composeJobId_def)

definition cancelled_in :: "memory \<Rightarrow> string \<Rightarrow> running_delivery \<Rightarrow> bool" where
  "cancelled_in s q d \<longleftrightarrow> mem_marked s (composeJobId q (rd_id d)) = Some (rd_attemptsStarted d)"

lemma take_all_filter:
  "distinct ds \<Longrightarrow>
    take_all q ds s = (filter (cancelled_in s q) ds,
      s\<lparr>mem_marked := (\<lambda>k. if \<exists>d \<in> set ds. cancelled_in s q d \<and> k = composeJobId q (rd_id d)
                          then None else mem_marked s k)\<rparr>)"
proof (induction ds arbitrary: s)
  case Nil
  show ?case by simp
next
  case (Cons d ds)
  let ?s1 = "s\<lparr>mem_marked := (mem_marked s)(composeJobId q (rd_id d) := None)\<rparr>"
  have same: "cancelled_in ?s1 q e = cancelled_in s q e" if "e \<in> set ds" "cancelled_in s q d" for e
  proof -
    from that(1) Cons.prems have "e \<noteq> d" by auto
    then have "rd_id e \<noteq> rd_id d \<or> rd_attemptsStarted e \<noteq> rd_attemptsStarted d" by auto
    with that(2) show ?thesis by (auto simp: cancelled_in_def)
  qed
  show ?case
  proof (cases "cancelled_in s q d")
    case True
    then have one: "takeCancellation q d s = (True, ?s1)"
      by (simp add: takeCancellation_def cancelled_in_def)
    have "filter (cancelled_in ?s1 q) ds = filter (cancelled_in s q) ds"
      by (rule filter_cong) (simp_all add: same True)
    moreover have "(\<lambda>k. if \<exists>e \<in> set ds. cancelled_in s q e \<and> k = composeJobId q (rd_id e) then None
          else mem_marked ?s1 k) =
        (\<lambda>k. if \<exists>e \<in> set (d # ds). cancelled_in s q e \<and> k = composeJobId q (rd_id e) then None
          else mem_marked s k)"
      using True by (auto simp: fun_eq_iff)
    ultimately show ?thesis
      using Cons.IH [of ?s1] Cons.prems one True same by simp
  next
    case False
    then have "takeCancellation q d s = (False, s)"
      by (simp add: takeCancellation_def cancelled_in_def)
    with Cons.IH [of s] Cons.prems False show ?thesis by simp
  qed
qed

text \<open>\<open>drain\<close> ends as soon as no run adds to the line.\<close>

definition adds_no_job :: "(nat \<Rightarrow> job_delivery \<Rightarrow> (memory, jval) io) \<Rightarrow> bool" where
  "adds_no_job runs \<longleftrightarrow>
     (\<forall>run d s. length (mem_pending (snd (runs run d s))) \<le> length (mem_pending s))"

lemma runNext_shortens:
  assumes "runNext runs s = (Inr u, s')" and "adds_no_job runs"
  shows "length (mem_pending s') < length (mem_pending s)"
proof -
  from assms(1) obtain "next" run d s1 where b: "begin_run s = Inr (next, run, d, s1)"
    by (auto simp: runNext_def split: sum.splits)
  obtain out s2 where r: "runs run d s1 = (out, s2)" by fastforce
  with assms(1) b have "settle_run next out s2 = (Inr u, s')"
    by (simp add: runNext_def)
  then have "mem_pending s' = mem_pending s2"
    by (auto simp: settle_run_def split: sum.splits if_splits)
  also have "length (mem_pending s2) \<le> length (mem_pending s1)"
    using assms(2) r unfolding adds_no_job_def by (metis snd_conv)
  also have "length (mem_pending s1) < length (mem_pending s)"
  proof -
    have "next \<in> set (mem_pending s)" and "mem_pending s1 = splice_out next (mem_pending s)"
      using begin_run_Inr [OF b] by (simp_all add: runnable_Some)
    then show ?thesis
      by (cases "mem_pending s = []") (simp_all add: splice_out_def length_remove1)
  qed
  finally show ?thesis .
qed

lemma drain_from_ends:
  assumes "adds_no_job runs"
  shows "\<exists>out s'. drain_from runs n s = Some (out, s') \<and>
    (\<forall>m. out = Inr m \<longrightarrow> runnable s' = None \<and> m \<le> n + length (mem_pending s))"
proof (induction "length (mem_pending s)" arbitrary: n s rule: less_induct)
  case less
  show ?case
  proof (cases "runnable s")
    case None
    then show ?thesis by (subst drain_from.simps) simp
  next
    case (Some r)
    obtain out s' where rn: "runNext runs s = (out, s')" by fastforce
    show ?thesis
    proof (cases out)
      case (Inl e)
      with Some rn show ?thesis by (subst drain_from.simps) simp
    next
      case (Inr u)
      with rn assms have shorter: "length (mem_pending s') < length (mem_pending s)"
        by (auto intro: runNext_shortens)
      from less [OF this, of "n + 1"] obtain out' s'' where
        d: "drain_from runs (n + 1) s' = Some (out', s'')"
          "\<forall>m. out' = Inr m \<longrightarrow> runnable s'' = None \<and> m \<le> n + 1 + length (mem_pending s')"
        by blast
      with Some rn Inr have "drain_from runs n s = Some (out', s'')"
        by (subst drain_from.simps) simp
      with d(2) shorter show ?thesis by fastforce
    qed
  qed
qed

section \<open>The dead queues keep their records\<close>

text \<open>The ids of one dead queue are the numbers of its burials, each used once.\<close>

definition dead_inv :: "memory \<Rightarrow> bool" where
  "dead_inv s \<longleftrightarrow> (\<forall>q dead. mem_buried s q = Some dead \<longrightarrow>
     distinct (map fst (mq_entries dead)) \<and>
     fst ` set (mq_entries dead) \<subseteq> show_nat ` {1..mq_deaths dead})"

definition records :: "memory \<Rightarrow> string \<Rightarrow> (string \<times> dead_entry) list" where
  "records s q = (case mem_buried s q of None \<Rightarrow> [] | Some dead \<Rightarrow> mq_entries dead)"

lemma update_new_key: "k \<notin> fst ` set xs \<Longrightarrow> AList.update k v xs = xs @ [(k, v)]"
  by (induction xs) auto

lemma memory_bury_law:
  assumes "dead_inv s"
  shows "\<exists>i s'. memory_bury q e s = (Inr (), s') \<and> dead_inv s' \<and> i \<notin> fst ` set (records s q) \<and>
    records s' = (records s)(q := records s q @ [(i, stored_entry e)])"
proof -
  define dead where "dead = (case mem_buried s q of None \<Rightarrow> \<lparr>mq_entries = [], mq_deaths = 0\<rparr> | Some dead \<Rightarrow> dead)"
  define entries deaths where "entries = mq_entries dead" and "deaths = mq_deaths dead"
  have entries: "entries = records s q"
    by (simp add: records_def entries_def dead_def split: option.splits)
  have known: "distinct (map fst entries)" "fst ` set entries \<subseteq> show_nat ` {1..deaths}"
  proof -
    have "distinct (map fst entries) \<and> fst ` set entries \<subseteq> show_nat ` {1..deaths}"
      using assms unfolding dead_inv_def entries_def deaths_def dead_def
      by (cases "mem_buried s q") simp_all
    then show "distinct (map fst entries)" "fst ` set entries \<subseteq> show_nat ` {1..deaths}" by simp_all
  qed
  let ?i = "show_nat (Suc deaths)"
  have new: "?i \<notin> fst ` set entries" using known(2) by auto
  let ?s = "s\<lparr>mem_buried := (mem_buried s)(q \<mapsto> \<lparr>mq_entries = entries @ [(?i, stored_entry e)], mq_deaths = Suc deaths\<rparr>)\<rparr>"
  have "memory_bury q e s = (Inr (), ?s)"
    using update_new_key [OF new, of "stored_entry e"]
    by (simp add: memory_bury_def deadQueueFor_def entries_def deaths_def dead_def Let_def split: option.splits)
  moreover have "dead_inv ?s"
    using assms known new by (auto simp: dead_inv_def subset_iff image_iff Bex_def)
  moreover have "records ?s = (records s)(q := records s q @ [(?i, stored_entry e)])"
    by (auto simp: fun_eq_iff records_def entries)
  ultimately show ?thesis using new entries by blast
qed


lemma memory_dead_remove_law:
  assumes "dead_inv s"
  shows "\<exists>s'. memory_dead_remove q i s = (Inr (i \<in> fst ` set (records s q)), s') \<and> dead_inv s' \<and>
    records s' = (records s)(q := filter (\<lambda>e. fst e \<noteq> i) (records s q))"
proof (cases "mem_buried s q")
  case None
  then have "records s q = []" by (simp add: records_def)
  then show ?thesis using None assms by (auto simp: memory_dead_remove_def fun_eq_iff)
next
  case (Some dead)
  let ?s = "s\<lparr>mem_buried := (mem_buried s)(q \<mapsto> dead\<lparr>mq_entries := AList.delete i (mq_entries dead)\<rparr>)\<rparr>"
  have del: "AList.delete i xs = filter (\<lambda>e. fst e \<noteq> i) xs" for xs :: "(string \<times> dead_entry) list"
    unfolding AList.delete_eq by (rule filter_cong) auto
  have "memory_dead_remove q i s = (Inr (i \<in> fst ` set (records s q)), ?s)"
    using Some by (auto simp: memory_dead_remove_def records_def map_of_eq_None_iff)
  moreover have "dead_inv ?s"
  proof -
    have "distinct (map fst (mq_entries dead))" "fst ` set (mq_entries dead) \<subseteq> show_nat ` {1..mq_deaths dead}"
      using assms Some unfolding dead_inv_def by blast+
    then have "distinct (map fst (AList.delete i (mq_entries dead)))"
      "fst ` set (AList.delete i (mq_entries dead)) \<subseteq> show_nat ` {1..mq_deaths dead}"
      by (auto simp: del distinct_map_filter)
    with assms show ?thesis by (simp add: dead_inv_def)
  qed
  moreover have "records ?s = (records s)(q := filter (\<lambda>e. fst e \<noteq> i) (records s q))"
    using Some by (auto simp: fun_eq_iff records_def del)
  ultimately show ?thesis by blast
qed

lemma memory_dead_reads:
  "memory_dead_list q s = (Inr (records s q), s)"
  "memory_dead_read q i s = (Inr (map_of (records s q) i), s)"
  by (simp_all add: memory_dead_list_def memory_dead_read_def records_def split: option.splits)

end
