(* ===== verification/RedisStore.thy ===== *)
theory RedisStore
  imports Idempotency
begin

text \<open>
  The scripts this library runs inside Redis, and the two stores written over them
  (\<open>src/src/RedisDriver.ts\<close>): the leases of the idempotency keys and the marks of
  cancelled deliveries. Each Lua script is one function over the keyspace, since
  Redis runs a script as one atomic step.

  A key holds a text and the instant it expires at; time is the field \<open>rk_now\<close>, and
  a key whose instant has come is gone. The text of a lease opens with
  \<open>RUNNING_PREFIX\<close>; the text of a completed key is the JSON text of what it keeps,
  and is parsed when a later delivery meets it.
\<close>

section \<open>The keyspace\<close>

record redis =
  rk_now :: nat
  rk_keys :: "string \<Rightarrow> (string \<times> nat) option"

definition redis_get :: "string \<Rightarrow> redis \<Rightarrow> string option" where
  "redis_get key s =
     (case rk_keys s key of
        None \<Rightarrow> None
      | Some (v, expires) \<Rightarrow> if rk_now s < expires then Some v else None)"

definition redis_set_px :: "string \<Rightarrow> string \<Rightarrow> nat \<Rightarrow> redis \<Rightarrow> redis" where
  "redis_set_px key v ms s = s\<lparr>rk_keys := (rk_keys s)(key \<mapsto> (v, rk_now s + ms))\<rparr>"

definition redis_del :: "string \<Rightarrow> redis \<Rightarrow> redis" where
  "redis_del key s = s\<lparr>rk_keys := (rk_keys s)(key := None)\<rparr>"

definition redis_pexpire :: "string \<Rightarrow> nat \<Rightarrow> redis \<Rightarrow> redis" where
  "redis_pexpire key ms s =
     (case redis_get key s of
        None \<Rightarrow> s
      | Some v \<Rightarrow> s\<lparr>rk_keys := (rk_keys s)(key \<mapsto> (v, rk_now s + ms))\<rparr>)"

text \<open>The clock of Redis moving on.\<close>

definition redis_wait :: "nat \<Rightarrow> redis \<Rightarrow> redis" where
  "redis_wait ms s = s\<lparr>rk_now := rk_now s + ms\<rparr>"

section \<open>The scripts\<close>

definition IDEMPOTENCY_KEY_PREFIX :: string where
  "IDEMPOTENCY_KEY_PREFIX = ''jubs:idem:''"

definition RUNNING_PREFIX :: string where
  "RUNNING_PREFIX = ''running:''"

definition CANCEL_MARK_TTL_MS :: nat where
  "CANCEL_MARK_TTL_MS = 30000"

text \<open>The reply of \<open>ACQUIRE_LUA\<close>: the value the key holds, or nothing where it was free.\<close>

definition ACQUIRE_LUA :: "string \<Rightarrow> string \<Rightarrow> nat \<Rightarrow> redis \<Rightarrow> string option \<times> redis" where
  "ACQUIRE_LUA key v ms s =
     (case redis_get key s of
        Some current \<Rightarrow> (Some current, s)
      | None \<Rightarrow> (None, redis_set_px key v ms s))"

definition RENEW_LUA :: "string \<Rightarrow> string \<Rightarrow> nat \<Rightarrow> redis \<Rightarrow> nat \<times> redis" where
  "RENEW_LUA key v ms s =
     (if redis_get key s = Some v then (1, redis_pexpire key ms s) else (0, s))"

definition COMPLETE_LUA :: "string \<Rightarrow> string \<Rightarrow> string \<Rightarrow> nat \<Rightarrow> redis \<Rightarrow> nat \<times> redis" where
  "COMPLETE_LUA key v kept ms s =
     (if redis_get key s \<noteq> None \<and> redis_get key s \<noteq> Some v then (0, s)
      else (1, redis_set_px key kept ms s))"

definition RELEASE_LUA :: "string \<Rightarrow> string \<Rightarrow> redis \<Rightarrow> nat \<times> redis" where
  "RELEASE_LUA key v s =
     (if redis_get key s = Some v then (1, redis_del key s) else (0, s))"

definition FORGET_LUA :: "string \<Rightarrow> string \<Rightarrow> redis \<Rightarrow> nat \<times> redis" where
  "FORGET_LUA key running_prefix s =
     (case redis_get key s of
        None \<Rightarrow> (0, s)
      | Some current \<Rightarrow>
          if starts_with running_prefix current then (2, s) else (1, redis_del key s))"

text \<open>
  The loop of \<open>TAKE_CANCELLED_LUA\<close> over the pairs of its arguments: \<open>position\<close> is the
  place of the pair, counted from 1, and the reply lists the places it took.
\<close>

fun take_loop :: "string \<Rightarrow> nat \<Rightarrow> (string \<times> string) list \<Rightarrow> redis \<Rightarrow> nat list \<times> redis" where
  "take_loop key_prefix position [] s = ([], s)"
| "take_loop key_prefix position ((i, started) # rest) s =
     (let key = key_prefix @ i in
      if redis_get key s = Some started
      then (case take_loop key_prefix (Suc position) rest (redis_del key s) of
              (taken, s') \<Rightarrow> (position # taken, s'))
      else take_loop key_prefix (Suc position) rest s)"

definition TAKE_CANCELLED_LUA :: "string \<Rightarrow> (string \<times> string) list \<Rightarrow> redis \<Rightarrow> nat list \<times> redis" where
  "TAKE_CANCELLED_LUA key_prefix arguments s = take_loop key_prefix 1 arguments s"

section \<open>The store of leases\<close>

definition redisKey :: "string \<Rightarrow> string" where
  "redisKey key = IDEMPOTENCY_KEY_PREFIX @ key"

definition heldBy :: "string \<Rightarrow> string" where
  "heldBy token = RUNNING_PREFIX @ token"

text \<open>The object a kept result is, the text it is stored as, and reading one back.\<close>

definition kept_object :: "kept_result \<Rightarrow> jval" where
  "kept_object kept = JObj (case kept of None \<Rightarrow> [] | Some v \<Rightarrow> [(''result'', v)])"

definition kept_text :: "kept_result \<Rightarrow> string" where
  "kept_text kept = json_written (json (kept_object kept))"

definition read_kept :: "jval \<Rightarrow> kept_result" where
  "read_kept v = (if has_prop v ''result'' then Some (get_prop v ''result'') else None)"

text \<open>
  The reply of a script that found the key taken is its text. A text that is neither a
  lease nor JSON is nothing these scripts write; parsing it throws, and the text stands
  for the message of the engine.
\<close>

definition readLease :: "string option \<Rightarrow> string \<Rightarrow> thrown + idempotency_lease" where
  "readLease reply token =
     (case reply of
        None \<Rightarrow> Inr (LeaseAcquired token)
      | Some current \<Rightarrow>
          if starts_with RUNNING_PREFIX current then Inr LeaseHeld
          else (case json_parse current of
                  Some v \<Rightarrow> Inr (LeaseComplete (read_kept v))
                | None \<Rightarrow> Inl (new_error (C_User ''SyntaxError'' False) current)))"

definition readForgotten :: "nat \<Rightarrow> forget_outcome" where
  "readForgotten reply = (if reply = 1 then Forgotten else if reply = 2 then Running else NotFound)"

definition redis_acquire :: "string \<Rightarrow> string \<Rightarrow> nat \<Rightarrow> (redis, idempotency_lease) io" where
  "redis_acquire key uuid ms s =
     (case ACQUIRE_LUA (redisKey key) (heldBy uuid) ms s of
        (reply, s') \<Rightarrow> (readLease reply uuid, s'))"

definition redis_renew :: "string \<Rightarrow> string \<Rightarrow> nat \<Rightarrow> (redis, unit) io" where
  "redis_renew key token ms s = (Inr (), snd (RENEW_LUA (redisKey key) (heldBy token) ms s))"

definition redis_complete :: "string \<Rightarrow> string \<Rightarrow> kept_result \<Rightarrow> nat \<Rightarrow> (redis, unit) io" where
  "redis_complete key token kept ms s =
     (Inr (), snd (COMPLETE_LUA (redisKey key) (heldBy token) (kept_text kept) ms s))"

definition redis_release :: "string \<Rightarrow> string \<Rightarrow> (redis, unit) io" where
  "redis_release key token s = (Inr (), snd (RELEASE_LUA (redisKey key) (heldBy token) s))"

definition redis_forget :: "string \<Rightarrow> (redis, forget_outcome) io" where
  "redis_forget key s =
     (case FORGET_LUA (redisKey key) RUNNING_PREFIX s of (reply, s') \<Rightarrow> (Inr (readForgotten reply), s'))"

definition redisIdempotency :: "redis idempotency_store" where
  "redisIdempotency =
     \<lparr>ids_acquire = redis_acquire, ids_renew = redis_renew, ids_complete = redis_complete,
      ids_release = redis_release, ids_forget = redis_forget\<rparr>"

section \<open>The marks of cancelled deliveries\<close>

definition redis_requestCancel :: "string \<Rightarrow> running_delivery \<Rightarrow> redis \<Rightarrow> redis" where
  "redis_requestCancel queue d s =
     redis_set_px (cancelPrefix queue @ rd_id d) (show_nat (rd_attemptsStarted d))
       CANCEL_MARK_TTL_MS s"

text \<open>\<open>running[Number(position) - 1]\<close>, left out where there is none.\<close>

definition at_positions :: "'a list \<Rightarrow> nat list \<Rightarrow> 'a list" where
  "at_positions xs ps = concat (map (\<lambda>p. if 1 \<le> p \<and> p \<le> length xs then [xs ! (p - 1)] else []) ps)"

definition redis_takeCancelled :: "string \<Rightarrow> running_delivery list \<Rightarrow> (redis, running_delivery list) io" where
  "redis_takeCancelled queue running s =
     (if running = [] then (Inr [], s)
      else (case TAKE_CANCELLED_LUA (cancelPrefix queue)
                   (map (\<lambda>d. (rd_id d, show_nat (rd_attemptsStarted d))) running) s of
              (taken, s') \<Rightarrow> (Inr (at_positions running taken), s')))"

section \<open>The Redis store keeps the contract of a store of leases\<close>

definition text_state :: "string option \<Rightarrow> key_state" where
  "text_state reply =
     (case reply of
        None \<Rightarrow> Absent
      | Some t \<Rightarrow>
          if starts_with RUNNING_PREFIX t then HeldBy (drop (length RUNNING_PREFIX) t)
          else (case json_parse t of None \<Rightarrow> Absent | Some v \<Rightarrow> Complete (read_kept v)))"

definition redis_view :: "redis \<Rightarrow> string \<Rightarrow> key_state" where
  "redis_view s k = text_state (redis_get (redisKey k) s)"

text \<open>Every live key under the prefix of the leases is a lease or a kept result.\<close>

definition redis_inv :: "redis \<Rightarrow> bool" where
  "redis_inv s \<longleftrightarrow>
     (\<forall>k v. redis_get (redisKey k) s = Some v \<longrightarrow>
        (\<exists>t. v = heldBy t) \<or> (\<exists>kept. v = kept_text kept))"

text \<open>What Redis gives back of a kept result: its object, written and parsed.\<close>

definition redis_kept :: "kept_result \<Rightarrow> kept_result" where
  "redis_kept kept = read_kept (reread (json (kept_object kept)))"

lemma redisKey_inject [simp]: "redisKey a = redisKey b \<longleftrightarrow> a = b"
  by (simp add: redisKey_def)

lemma heldBy_inject [simp]: "heldBy a = heldBy b \<longleftrightarrow> a = b"
  by (simp add: heldBy_def)

lemma starts_with_heldBy [simp]: "starts_with RUNNING_PREFIX (heldBy t)"
  by (simp add: heldBy_def starts_with_append)

lemma starts_with_kept [simp]: "\<not> starts_with RUNNING_PREFIX (kept_text kept)"
  by (simp add: kept_text_def kept_object_def starts_with_def RUNNING_PREFIX_def)

lemma heldBy_neq_kept [simp]: "heldBy a \<noteq> kept_text kept" "kept_text kept \<noteq> heldBy a"
  using starts_with_heldBy starts_with_kept by metis+

lemma parse_kept_text [simp]: "json_parse (kept_text kept) = Some (reread (json (kept_object kept)))"
  by (simp add: kept_text_def json_parse_written)

lemma text_state_simps [simp]:
  "text_state None = Absent" "text_state (Some (heldBy t)) = HeldBy t"
  "text_state (Some (kept_text kept)) = Complete (redis_kept kept)"
  by (simp_all add: text_state_def redis_kept_def) (simp add: heldBy_def)

lemma readLease_simps [simp]:
  "readLease None token = Inr (LeaseAcquired token)"
  "readLease (Some (heldBy t)) token = Inr LeaseHeld"
  "readLease (Some (kept_text kept)) token = Inr (LeaseComplete (redis_kept kept))"
  by (simp_all add: readLease_def redis_kept_def)

lemma redis_get_set [simp]:
  "0 < ms \<Longrightarrow> redis_get k' (redis_set_px k v ms s) = (if k' = k then Some v else redis_get k' s)"
  by (simp add: redis_get_def redis_set_px_def split: option.split)

lemma redis_get_del [simp]:
  "redis_get k' (redis_del k s) = (if k' = k then None else redis_get k' s)"
  by (simp add: redis_get_def redis_del_def split: option.split)

lemma redis_get_pexpire [simp]:
  "0 < ms \<Longrightarrow> redis_get k' (redis_pexpire k ms s) = redis_get k' s"
  by (auto simp: redis_get_def redis_pexpire_def split: option.splits if_splits)

lemma read_kept_json: "read_kept (json (kept_object kept)) = stored_kept kept"
  by (cases kept) (auto simp: read_kept_def kept_object_def stored_kept_def stringify_def)

text \<open>A result the language can hold comes back as JSON keeps it.\<close>

lemma redis_kept_plain:
  assumes "\<And>v. kept = Some v \<Longrightarrow> plain_value v"
  shows "redis_kept kept = stored_kept kept"
proof -
  have "plain_value (kept_object kept)"
    using assms by (cases kept) (simp_all add: kept_object_def)
  then show ?thesis by (simp add: redis_kept_def reread_json read_kept_json)
qed

lemma redis_kept_simps [simp]:
  "redis_kept None = None" "redis_kept (Some (JStr s)) = Some (JStr s)"
  using redis_kept_plain [of None] redis_kept_plain [of "Some (JStr s)"]
  by (simp_all add: stored_kept_def stringify_def)

text \<open>What a key of a well-formed keyspace holds, by the state it is in.\<close>

lemma redis_view_cases:
  assumes "redis_inv s"
  obtains (free) "redis_get (redisKey k) s = None" "redis_view s k = Absent"
  | (held) t where "redis_get (redisKey k) s = Some (heldBy t)" "redis_view s k = HeldBy t"
  | (complete) kept where "redis_get (redisKey k) s = Some (kept_text kept)" "redis_view s k = Complete (redis_kept kept)"
proof (cases "redis_get (redisKey k) s")
  case None
  with free show thesis by (simp add: redis_view_def)
next
  case (Some v)
  with assms have "(\<exists>t. v = heldBy t) \<or> (\<exists>kept. v = kept_text kept)" by (auto simp: redis_inv_def)
  with Some held complete show thesis by (auto simp: redis_view_def)
qed

lemmas redis_store_defs =
  redisIdempotency_def redis_acquire_def redis_renew_def redis_complete_def redis_release_def
  redis_forget_def ACQUIRE_LUA_def RENEW_LUA_def COMPLETE_LUA_def RELEASE_LUA_def FORGET_LUA_def
  readForgotten_def lease_for_def forget_for_def

lemma redis_inv_set:
  "redis_inv s \<Longrightarrow> 0 < ms \<Longrightarrow> (\<exists>t. v = heldBy t) \<or> (\<exists>kept. v = kept_text kept) \<Longrightarrow>
    redis_inv (redis_set_px (redisKey k) v ms s)"
  by (auto simp: redis_inv_def)

lemma redis_inv_set_text [simp]:
  "redis_inv s \<Longrightarrow> 0 < ms \<Longrightarrow> redis_inv (redis_set_px (redisKey k) (heldBy t) ms s)"
  "redis_inv s \<Longrightarrow> 0 < ms \<Longrightarrow> redis_inv (redis_set_px (redisKey k) (kept_text kept) ms s)"
  by (rule redis_inv_set; blast)+

lemma redis_inv_other [simp]:
  "redis_inv s \<Longrightarrow> redis_inv (redis_del k s)"
  "redis_inv s \<Longrightarrow> 0 < ms \<Longrightarrow> redis_inv (redis_pexpire k ms s)"
  by (auto simp: redis_inv_def)

lemma redis_view_set [simp]:
  "0 < ms \<Longrightarrow> redis_view (redis_set_px (redisKey k) v ms s) = (redis_view s)(k := text_state (Some v))"
  by (simp add: fun_eq_iff redis_view_def)

lemma redis_view_del [simp]: "redis_view (redis_del (redisKey k) s) = (redis_view s)(k := Absent)"
  by (simp add: fun_eq_iff redis_view_def)

lemma redis_view_pexpire [simp]: "0 < ms \<Longrightarrow> redis_view (redis_pexpire k ms s) = redis_view s"
  by (simp add: fun_eq_iff redis_view_def)

interpretation redis_leases: lease_store redisIdempotency redis_view redis_inv redis_kept
proof (unfold_locales, goal_cases acquire renew complete stale release forget)
  case (acquire s ms k t)
  from acquire(1) show ?case
    by (rule redis_view_cases [where k = k])
      (use acquire in \<open>simp_all add: redis_store_defs redis_inv_set fun_upd_idem\<close>)
next
  case (renew s ms k t)
  then show ?case by (simp add: redis_store_defs)
next
  case (complete s ms k t kept)
  from complete(1) show ?case
    by (rule redis_view_cases [where k = k])
      (use complete in \<open>simp_all add: redis_store_defs redis_inv_set\<close>)
next
  case (stale s ms k t' t kept)
  from stale(1) show ?case
    by (rule redis_view_cases [where k = k]) (use stale in \<open>simp_all add: redis_store_defs\<close>)
next
  case (release s k t)
  from release(1) show ?case
    by (rule redis_view_cases [where k = k]) (use release in \<open>auto simp: redis_store_defs\<close>)
next
  case (forget s k)
  from forget(1) show ?case
    by (rule redis_view_cases [where k = k]) (use forget in \<open>simp_all add: redis_store_defs fun_upd_idem\<close>)
qed

section \<open>Leases and time\<close>

lemma redis_inv_wait: "redis_inv s \<Longrightarrow> redis_inv (redis_wait ms s)"
  by (auto simp: redis_inv_def redis_wait_def redis_get_def split: option.splits if_splits)

lemma redis_get_wait_set:
  "redis_get k (redis_wait d (redis_set_px k v ms s)) = (if d < ms then Some v else None)"
  by (simp add: redis_get_def redis_wait_def redis_set_px_def)

lemma redis_get_wait_pexpire:
  "redis_get k s = Some v \<Longrightarrow>
    redis_get k (redis_wait d (redis_pexpire k ms s)) = (if d < ms then Some v else None)"
  by (simp add: redis_pexpire_def) (simp add: redis_get_def redis_wait_def)

lemma redis_renew_keeps:
  assumes "redis_inv s" and "redis_view s k = HeldBy t"
  shows "redis_view (redis_wait d (snd (redis_renew k t ms s))) k = (if d < ms then HeldBy t else Absent)"
proof -
  from assms have get: "redis_get (redisKey k) s = Some (heldBy t)"
    by (auto elim: redis_view_cases [where k = k])
  then have "snd (redis_renew k t ms s) = redis_pexpire (redisKey k) ms s"
    by (simp add: redis_renew_def RENEW_LUA_def)
  with redis_get_wait_pexpire [OF get, of d ms] show ?thesis by (simp add: redis_view_def)
qed

end
