(* ===== verification/RedisDriver.thy ===== *)
theory RedisDriver
  imports Aborts DeadLetters RedisStore "HOL-Library.Multiset"
begin

text \<open>
  The driver over Redis (\<open>src/src/RedisDriver.ts\<close>). BullMQ is a package the driver
  calls: it is the record \<open>bullmq\<close> of the operations the driver uses, a parameter of
  every definition below. What the driver does around those calls is modelled in
  full: the options a delivery is stored with, the tree a flow is added as, the
  reading of what children settled into, and the branches of each operation.
\<close>

section \<open>The options a job is stored with\<close>

record deduplication =
  dd_id :: string
  dd_ttl :: "jnum option"
  dd_extend :: bool
  dd_replace :: bool
  dd_keepLastIfActive :: bool

record template_options =
  to_attempts :: jnum
  to_backoff :: backoff
  to_priority :: jnum
  to_removeOnCompleteAge :: jnum
  to_removeOnFailCount :: jnum

record jobs_options = template_options +
  jo_deduplication :: "deduplication option"
  jo_delay :: "jnum option"
  jo_jobId :: "string option"
  jo_ignoreDependencyOnFailure :: bool

datatype repeat_options = RepeatEvery jnum | RepeatPattern string "string option"

fun toDeduplication :: "resolved_unique \<Rightarrow> deduplication" where
  "toDeduplication (RNoOverlap key) =
     \<lparr>dd_id = key, dd_ttl = None, dd_extend = False, dd_replace = False, dd_keepLastIfActive = True\<rparr>"
| "toDeduplication (RKeepLast key ttl) =
     \<lparr>dd_id = key, dd_ttl = Some ttl, dd_extend = True, dd_replace = True, dd_keepLastIfActive = False\<rparr>"
| "toDeduplication (RKeepFirst key ttl) =
     \<lparr>dd_id = key, dd_ttl = ttl, dd_extend = False, dd_replace = False, dd_keepLastIfActive = False\<rparr>"

definition toTemplateOptions :: "delivery \<Rightarrow> template_options" where
  "toTemplateOptions d =
     \<lparr>to_attempts = dl_attempts d, to_backoff = dl_backoff d, to_priority = dl_priority d,
      to_removeOnCompleteAge = round_thousandth (dl_keepCompletedForMs d),
      to_removeOnFailCount = dl_keepFailedCount d\<rparr>"

fun toRepeatOptions :: "schedule_upsert \<Rightarrow> repeat_options" where
  "toRepeatOptions u =
     (case su_recurrence u of
        EveryMs ms \<Rightarrow> RepeatEvery ms
      | Pattern p \<Rightarrow>
          (case su_timezone u of
             None \<Rightarrow> RepeatPattern p None
           | Some z \<Rightarrow> if z = [] then RepeatPattern p None else RepeatPattern p (Some z)))"

definition refusedRecurrence :: "schedule_upsert \<Rightarrow> string" where
  "refusedRecurrence u =
     (case su_recurrence u of
        EveryMs ms \<Rightarrow> ''the interval of '' @ num_text ms @ ''ms''
      | Pattern p \<Rightarrow> ''the pattern '' @ quoted p)"

definition refusedSchedule :: "schedule_upsert \<Rightarrow> thrown \<Rightarrow> thrown" where
  "refusedSchedule u e =
     with_cause (new_error C_Error
       (''jubs: redis refused the schedule of the job '' @ quoted (env_name (su_envelope u)) @ dash @
        ''correct '' @ refusedRecurrence u @ '' its definition declares, or the time zone it runs in'' @ dash @
        message_of e)) e"

definition toJobsOptions :: "delivery \<Rightarrow> jobs_options" where
  "toJobsOptions d =
     template_options.extend (toTemplateOptions d)
       \<lparr>jo_deduplication = map_option toDeduplication (dl_unique d), jo_delay = dl_delayMs d,
        jo_jobId = None, jo_ignoreDependencyOnFailure = False\<rparr>"

definition toEnqueueOptions :: "enqueue_request \<Rightarrow> jobs_options" where
  "toEnqueueOptions rq =
     (let options = toJobsOptions (rq_delivery rq)
      in case rq_jobId rq of None \<Rightarrow> options | Some i \<Rightarrow> options\<lparr>jo_jobId := Some i\<rparr>)"

section \<open>The tree a flow is added as\<close>

datatype flow_job =
  FlowJob (fj_name: string) (fj_queueName: string) (fj_data: envelope) (fj_opts: jobs_options)
    (fj_children: "flow_job list")

text \<open>
  \<open>uuid\<close> is the sequence of values \<open>randomUUID()\<close> gives, and \<open>n\<close> how many were taken.
  A child is mapped before its own id is made, as the code does it.
\<close>

fun toFlowJob :: "(nat \<Rightarrow> string) \<Rightarrow> nat \<Rightarrow> flow_node \<Rightarrow> flow_job \<times> nat"
  and toDependentFlowJobs :: "(nat \<Rightarrow> string) \<Rightarrow> nat \<Rightarrow> (string \<times> flow_node) list \<Rightarrow> flow_job list \<times> nat" where
  "toFlowJob uuid n (FlowNode queue env dl children) =
     (case toDependentFlowJobs uuid n children of
        (jobs, n') \<Rightarrow> (FlowJob (env_name env) queue env (toJobsOptions dl) jobs, n'))"
| "toDependentFlowJobs uuid n [] = ([], n)"
| "toDependentFlowJobs uuid n ((slot, node) # rest) =
     (case toFlowJob uuid n node of
        (FlowJob name queue env opts children, n1) \<Rightarrow>
          (case toDependentFlowJobs uuid (Suc n1) rest of
             (jobs, n2) \<Rightarrow>
               (FlowJob name queue env
                  (opts\<lparr>jo_jobId := Some (composeChildId slot (uuid n1)), jo_ignoreDependencyOnFailure := True\<rparr>)
                  children # jobs, n2)))"

section \<open>What the children of a flow settled into\<close>

text \<open>A hash is the list of its fields, and the reply of a script a value.\<close>

definition childValue :: "string \<Rightarrow> jval" where
  "childValue stored = (case json_parse stored of None \<Rightarrow> JUndefined | Some v \<Rightarrow> v)"

text \<open>
  The entries at the even places, each beside the one behind it; behind the last
  entry of an odd list there is nothing, which reads as \<open>undefined\<close>.
\<close>

fun pair_up :: "jval list \<Rightarrow> (string \<times> string) list" where
  "pair_up [] = []"
| "pair_up [k] = [(js_string k, ''undefined'')]"
| "pair_up (k # v # rest) = (js_string k, js_string v) # pair_up rest"

fun hashEntries :: "jval \<Rightarrow> (string \<times> string) list" where
  "hashEntries (JArr flat) = pair_up flat"
| "hashEntries v = []"

fun reply_part :: "jval \<Rightarrow> nat \<Rightarrow> jval" where
  "reply_part (JArr parts) n = (if n < length parts then parts ! n else JUndefined)"
| "reply_part v n = JUndefined"

definition readFlowState :: "jval \<Rightarrow> flow_state" where
  "readFlowState reply =
     \<lparr>fs_results = map (\<lambda>(key, v). case readChildKey key of (queue, storedId) \<Rightarrow>
          \<lparr>cr_slot = readChildSlot storedId, cr_value = childValue v\<rparr>) (hashEntries (reply_part reply 0)),
      fs_failures = map (\<lambda>(key, v). case readChildKey key of (queue, storedId) \<Rightarrow>
          \<lparr>cf_id = composeJobId queue storedId, cf_slot = readChildSlot storedId, cf_reason = v\<rparr>)
          (hashEntries (reply_part reply 1)),
      fs_pending = (case reply_part reply 2 of JNum n \<Rightarrow> n | _ \<Rightarrow> JFin 0)\<rparr>"

definition flat_hash :: "(string \<times> string) list \<Rightarrow> jval" where
  "flat_hash entries = JArr (concat (map (\<lambda>(k, v). [JStr k, JStr v]) entries))"

text \<open>\<open>hgetall\<close> and \<open>scard\<close> read the keys BullMQ keeps.\<close>

definition READ_FLOW_LUA :: "(string \<Rightarrow> (string \<times> string) list) \<Rightarrow> (string \<Rightarrow> nat) \<Rightarrow> string \<Rightarrow> jval" where
  "READ_FLOW_LUA hgetall scard key =
     JArr [flat_hash (hgetall (key @ '':processed'')), flat_hash (hgetall (key @ '':failed'')),
           JNum (of_count (scard (key @ '':dependencies'')))]"

section \<open>BullMQ, as far as the driver calls it\<close>

datatype bull_state =
  BWaiting | BPrioritized | BActive | BDelayed | BCompleted | BFailed | BWaitingChildren | BUnknown

fun JOB_STATES :: "bull_state \<Rightarrow> job_state" where
  "JOB_STATES BWaiting = Waiting"
| "JOB_STATES BPrioritized = Waiting"
| "JOB_STATES BActive = Active"
| "JOB_STATES BDelayed = Delayed"
| "JOB_STATES BCompleted = Completed"
| "JOB_STATES BFailed = Failed"
| "JOB_STATES BWaitingChildren = WaitingChildren"
| "JOB_STATES BUnknown = UnknownState"

record bull_job =
  bj_id :: "string option"
  bj_name :: string
  bj_data :: jval
  bj_attemptsMade :: nat
  bj_attemptsStarted :: nat
  bj_attempts :: "jnum option"
  bj_failedReason :: "string option"

text \<open>
  The option of \<open>bq_remove\<close> is \<open>removeChildren\<close>, absent where the call passes none.
\<close>

record 'b bullmq =
  bq_add :: "string \<Rightarrow> string \<Rightarrow> jval \<Rightarrow> jobs_options option \<Rightarrow> ('b, string option) io"
  bq_getJob :: "string \<Rightarrow> string \<Rightarrow> ('b, bull_job option) io"
  bq_getState :: "string \<Rightarrow> string \<Rightarrow> ('b, bull_state) io"
  bq_retry :: "string \<Rightarrow> string \<Rightarrow> ('b, unit) io"
  bq_remove :: "string \<Rightarrow> string \<Rightarrow> bool option \<Rightarrow> ('b, unit) io"
  bq_pause :: "string \<Rightarrow> ('b, unit) io"
  bq_resume :: "string \<Rightarrow> ('b, unit) io"
  bq_getWaiting :: "string \<Rightarrow> ('b, bull_job list) io"
  bq_getJobSchedulers :: "string \<Rightarrow> ('b, string list) io"
  bq_removeJobScheduler :: "string \<Rightarrow> string \<Rightarrow> ('b, unit) io"
  bq_upsertJobScheduler ::
    "string \<Rightarrow> string \<Rightarrow> repeat_options \<Rightarrow> envelope \<Rightarrow> template_options \<Rightarrow> ('b, unit) io"
  bq_flow_add :: "flow_job \<Rightarrow> ('b, string option) io"
  bq_toKey :: "string \<Rightarrow> string \<Rightarrow> string"
  bq_hgetall :: "string \<Rightarrow> 'b \<Rightarrow> (string \<times> string) list"
  bq_scard :: "string \<Rightarrow> 'b \<Rightarrow> nat"
  bq_moveToDelayed :: "string \<Rightarrow> string \<Rightarrow> nat \<Rightarrow> string \<Rightarrow> ('b, unit) io"
  bq_moveToWaitingChildren :: "string \<Rightarrow> string \<Rightarrow> string \<Rightarrow> ('b, bool) io"

text \<open>What the driver acts on: BullMQ's own state, and the keys of the driver's scripts.\<close>

record 'b redis_world =
  rw_bull :: 'b
  rw_redis :: redis

definition on_bull :: "('b, 'a) io \<Rightarrow> ('b redis_world, 'a) io" where
  "on_bull m w = (case m (rw_bull w) of (r, b) \<Rightarrow> (r, w\<lparr>rw_bull := b\<rparr>))"

definition on_redis :: "(redis, 'a) io \<Rightarrow> ('b redis_world, 'a) io" where
  "on_redis m w = (case m (rw_redis w) of (r, k) \<Rightarrow> (r, w\<lparr>rw_redis := k\<rparr>))"

section \<open>The operations\<close>

text \<open>The connection options \<open>assertBlockingConnection\<close> looks through.\<close>

datatype connection_shape =
  ConnectionShape (cs_isCluster: bool) (cs_maxRetries: jval) (cs_redisOptions: "jval option")
    (cs_options: "(jval \<times> jval option) option")

text \<open>
  Each \<open>jval\<close> is the \<open>maxRetriesPerRequest\<close> of the options it stands for; the pair in
  \<open>cs_options\<close> is that of \<open>options\<close> and of \<open>options.redisOptions\<close>.
\<close>

definition blockingOptions :: "connection_shape \<Rightarrow> jval option" where
  "blockingOptions c =
     (if cs_isCluster c
      then (case cs_options c of
              Some (_, Some inner) \<Rightarrow> Some inner
            | _ \<Rightarrow> cs_redisOptions c)
      else (case cs_options c of
              Some (retries, _) \<Rightarrow> Some retries
            | None \<Rightarrow> (case cs_redisOptions c of Some r \<Rightarrow> Some r | None \<Rightarrow> Some (cs_maxRetries c))))"

fun truthy :: "jval \<Rightarrow> bool" where
  "truthy JUndefined = False"
| "truthy JNull = False"
| "truthy (JBool b) = b"
| "truthy (JNum n) = num_truthy n"
| "truthy (JStr s) = (s \<noteq> [])"
| "truthy v = True"

definition notBlocking :: "thrown" where
  "notBlocking =
     new_error C_Error
       (''jubs: the Redis connection passed to redisDriver must be created with '' @
        ''`maxRetriesPerRequest: null`, because a BullMQ worker opens a blocking connection'' @ dash @
        ''new Redis(url, { maxRetriesPerRequest: null })'')"

definition assertBlockingConnection :: "connection_shape \<Rightarrow> thrown + unit" where
  "assertBlockingConnection c =
     (case blockingOptions c of
        None \<Rightarrow> Inr ()
      | Some retries \<Rightarrow>
          if \<not> truthy retries then Inr ()
          else Inl notBlocking)"

definition storedEnvelope :: "jval \<Rightarrow> envelope option" where
  "storedEnvelope stored = (case readEnvelope stored of Inr e \<Rightarrow> Some e | Inl _ \<Rightarrow> None)"

definition redis_enqueue :: "'b bullmq \<Rightarrow> enqueue_request \<Rightarrow> ('b redis_world, string) io" where
  "redis_enqueue bull rq =
     bind_io (on_bull (bq_add bull (rq_queue rq) (env_name (rq_envelope rq))
                (envelope_object (rq_envelope rq)) (Some (toEnqueueOptions rq))))
       (\<lambda>i. case i of
          Some j \<Rightarrow> if j = [] then throw_io (new_error C_Error (''jubs: redis stored job '' @
                        quoted (env_name (rq_envelope rq)) @ '' without an id''))
                    else ret_io j
        | None \<Rightarrow> throw_io (new_error C_Error (''jubs: redis stored job '' @
                    quoted (env_name (rq_envelope rq)) @ '' without an id'')))"

definition redis_get_job :: "'b bullmq \<Rightarrow> string \<Rightarrow> string \<Rightarrow> ('b redis_world, job_snapshot option) io" where
  "redis_get_job bull queue i =
     bind_io (on_bull (bq_getJob bull queue i)) (\<lambda>found.
       case found of
         None \<Rightarrow> ret_io None
       | Some job \<Rightarrow>
           bind_io (on_bull (bq_getState bull queue i)) (\<lambda>state.
             ret_io (Some \<lparr>js_id = i, js_queue = queue, js_name = bj_name job,
               js_state = JOB_STATES state, js_envelope = storedEnvelope (bj_data job),
               js_attempts = bj_attemptsMade job, js_maxAttempts = or_else (bj_attempts job) (JFin 1),
               js_failure = (case bj_failedReason job of Some r \<Rightarrow> if r = [] then None else Some r | None \<Rightarrow> None)\<rparr>)))"

definition redis_retry :: "'b bullmq \<Rightarrow> string \<Rightarrow> string \<Rightarrow> ('b redis_world, retry_result) io" where
  "redis_retry bull queue i =
     bind_io (on_bull (bq_getJob bull queue i)) (\<lambda>found.
       case found of
         None \<Rightarrow> ret_io RetryUnknownJob
       | Some job \<Rightarrow>
           bind_io (on_bull (bq_getState bull queue i)) (\<lambda>state.
             if state \<noteq> BFailed then ret_io (NotFailed (JOB_STATES state))
             else bind_io (on_bull (bq_retry bull queue i)) (\<lambda>_. ret_io Retried)))"

definition is_infix :: "string \<Rightarrow> string \<Rightarrow> bool" where
  "is_infix p s \<longleftrightarrow> (\<exists>n \<le> length s. starts_with p (drop n s))"

fun lockedByAWorker :: "thrown \<Rightarrow> bool" where
  "lockedByAWorker (Err c m st ca run res) = is_infix ''locked by another worker'' m"
| "lockedByAWorker (Thrown v) = False"

definition cancelUnderLock :: "job_state \<Rightarrow> cancel_result" where
  "cancelUnderLock state = (if state = Active then Aborting else ChildrenRunning)"

definition requestCancel :: "string \<Rightarrow> string \<Rightarrow> nat \<Rightarrow> ('b redis_world, unit) io" where
  "requestCancel queue i started =
     on_redis (\<lambda>k. (Inr (), redis_requestCancel queue \<lparr>rd_id = i, rd_attemptsStarted = started\<rparr> k))"

definition cancelRefusedByALock :: "'b bullmq \<Rightarrow> string \<Rightarrow> string \<Rightarrow> ('b redis_world, cancel_result) io" where
  "cancelRefusedByALock bull queue i =
     bind_io (on_bull (bq_getJob bull queue i)) (\<lambda>found.
       case found of
         None \<Rightarrow> ret_io CancelUnknownJob
       | Some job \<Rightarrow>
           bind_io (on_bull (bq_getState bull queue i)) (\<lambda>state.
             let reached = cancelUnderLock (JOB_STATES state) in
             if reached = Aborting
             then bind_io (requestCancel queue i (bj_attemptsStarted job)) (\<lambda>_. ret_io reached)
             else ret_io reached))"

definition redis_cancel :: "'b bullmq \<Rightarrow> string \<Rightarrow> string \<Rightarrow> ('b redis_world, cancel_result) io" where
  "redis_cancel bull queue i =
     bind_io (on_bull (bq_getJob bull queue i)) (\<lambda>found.
       case found of
         None \<Rightarrow> ret_io CancelUnknownJob
       | Some job \<Rightarrow>
           bind_io (on_bull (bq_getState bull queue i)) (\<lambda>read.
             let state = JOB_STATES read in
             if state = Completed \<or> state = Failed then ret_io (Finished state)
             else if state = Active
               then bind_io (requestCancel queue i (bj_attemptsStarted job)) (\<lambda>_. ret_io Aborting)
             else catch_io (bind_io (on_bull (bq_remove bull queue i (Some True))) (\<lambda>_. ret_io Removed))
                    (\<lambda>refused. if \<not> lockedByAWorker refused then throw_io refused
                               else cancelRefusedByALock bull queue i)))"

section \<open>Schedules\<close>

text \<open>The schedulers of a queue this library keeps and no definition declares any more.\<close>

definition stale_keys :: "string list \<Rightarrow> schedule_upsert list \<Rightarrow> string list" where
  "stale_keys existing declared =
     (let kept = set (map (\<lambda>u. schedulerId (env_name (su_envelope u))) declared)
      in filter (\<lambda>key. starts_with SCHEDULER_PREFIX key \<and> key \<notin> kept) existing)"

text \<open>
  \<open>Promise.all\<close> over calls that are all made: each takes effect, and the first
  failure in the list is the failure of the whole.
\<close>

fun all_io :: "('a \<Rightarrow> ('s, 'b) io) \<Rightarrow> 'a list \<Rightarrow> ('s, unit) io" where
  "all_io f [] s = (Inr (), s)"
| "all_io f (x # xs) s =
     (case f x s of
        (Inl e, s') \<Rightarrow> (Inl e, snd (all_io f xs s'))
      | (Inr _, s') \<Rightarrow> all_io f xs s')"

text \<open>A \<open>for\<close> loop with an \<open>await\<close> in its body.\<close>

fun each_io :: "('a \<Rightarrow> ('s, 'b) io) \<Rightarrow> 'a list \<Rightarrow> ('s, unit) io" where
  "each_io f [] s = (Inr (), s)"
| "each_io f (x # xs) s =
     (case f x s of
        (Inl e, s') \<Rightarrow> (Inl e, s')
      | (Inr _, s') \<Rightarrow> each_io f xs s')"

definition redis_upsert :: "'b bullmq \<Rightarrow> string \<Rightarrow> schedule_upsert \<Rightarrow> ('b redis_world, unit) io" where
  "redis_upsert bull queue u =
     catch_io
       (on_bull (bq_upsertJobScheduler bull queue (schedulerId (env_name (su_envelope u)))
          (toRepeatOptions u) (su_envelope u) (toTemplateOptions (su_delivery u))))
       (\<lambda>e. throw_io (refusedSchedule u e))"

definition redis_reconcileSchedules ::
    "'b bullmq \<Rightarrow> connection_shape \<Rightarrow> string \<Rightarrow> schedule_upsert list \<Rightarrow> ('b redis_world, unit) io" where
  "redis_reconcileSchedules bull connection queue declared =
     bind_io (lift_io (assertBlockingConnection connection)) (\<lambda>_.
     bind_io (on_bull (bq_getJobSchedulers bull queue)) (\<lambda>existing.
     bind_io (all_io (\<lambda>key. on_bull (bq_removeJobScheduler bull queue key)) (stale_keys existing declared)) (\<lambda>_.
       each_io (redis_upsert bull queue) declared)))"

section \<open>Flows and the dead queue\<close>

definition redis_flow_enqueue :: "'b bullmq \<Rightarrow> (nat \<Rightarrow> string) \<Rightarrow> flow_node \<Rightarrow> ('b redis_world, string) io" where
  "redis_flow_enqueue bull uuid node =
     bind_io (on_bull (bq_flow_add bull (fst (toFlowJob uuid 0 node)))) (\<lambda>i.
       case i of
         Some j \<Rightarrow> if j = [] then throw_io (new_error C_Error (''jubs: redis stored the flow '' @
                       quoted (env_name (fn_envelope node)) @ '' without an id''))
                   else ret_io j
       | None \<Rightarrow> throw_io (new_error C_Error (''jubs: redis stored the flow '' @
                   quoted (env_name (fn_envelope node)) @ '' without an id'')))"

definition redis_flow_read ::
    "'b bullmq \<Rightarrow> string \<Rightarrow> string \<Rightarrow> ('b redis_world, flow_state) io" where
  "redis_flow_read bull queue i w =
     (Inr (readFlowState
        (READ_FLOW_LUA (\<lambda>k. bq_hgetall bull k (rw_bull w)) (\<lambda>k. bq_scard bull k (rw_bull w))
           (bq_toKey bull queue i))), w)"

definition redis_bury :: "'b bullmq \<Rightarrow> string \<Rightarrow> dead_entry \<Rightarrow> ('b redis_world, unit) io" where
  "redis_bury bull queue entry =
     bind_io (on_bull (bq_add bull (deadQueueName queue) (env_name (de_envelope entry)) (dead_object entry) None))
       (\<lambda>_. ret_io ())"

text \<open>A record no one can read is logged and left out.\<close>

fun readable :: "bull_job \<Rightarrow> (string \<times> dead_entry) list" where
  "readable job =
     (case bj_id job of
        None \<Rightarrow> []
      | Some i \<Rightarrow> if i = [] then []
                  else (case readDeadEntry (bj_data job) of Inr e \<Rightarrow> [(i, e)] | Inl _ \<Rightarrow> []))"

definition redis_dead_list :: "'b bullmq \<Rightarrow> string \<Rightarrow> ('b redis_world, (string \<times> dead_entry) list) io" where
  "redis_dead_list bull queue =
     bind_io (on_bull (bq_getWaiting bull (deadQueueName queue))) (\<lambda>waiting.
       ret_io (concat (map readable waiting)))"

definition redis_dead_read :: "'b bullmq \<Rightarrow> string \<Rightarrow> string \<Rightarrow> ('b redis_world, dead_entry option) io" where
  "redis_dead_read bull queue i =
     bind_io (on_bull (bq_getJob bull (deadQueueName queue) i)) (\<lambda>found.
       case found of
         None \<Rightarrow> ret_io None
       | Some job \<Rightarrow> bind_io (lift_io (readDeadEntry (bj_data job))) (\<lambda>e. ret_io (Some e)))"

definition redis_dead_remove :: "'b bullmq \<Rightarrow> string \<Rightarrow> string \<Rightarrow> ('b redis_world, bool) io" where
  "redis_dead_remove bull queue i =
     bind_io (on_bull (bq_getJob bull (deadQueueName queue) i)) (\<lambda>found.
       case found of
         None \<Rightarrow> ret_io False
       | Some job \<Rightarrow> bind_io (on_bull (bq_remove bull (deadQueueName queue) i None)) (\<lambda>_. ret_io True))"

section \<open>The worker\<close>

definition cannotReschedule :: "bull_job \<Rightarrow> thrown \<Rightarrow> thrown" where
  "cannotReschedule job postponed =
     with_cause (new_error C_Error
       (''jubs: redis delivered job '' @ quoted (bj_name job) @
        '' without a worker token, and this delivery asked to be delivered again instead of '' @ ''failing'' @
        dash @ ''jubs cannot reschedule it without the token, so it fails the attempt instead'')) postponed"

definition cannotWait :: "bull_job \<Rightarrow> thrown \<Rightarrow> thrown" where
  "cannotWait job pending =
     with_cause (new_error C_Error
       (''jubs: redis delivered job '' @ quoted (bj_name job) @
        '' without a worker token, and this delivery asked to wait on its children again '' @
        ''instead of failing'' @ dash @
        ''jubs cannot move it back to waiting-children without the token, so it fails the '' @
        ''attempt instead'')) pending"

text \<open>A token that a truth test takes for true.\<close>

definition no_token :: "string option \<Rightarrow> bool" where
  "no_token token \<longleftrightarrow> token = None \<or> token = Some []"

text \<open>\<open>now\<close> is \<open>Date.now()\<close>.\<close>

definition reschedule ::
    "'b bullmq \<Rightarrow> string \<Rightarrow> bull_job \<Rightarrow> string option \<Rightarrow> nat \<Rightarrow> thrown \<Rightarrow> ('b redis_world, jval) io" where
  "reschedule bull queue job token now postponed =
     (if no_token token then throw_io (cannotReschedule job postponed)
      else
        let delayMs = (if instance_of postponed C_LeaseHeldError then heldRetryDelayMs (bj_attemptsStarted job)
                       else SHUTDOWN_REDELIVERY_MS)
        in bind_io (on_bull (bq_moveToDelayed bull queue (the (bj_id job)) (now + delayMs) (the token)))
             (\<lambda>_. throw_io (new_error C_DelayedError (message_of postponed))))"

definition waitForChildren ::
    "'b bullmq \<Rightarrow> string \<Rightarrow> bull_job \<Rightarrow> string option \<Rightarrow> thrown \<Rightarrow> ('b redis_world, jval) io" where
  "waitForChildren bull queue job token pending =
     (if no_token token then throw_io (cannotWait job pending)
      else bind_io (on_bull (bq_moveToWaitingChildren bull queue (the (bj_id job)) (the token)))
             (\<lambda>moved. if \<not> moved then throw_io pending
                      else throw_io (new_error C_WaitingChildrenError (message_of pending))))"

definition worker_processor ::
    "'b bullmq \<Rightarrow> string \<Rightarrow> (job_delivery \<Rightarrow> ('b redis_world, jval) io) \<Rightarrow>
      bull_job \<Rightarrow> string option \<Rightarrow> nat \<Rightarrow> ('b redis_world, jval) io" where
  "worker_processor bull queue run job token now =
     (if bj_id job = None \<or> bj_id job = Some []
      then throw_io (new_error C_Error (''jubs: redis delivered job '' @ quoted (bj_name job) @ '' without an id''))
      else catch_io
        (run \<lparr>rd_id = the (bj_id job), rd_attemptsStarted = bj_attemptsStarted job,
              jdv_attempt = bj_attemptsMade job + 1, jdv_maxAttempts = or_else (bj_attempts job) (JFin 1),
              jdv_envelope = bj_data job\<rparr>)
        (\<lambda>e. if instance_of e C_LeaseHeldError \<or> instance_of e C_ShutdownAbortError
             then reschedule bull queue job token now e
             else if instance_of e C_ChildrenPendingError then waitForChildren bull queue job token e
             else throw_io e))"

record worker_options =
  wo_concurrency :: jnum
  wo_limiter :: "(jnum \<times> jnum) option"

definition toWorkerOptions :: "jnum \<Rightarrow> queue_limiter option \<Rightarrow> worker_options" where
  "toWorkerOptions concurrency limiter =
     \<lparr>wo_concurrency = concurrency, wo_limiter = map_option (\<lambda>l. (ql_max l, ql_durationMs l)) limiter\<rparr>"

section \<open>The driver\<close>

definition lift_store :: "redis idempotency_store \<Rightarrow> 'b redis_world idempotency_store" where
  "lift_store st =
     \<lparr>ids_acquire = (\<lambda>k t ms. on_redis (ids_acquire st k t ms)),
      ids_renew = (\<lambda>k t ms. on_redis (ids_renew st k t ms)),
      ids_complete = (\<lambda>k t v ms. on_redis (ids_complete st k t v ms)),
      ids_release = (\<lambda>k t. on_redis (ids_release st k t)),
      ids_forget = (\<lambda>k. on_redis (ids_forget st k))\<rparr>"

definition redisDriver ::
    "'b bullmq \<Rightarrow> (nat \<Rightarrow> string) \<Rightarrow> connection_shape \<Rightarrow> 'b redis_world job_driver" where
  "redisDriver bull uuid connection =
     \<lparr>drv_enqueue = redis_enqueue bull, drv_get = redis_get_job bull, drv_retry = redis_retry bull,
      drv_cancel = redis_cancel bull, drv_takeCancelled = (\<lambda>q ds. on_redis (redis_takeCancelled q ds)),
      drv_pause = (\<lambda>q. on_bull (bq_pause bull q)), drv_resume = (\<lambda>q. on_bull (bq_resume bull q)),
      drv_reconcileSchedules = redis_reconcileSchedules bull connection,
      drv_dead_bury = redis_bury bull, drv_dead_list = redis_dead_list bull,
      drv_dead_read = redis_dead_read bull, drv_dead_remove = redis_dead_remove bull,
      drv_flow_enqueue = redis_flow_enqueue bull uuid, drv_flow_read = redis_flow_read bull,
      drv_idempotency = lift_store redisIdempotency\<rparr>"


section \<open>The store of leases behind the driver\<close>

lemma on_redis_apply:
  "m (rw_redis w) = (r, k) \<Longrightarrow> on_redis m w = (r, w\<lparr>rw_redis := k\<rparr>)"
  by (simp add: on_redis_def)

definition world_view :: "'b redis_world \<Rightarrow> string \<Rightarrow> key_state" where
  "world_view w = redis_view (rw_redis w)"

definition world_inv :: "'b redis_world \<Rightarrow> bool" where
  "world_inv w \<longleftrightarrow> redis_inv (rw_redis w)"

lemma on_redis_law:
  "\<exists>k. m (rw_redis w) = (r, k) \<and> redis_inv k \<and> redis_view k = v \<Longrightarrow>
    \<exists>w'. on_redis m w = (r, w') \<and> world_inv w' \<and> world_view w' = v"
  by (auto simp: on_redis_def world_inv_def world_view_def)

interpretation world_leases: lease_store "lift_store redisIdempotency" world_view world_inv redis_kept
proof (unfold_locales, goal_cases acquire renew complete stale release forget)
  case (acquire s ms k t)
  then show ?case
    unfolding lift_store_def idempotency_store.simps
    unfolding world_inv_def world_view_def
    by (intro on_redis_law [unfolded world_inv_def world_view_def] redis_leases.acquire_law)
next
  case (renew s ms k t)
  then show ?case
    unfolding lift_store_def idempotency_store.simps
    by (intro on_redis_law) (simp add: redis_leases.renew_law world_inv_def world_view_def)
next
  case (complete s ms k t kept)
  then show ?case
    unfolding lift_store_def idempotency_store.simps
    by (intro on_redis_law) (simp add: redis_leases.complete_law world_inv_def world_view_def)
next
  case (stale s ms k t' t kept)
  then show ?case
    unfolding lift_store_def idempotency_store.simps
    by (intro on_redis_law) (simp add: redis_leases.complete_stale_law world_inv_def world_view_def)
next
  case (release s k t)
  then show ?case
    unfolding lift_store_def idempotency_store.simps
    unfolding world_inv_def world_view_def
    by (intro on_redis_law [unfolded world_inv_def world_view_def] redis_leases.release_law)
next
  case (forget s k)
  then show ?case
    unfolding lift_store_def idempotency_store.simps
    by (intro on_redis_law) (simp add: redis_leases.forget_law world_inv_def world_view_def)
qed

section \<open>Every child of a flow carries its slot in its id\<close>

text \<open>
  A job stands for a node when it goes to the node's queue with the node's envelope
  and delivery, and each child stands for the child of the node at its place, is
  stored under an id its slot reads back from, and leaves its failure to its parent.
\<close>

fun stands_for :: "flow_job \<Rightarrow> flow_node \<Rightarrow> bool" where
  "stands_for (FlowJob name queue env opts jobs) (FlowNode q e dl children) \<longleftrightarrow>
     name = env_name e \<and> queue = q \<and> env = e \<and>
     template_options.truncate opts = toTemplateOptions dl \<and>
     jo_deduplication opts = map_option toDeduplication (dl_unique dl) \<and> jo_delay opts = dl_delayMs dl \<and>
     list_all2 (\<lambda>job child. stands_for job (snd child) \<and>
       (\<exists>u. jo_jobId (fj_opts job) = Some (composeChildId (fst child) u)) \<and>
       jo_ignoreDependencyOnFailure (fj_opts job)) jobs children"

fun descendant_ids :: "flow_job \<Rightarrow> string option list" where
  "descendant_ids (FlowJob name queue env opts jobs) =
     concat (map (\<lambda>job. jo_jobId (fj_opts job) # descendant_ids job) jobs)"

lemma toJobsOptions_simps [simp]:
  "template_options.truncate (toJobsOptions dl) = toTemplateOptions dl"
  "jo_deduplication (toJobsOptions dl) = map_option toDeduplication (dl_unique dl)"
  "jo_delay (toJobsOptions dl) = dl_delayMs dl" "jo_jobId (toJobsOptions dl) = None"
  "jo_ignoreDependencyOnFailure (toJobsOptions dl) = False"
  by (simp_all add: toJobsOptions_def template_options.defs)

lemma truncate_child_opts [simp]:
  "template_options.truncate (opts\<lparr>jo_jobId := i, jo_ignoreDependencyOnFailure := b\<rparr>) = template_options.truncate opts"
  by (simp add: template_options.defs)

lemma stands_for_child_opts:
  "stands_for (FlowJob name queue env (opts\<lparr>jo_jobId := i, jo_ignoreDependencyOnFailure := b\<rparr>) jobs) node \<longleftrightarrow>
    stands_for (FlowJob name queue env opts jobs) node"
  by (cases node) simp

lemma toFlowJob_stands_for:
  "toFlowJob uuid n node = (job, n') \<Longrightarrow> stands_for job node"
  "toDependentFlowJobs uuid n children = (jobs, n') \<Longrightarrow>
    list_all2 (\<lambda>job child. stands_for job (snd child) \<and>
       (\<exists>u. jo_jobId (fj_opts job) = Some (composeChildId (fst child) u)) \<and>
       jo_ignoreDependencyOnFailure (fj_opts job)) jobs children"
proof (induction uuid n node and uuid n children arbitrary: job n' and jobs n'
    rule: toFlowJob_toDependentFlowJobs.induct)
  case (1 uuid n queue env dl children)
  then show ?case by (auto split: prod.splits)
next
  case (2 uuid n)
  then show ?case by simp
next
  case (3 uuid n slot node rest)
  obtain name queue env opts cs n1 where
    one: "toFlowJob uuid n node = (FlowJob name queue env opts cs, n1)"
    by (metis flow_job.exhaust surj_pair)
  obtain more n2 where two: "toDependentFlowJobs uuid (Suc n1) rest = (more, n2)" by fastforce
  from "3.prems" one two have jobs: "jobs = FlowJob name queue env
      (opts\<lparr>jo_jobId := Some (composeChildId slot (uuid n1)), jo_ignoreDependencyOnFailure := True\<rparr>) cs # more"
    by simp
  have "stands_for (FlowJob name queue env opts cs) node"
    using "3.IH"(1) one by blast
  moreover have "list_all2 (\<lambda>job child. stands_for job (snd child) \<and>
       (\<exists>u. jo_jobId (fj_opts job) = Some (composeChildId (fst child) u)) \<and>
       jo_ignoreDependencyOnFailure (fj_opts job)) more rest"
    using "3.IH"(2) [OF one [symmetric] refl two] by simp
  ultimately show ?case
    by (auto simp: jobs stands_for_child_opts)
qed


text \<open>No two jobs of one flow are stored under one id.\<close>

fun good_slots :: "flow_node \<Rightarrow> bool" where
  "good_slots (FlowNode q e dl children) \<longleftrightarrow>
     (\<forall>c \<in> set children. FLOW_ID_MARKER \<notin> set (fst c) \<and> good_slots (snd c))"

definition minted :: "(nat \<Rightarrow> string) \<Rightarrow> nat \<Rightarrow> nat \<Rightarrow> string option list \<Rightarrow> bool" where
  "minted uuid n n' ids \<longleftrightarrow>
     n \<le> n' \<and> distinct ids \<and>
     (\<forall>i \<in> set ids. \<exists>slot k. i = Some (composeChildId slot (uuid k)) \<and> FLOW_ID_MARKER \<notin> set slot \<and> n \<le> k \<and> k < n')"

lemma composeChildId_inject:
  "FLOW_ID_MARKER \<notin> set a \<Longrightarrow> FLOW_ID_MARKER \<notin> set b \<Longrightarrow>
    composeChildId a u = composeChildId b v \<longleftrightarrow> a = b \<and> u = v"
  unfolding composeChildId_def by (metis cut_at_append option.inject prod.inject)

lemma minted_append:
  assumes "minted uuid n m xs" and "minted uuid m k ys" and "inj uuid"
  shows "minted uuid n k (xs @ ys)"
proof -
  have "set xs \<inter> set ys = {}"
  proof (rule ccontr)
    assume "set xs \<inter> set ys \<noteq> {}"
    then obtain i where "i \<in> set xs" "i \<in> set ys" by blast
    with assms(1,2) obtain a j b l where
      "i = Some (composeChildId a (uuid j))" "FLOW_ID_MARKER \<notin> set a" "j < m"
      "i = Some (composeChildId b (uuid l))" "FLOW_ID_MARKER \<notin> set b" "m \<le> l"
      unfolding minted_def by meson
    then have "uuid j = uuid l" by (simp add: composeChildId_inject)
    with assms(3) have "j = l" by (simp add: inj_eq)
    with \<open>j < m\<close> \<open>m \<le> l\<close> show False by simp
  qed
  with assms(1,2) show ?thesis by (fastforce simp: minted_def)
qed

lemma minted_here:
  "FLOW_ID_MARKER \<notin> set slot \<Longrightarrow> minted uuid k (Suc k) [Some (composeChildId slot (uuid k))]"
  by (auto simp: minted_def)

lemma minted_mset: "mset xs = mset ys \<Longrightarrow> minted uuid n m xs = minted uuid n m ys"
  unfolding minted_def by (metis mset_eq_imp_distinct_iff mset_eq_setD)

lemma descendant_ids_opts [simp]:
  "descendant_ids (FlowJob name queue env opts jobs) = descendant_ids (FlowJob name queue env opts' jobs)"
  by simp

lemma toFlowJob_minted:
  "toFlowJob uuid n node = (job, n') \<Longrightarrow> inj uuid \<Longrightarrow> good_slots node \<Longrightarrow> minted uuid n n' (descendant_ids job)"
  "toDependentFlowJobs uuid n children = (jobs, n') \<Longrightarrow> inj uuid \<Longrightarrow>
    \<forall>c \<in> set children. FLOW_ID_MARKER \<notin> set (fst c) \<and> good_slots (snd c) \<Longrightarrow>
    minted uuid n n' (concat (map (\<lambda>job. jo_jobId (fj_opts job) # descendant_ids job) jobs))"
proof (induction uuid n node and uuid n children arbitrary: job n' and jobs n'
    rule: toFlowJob_toDependentFlowJobs.induct)
  case (1 uuid n queue env dl children)
  then show ?case by (auto split: prod.splits)
next
  case (2 uuid n)
  then show ?case by (simp add: minted_def)
next
  case (3 uuid n slot node rest)
  obtain name queue env opts cs n1 where
    one: "toFlowJob uuid n node = (FlowJob name queue env opts cs, n1)"
    by (metis flow_job.exhaust surj_pair)
  obtain more n2 where two: "toDependentFlowJobs uuid (Suc n1) rest = (more, n2)" by fastforce
  let ?below = "descendant_ids (FlowJob name queue env opts cs)"
  let ?here = "Some (composeChildId slot (uuid n1))"
  let ?rest = "concat (map (\<lambda>job. jo_jobId (fj_opts job) # descendant_ids job) more)"
  from "3.prems" one two have jobs: "n' = n2" "jobs = FlowJob name queue env
      (opts\<lparr>jo_jobId := ?here, jo_ignoreDependencyOnFailure := True\<rparr>) cs # more"
    by simp_all
  have "minted uuid n n1 ?below" using "3.IH"(1) one "3.prems" by auto
  moreover have "minted uuid n1 (Suc n1) [?here]" using "3.prems"(3) by (simp add: minted_here)
  moreover have "minted uuid (Suc n1) n2 ?rest"
    using "3.IH"(2) [OF one [symmetric] refl two] "3.prems" by simp
  ultimately have "minted uuid n n2 ((?below @ [?here]) @ ?rest)"
    using "3.prems"(2) by (blast intro: minted_append)
  then have "minted uuid n n2 (?here # ?below @ ?rest)"
    by (rule minted_mset [THEN iffD1, rotated]) simp
  then show ?case by (simp add: jobs)
qed

section \<open>Reading a flow back\<close>

lemma pair_up_flat: "pair_up (concat (map (\<lambda>(k, v). [JStr k, JStr v]) es)) = es"
  by (induction es) auto

lemma hashEntries_flat_hash [simp]: "hashEntries (flat_hash es) = es"
  by (simp add: flat_hash_def pair_up_flat)

text \<open>The key BullMQ keeps a child under: the prefix, the queue and the stored id.\<close>

definition child_key :: "string \<Rightarrow> string \<Rightarrow> string \<Rightarrow> string \<Rightarrow> string" where
  "child_key pre queue slot uuid = pre @ '':'' @ queue @ '':'' @ composeChildId slot uuid"

definition plain_text :: "string \<Rightarrow> bool" where
  "plain_text s \<longleftrightarrow> CHR '':'' \<notin> set s"

lemma readChildKey_child_key [simp]:
  "plain_text queue \<Longrightarrow> slot_name_ok slot \<Longrightarrow> plain_text uuid \<Longrightarrow>
    readChildKey (child_key pre queue slot uuid) = (queue, composeChildId slot uuid)"
  unfolding child_key_def plain_text_def slot_name_ok_def
  by (rule readChildKey_compose) (auto simp: composeChildId_def FLOW_ID_MARKER_def)

lemma readChildSlot_ok [simp]: "slot_name_ok slot \<Longrightarrow> readChildSlot (composeChildId slot uuid) = slot"
  by (simp add: slot_name_ok_def)

text \<open>What one settled child left behind: its queue, slot and id, and the text beside them.\<close>

type_synonym settled_child = "string \<times> string \<times> string \<times> string"

fun settled_ok :: "settled_child \<Rightarrow> bool" where
  "settled_ok (queue, slot, uuid, text) \<longleftrightarrow> plain_text queue \<and> slot_name_ok slot \<and> plain_text uuid"

fun settled_entry :: "string \<Rightarrow> settled_child \<Rightarrow> string \<times> string" where
  "settled_entry pre (queue, slot, uuid, text) = (child_key pre queue slot uuid, text)"

fun settled_result :: "settled_child \<Rightarrow> child_result" where
  "settled_result (queue, slot, uuid, text) = \<lparr>cr_slot = slot, cr_value = childValue text\<rparr>"

fun settled_failure :: "settled_child \<Rightarrow> child_failure" where
  "settled_failure (queue, slot, uuid, text) =
     \<lparr>cf_id = composeJobId queue (composeChildId slot uuid), cf_slot = slot, cf_reason = text\<rparr>"

lemma reply_parts [simp]:
  "reply_part (JArr [a, b, c]) 0 = a" "reply_part (JArr [a, b, c]) 1 = b"
  "reply_part (JArr [a, b, c]) (Suc 0) = b" "reply_part (JArr [a, b, c]) 2 = c"
  by simp_all

lemma readFlowState_script:
  assumes "hgetall (key @ '':processed'') = map (settled_entry pre) done_children"
    and "hgetall (key @ '':failed'') = map (settled_entry pre) dead_children"
    and "scard (key @ '':dependencies'') = n"
    and "list_all settled_ok done_children" and "list_all settled_ok dead_children"
  shows "readFlowState (READ_FLOW_LUA hgetall scard key) =
    \<lparr>fs_results = map (settled_result) done_children,
     fs_failures = map settled_failure dead_children, fs_pending = of_count n\<rparr>"
  using assms
  by (auto simp: readFlowState_def READ_FLOW_LUA_def list_all_iff simp del: reply_part.simps)

end
