(* ===== verification/KeyGuarantees.thy ===== *)
theory KeyGuarantees
  imports Samples Runtime MemoryDriver RedisDriver
begin

text \<open>
  What an idempotency key guarantees over the stores of the program: one body at a
  time, one result for every delivery that meets the key while it is kept, a lease that lives as long as its body and
  no longer, and a worker that lost its lease unable to touch the next one.
\<close>

section \<open>Idempotency keys\<close>

interpretation redis_bodies: leased_bodies redisIdempotency redis_view redis_inv redis_kept
  by unfold_locales

interpretation memory_bodies: leased_bodies memory_idempotency memory_view lease_inv stored_kept
  by unfold_locales

definition empty_redis :: redis where
  "empty_redis = \<lparr>rk_now = 0, rk_keys = Map.empty\<rparr>"

lemma empty_redis_simps [simp]:
  "redis_inv empty_redis" "redis_view empty_redis key = Absent" "redis_get k empty_redis = None"
  by (simp_all add: empty_redis_def redis_inv_def redis_view_def redis_get_def)

definition system_start :: "redis lease_system" where
  "system_start = \<lparr>ls_state = empty_redis, ls_phase = (\<lambda>t. Fresh)\<rparr>"

definition leased_redis :: "string \<Rightarrow> string \<Rightarrow> redis" where
  "leased_redis key t = redis_set_px (redisKey key) (heldBy t) IDEMPOTENCY_LEASE_MS empty_redis"

definition system_two :: "redis lease_system" where
  "system_two = \<lparr>ls_state = leased_redis ''k'' ''a'', ls_phase = ((\<lambda>t. Fresh)(''a'' := BodyRuns))(''b'' := Ended)\<rparr>"

lemma leased_redis_simps [simp]:
  "redis_inv (leased_redis key t)" "redis_view (leased_redis key t) key = HeldBy t"
  "redis_get (redisKey key) (leased_redis key t) = Some (heldBy t)"
  by (simp_all add: leased_redis_def redis_inv_set)

text \<open>
  C1: over the scripts of Redis, however any number of deliveries of one key, an
  operator and the clock interleave, two bodies never run under that key at once, as
  long as no lease of a running body expires.
\<close>

theorem one_body_under_a_key:
  assumes "(lease_step redisIdempotency redis_view redis_inv key)\<^sup>*\<^sup>* sys sys'"
    and "initial_system redis_view redis_inv key sys"
    and "ls_phase sys' t = BodyRuns" and "ls_phase sys' t' = BodyRuns"
  shows "t = t'"
  using assms by (rule redis_leases.one_body_at_a_time)

theorem one_body_under_a_key_witness:
  "(lease_step redisIdempotency redis_view redis_inv ''k'')\<^sup>*\<^sup>* system_start system_two \<and>
    {t. ls_phase system_two t = BodyRuns} = {''a''}"
proof -
  let ?one = "\<lparr>ls_state = leased_redis ''k'' ''a'', ls_phase = (ls_phase system_start)(''a'' := start_phase (LeaseAcquired ''a''))\<rparr>"
  have first: "lease_step redisIdempotency redis_view redis_inv ''k'' system_start ?one"
    by (rule lease_step.start)
      (simp_all add: system_start_def redis_store_defs leased_redis_def)
  have "lease_step redisIdempotency redis_view redis_inv ''k'' ?one
      \<lparr>ls_state = leased_redis ''k'' ''a'', ls_phase = (ls_phase ?one)(''b'' := start_phase LeaseHeld)\<rparr>"
    by (rule lease_step.start) (simp_all add: system_start_def redis_store_defs)
  also have "\<lparr>ls_state = leased_redis ''k'' ''a'', ls_phase = (ls_phase ?one)(''b'' := start_phase LeaseHeld)\<rparr> = system_two"
    by (simp add: system_two_def system_start_def start_phase_def)
  finally have second: "lease_step redisIdempotency redis_view redis_inv ''k'' ?one system_two" .
  have reach: "(lease_step redisIdempotency redis_view redis_inv ''k'')\<^sup>*\<^sup>* system_start system_two"
    by (rule rtranclp.rtrancl_into_rtrancl [where b = ?one], rule r_into_rtranclp, rule first, rule second)
  have initial: "initial_system redis_view redis_inv ''k'' system_start"
    by (simp add: initial_system_def system_start_def)
  have a: "ls_phase system_two ''a'' = BodyRuns" by (simp add: system_two_def)
  have "t = ''a''" if "ls_phase system_two t = BodyRuns" for t
    using one_body_under_a_key [OF reach initial that a] .
  with a reach show ?thesis by blast
qed

text \<open>
  What can happen to the keys of a Redis between two deliveries: the operations of the
  store of leases by whoever calls them, whatever it keeps or whoever holds it, the marks
  of cancellations written and swept, and time passing.
\<close>

datatype key_op =
    Acquires string string nat
  | Renews string string nat
  | Completes string string kept_result nat
  | Releases string string
  | Forgets string
  | Marks string running_delivery
  | Takes string "running_delivery list"
  | Waits nat

fun apply_op :: "key_op \<Rightarrow> redis \<Rightarrow> redis" where
  "apply_op (Acquires k t ms) s = snd (ids_acquire redisIdempotency k t ms s)"
| "apply_op (Renews k t ms) s = snd (ids_renew redisIdempotency k t ms s)"
| "apply_op (Completes k t kept ms) s = snd (ids_complete redisIdempotency k t kept ms s)"
| "apply_op (Releases k t) s = snd (ids_release redisIdempotency k t s)"
| "apply_op (Forgets k) s = snd (ids_forget redisIdempotency k s)"
| "apply_op (Marks q d) s = redis_requestCancel q d s"
| "apply_op (Takes q ds) s = snd (redis_takeCancelled q ds s)"
| "apply_op (Waits ms) s = redis_wait ms s"

fun waited :: "key_op \<Rightarrow> nat" where
  "waited (Waits ms) = ms"
| "waited op = 0"

text \<open>A completed key keeps its text and the instant it expires at, whatever happens but its own forgetting.\<close>

definition completed_until :: "string \<Rightarrow> kept_result \<Rightarrow> nat \<Rightarrow> redis \<Rightarrow> bool" where
  "completed_until key kept expires s \<longleftrightarrow> rk_keys s (redisKey key) = Some (kept_text kept, expires)"

lemma completed_until_get:
  "completed_until key kept expires s \<Longrightarrow> rk_now s < expires \<Longrightarrow> redis_get (redisKey key) s = Some (kept_text kept)"
  by (simp add: completed_until_def redis_get_def)

lemma redis_key_writes:
  "rk_now (redis_set_px k v ms s) = rk_now s" "rk_now (redis_del k s) = rk_now s" "rk_now (redis_pexpire k ms s) = rk_now s"
  "k \<noteq> redisKey key \<Longrightarrow> completed_until key kept expires (redis_set_px k v ms s) = completed_until key kept expires s"
  "k \<noteq> redisKey key \<Longrightarrow> completed_until key kept expires (redis_del k s) = completed_until key kept expires s"
  "k \<noteq> redisKey key \<Longrightarrow> completed_until key kept expires (redis_pexpire k ms s) = completed_until key kept expires s"
  by (simp_all add: completed_until_def redis_set_px_def redis_del_def redis_pexpire_def split: option.split)

lemma mark_is_no_lease: "cancelPrefix q @ i \<noteq> redisKey key"
  by (simp add: cancelPrefix_def redisKey_def IDEMPOTENCY_KEY_PREFIX_def)

lemma take_loop_spares:
  "rk_now (snd (take_loop (cancelPrefix q) n pairs s)) = rk_now s \<and>
    completed_until key kept expires (snd (take_loop (cancelPrefix q) n pairs s)) = completed_until key kept expires s"
proof (induction "cancelPrefix q" n pairs s rule: take_loop.induct)
  case (2 n i started rest s)
  then show ?case
    by (cases "redis_get (cancelPrefix q @ i) s = Some started")
      (simp_all add: Let_def redis_key_writes mark_is_no_lease case_prod_unfold)
qed simp

lemma op_spares_completed:
  assumes "completed_until key kept expires s" and "rk_now s < expires" and "op \<noteq> Forgets key"
  shows "completed_until key kept expires (apply_op op s) \<and> rk_now (apply_op op s) = rk_now s + waited op"
proof -
  note get = completed_until_get [OF assms(1,2)]
  have other: "redisKey k \<noteq> redisKey key \<or> k = key" for k by simp
  show ?thesis
  proof (cases op)
    case (Acquires k t ms)
    with assms(1) get show ?thesis
      by (cases "k = key") (auto simp: redis_store_defs redis_key_writes split: option.split)
  next
    case (Renews k t ms)
    with assms(1) get show ?thesis
      by (cases "k = key") (auto simp: redis_store_defs redis_key_writes)
  next
    case (Completes k t stored ms)
    with assms(1) get show ?thesis
      by (cases "k = key") (auto simp: redis_store_defs redis_key_writes)
  next
    case (Releases k t)
    with assms(1) get show ?thesis
      by (cases "k = key") (auto simp: redis_store_defs redis_key_writes)
  next
    case (Forgets k)
    with assms(1,3) show ?thesis
      by (auto simp: redis_store_defs redis_key_writes split: option.split)
  next
    case (Marks q d)
    with assms(1) show ?thesis by (simp add: redis_requestCancel_def redis_key_writes mark_is_no_lease)
  next
    case (Takes q ds)
    with assms(1) take_loop_spares [of q 1 _ s key kept expires] show ?thesis
      by (simp add: redis_takeCancelled_def TAKE_CANCELLED_LUA_def case_prod_unfold)
  next
    case (Waits ms)
    with assms(1) show ?thesis by (simp add: redis_wait_def completed_until_def)
  qed
qed

lemma ops_spare_completed:
  assumes "completed_until key kept expires s" and "rk_now s + sum_list (map waited ops) < expires" and "Forgets key \<notin> set ops"
  shows "completed_until key kept expires (fold apply_op ops s) \<and> rk_now (fold apply_op ops s) < expires"
  using assms
proof (induction ops arbitrary: s)
  case (Cons op ops)
  then have "completed_until key kept expires (apply_op op s) \<and> rk_now (apply_op op s) = rk_now s + waited op"
    by (intro op_spares_completed) auto
  with Cons.IH [of "apply_op op s"] Cons.prems show ?case by simp
qed simp

text \<open>
  C6: once a delivery returned under a free key, every delivery that meets that key
  before the retention of its result has passed and before an operator forgot it is given
  the result the key keeps, written as JSON text and parsed back, its own body never
  starts and it changes nothing, whatever deliveries, sweeps and operators did to the
  keys in between. A value the language can hold comes back as JSON keeps it.
\<close>

theorem completed_key_replays_its_result:
  assumes "redis_inv s" and "redis_view s key = Absent" and "leaves_key redis_view redis_inv key t evs"
    and "runUnderKey redisIdempotency key t (run_body d evs) s = Some (Inr v, rest, s')"
    and "Forgets key \<notin> set ops" and "sum_list (map waited ops) < IDEMPOTENCY_RESULT_RETENTION_MS"
  shows "runUnderKey redisIdempotency key t' run' (fold apply_op ops s') =
      Some (Inr (kept_value (redis_kept (keptResultOf v))), [], fold apply_op ops s') \<and>
    (plain_value v \<longrightarrow> redis_kept (keptResultOf v) = stored_kept (keptResultOf v))"
proof -
  let ?kept = "keptResultOf v" and ?s = "fold apply_op ops s'"
  from assms(1,2) redis_bodies.run_body_keeps_lease [OF assms(3)] assms(4) obtain s2 where
    s2: "redis_inv s2" "redis_view s2 key = HeldBy t"
      "ids_complete redisIdempotency key t ?kept IDEMPOTENCY_RESULT_RETENTION_MS s2 = (Inr (), s')"
    by (rule redis_leases.free_key_completes)
  from s2(1,2) have "redis_get (redisKey key) s2 = Some (heldBy t)"
    by (auto elim: redis_view_cases [where k = key])
  with s2(3) have "s' = redis_set_px (redisKey key) (kept_text ?kept) IDEMPOTENCY_RESULT_RETENTION_MS s2"
    by (simp add: redis_store_defs)
  then have "completed_until key ?kept (rk_now s' + IDEMPOTENCY_RESULT_RETENTION_MS) s'"
    by (simp add: completed_until_def redis_set_px_def)
  from ops_spare_completed [OF this _ assms(5)] assms(6)
  have "redis_get (redisKey key) ?s = Some (kept_text ?kept)" by (auto intro: completed_until_get)
  then have "runUnderKey redisIdempotency key t' run' ?s = Some (Inr (kept_value (redis_kept ?kept)), [], ?s)"
    by (simp add: runUnderKey_def redis_store_defs)
  moreover have "redis_kept ?kept = stored_kept ?kept" if "plain_value v"
    using that keptResultOf_Some by (intro redis_kept_plain) blast
  ultimately show ?thesis by blast
qed

definition ok_body :: "redis body_event list" where
  "ok_body = [RenewTick, BodyReturns (JStr ''ok'')]"

definition no_run :: "redis run" where
  "no_run renew s = None"

lemma renew_leased [simp]:
  "renewWhileRunning redisIdempotency key t (leased_redis key t) = leased_redis key t"
  by (simp add: renewWhileRunning_def redis_store_defs redis_pexpire_def)
    (simp add: leased_redis_def redis_set_px_def empty_redis_def)

theorem completed_key_replays_its_result_witness:
  "\<exists>s'. runUnderKey redisIdempotency ''k'' ''a'' (run_body mail_job ok_body) empty_redis =
      Some (Inr (JStr ''ok''), [], s') \<and>
    (let s1 = fold apply_op [Renews ''k'' ''a'' 30000, Waits 3600000, Completes ''k'' ''c'' None 1, Forgets ''other''] s'
     in runUnderKey redisIdempotency ''k'' ''b'' no_run s1 = Some (Inr (JStr ''ok''), [], s1))"
proof -
  have acquired: "ids_acquire redisIdempotency ''k'' ''a'' IDEMPOTENCY_LEASE_MS empty_redis =
      (Inr (LeaseAcquired ''a''), leased_redis ''k'' ''a'')"
    by (simp add: redis_store_defs leased_redis_def)
  obtain s' where "ids_complete redisIdempotency ''k'' ''a'' (keptResultOf (JStr ''ok''))
      IDEMPOTENCY_RESULT_RETENTION_MS (leased_redis ''k'' ''a'') = (Inr (), s')"
    by (simp add: redis_store_defs)
  then have ran: "runUnderKey redisIdempotency ''k'' ''a'' (run_body mail_job ok_body) empty_redis =
      Some (Inr (JStr ''ok''), [], s')"
    by (simp add: runUnderKey_def acquired run_body_def ok_body_def finish_body_def mail_job_def)
  have "leaves_key redis_view redis_inv ''k'' ''a'' ok_body"
    by (simp add: leaves_key_def ok_body_def)
  from completed_key_replays_its_result [OF _ _ this ran, of
      "[Renews ''k'' ''a'' 30000, Waits 3600000, Completes ''k'' ''c'' None 1, Forgets ''other'']" "''b''" no_run] ran
  show ?thesis
    by (auto simp: Let_def IDEMPOTENCY_RESULT_RETENTION_MS_def keptResultOf_def serialize_def stringify_def kept_value_def
        json_quoted_def quoted_def json_char_def IDEMPOTENCY_MAX_RESULT_BYTES_def)
qed


text \<open>
  C7: a handler that outruns its \<open>timeoutMs\<close> fails its delivery with the body still
  running, and the key stays held by that delivery; when the body ends, the key is
  completed with the body's own result, or freed if the body failed.
\<close>

theorem timed_out_body_keeps_its_key:
  assumes "redis_inv s" and "redis_view s key = Absent" and "jd_timeoutMs d = Some ms"
    and "list_all quiet pre" and "leaves_key redis_view redis_inv key t (pre @ TimerFired # post)"
    and "runUnderKey redisIdempotency key t (run_body d (pre @ TimerFired # post)) s = Some (out, rest, s')"
    and "settleWhenBodyEnds redisIdempotency key t (follow_body (finish_body d) rest) s' = Some s''"
  shows "out = Inl (HandlerTimeoutError (jd_name d) ms) \<and> redis_view s' key = HeldBy t \<and>
    (\<exists>r evs s2. follow_body (finish_body d) post (renewWhileRunning redisIdempotency key t) s' = Some (r, evs, s2) \<and>
       redis_view s'' key =
         (case r of Inr v \<Rightarrow> Complete (redis_kept (keptResultOf v)) | Inl e \<Rightarrow> Absent))"
  using redis_bodies.timed_out_body [OF assms(1-6), where fin = "finish_body d"] assms(7) by blast

definition slow_body :: "redis body_event list" where
  "slow_body = [RenewTick, TimerFired, BodyReturns (JStr ''late'')]"

theorem timed_out_body_keeps_its_key_witness:
  "\<exists>s' s''. runUnderKey redisIdempotency ''k'' ''a'' (run_body mail_job slow_body) empty_redis =
      Some (Inl (HandlerTimeoutError ''mail'' (JFin 5000)), [BodyReturns (JStr ''late'')], s') \<and>
    redis_view s' ''k'' = HeldBy ''a'' \<and> redis_view s'' ''k'' = Complete (Some (JStr ''late''))"
proof -
  have acquired: "ids_acquire redisIdempotency ''k'' ''a'' IDEMPOTENCY_LEASE_MS empty_redis =
      (Inr (LeaseAcquired ''a''), leased_redis ''k'' ''a'')"
    by (simp add: redis_store_defs leased_redis_def)
  let ?pre = "[RenewTick] :: redis body_event list" and ?post = "[BodyReturns (JStr ''late'')] :: redis body_event list"
  have body: "slow_body = ?pre @ TimerFired # ?post" by (simp add: slow_body_def)
  have mail: "jd_timeoutMs mail_job = Some (JFin 5000)" "jd_name mail_job = ''mail''"
    by (simp_all add: mail_job_def)
  have ran: "runUnderKey redisIdempotency ''k'' ''a'' (run_body mail_job (?pre @ TimerFired # ?post)) empty_redis =
      Some (Inl (HandlerTimeoutError ''mail'' (JFin 5000)), ?post, leased_redis ''k'' ''a'')"
    using run_body_timeout [of ?pre mail_job "JFin 5000" ?post] mail
    by (simp add: runUnderKey_def acquired)
  obtain s'' where settled: "settleWhenBodyEnds redisIdempotency ''k'' ''a'' (follow_body (finish_body mail_job) ?post)
      (leased_redis ''k'' ''a'') = Some s''"
    by (simp add: settleWhenBodyEnds_def finish_body_def mail_job_def)
  have "leaves_key redis_view redis_inv ''k'' ''a'' (?pre @ TimerFired # ?post)"
    by (simp add: leaves_key_def)
  from timed_out_body_keeps_its_key [OF _ _ mail(1) _ this ran settled]
  have "redis_view s'' ''k'' = Complete (Some (JStr ''late''))"
    by (auto simp: finish_body_def mail_job_def keptResultOf_def serialize_def stringify_def
        json_quoted_def quoted_def json_char_def
        IDEMPOTENCY_MAX_RESULT_BYTES_def)
  with ran show ?thesis unfolding body by auto
qed

text \<open>
  C26: a lease renewed on its interval outlives any pause shorter than the lease, the
  interval being a third of it; a lease nothing renews is gone once it has passed.
\<close>

theorem renewed_lease_survives:
  assumes "redis_inv s" and "redis_view s key = HeldBy t"
  shows "redis_view (redis_wait d (renewWhileRunning redisIdempotency key t s)) key =
      (if d < 3 * IDEMPOTENCY_RENEW_MS then HeldBy t else Absent)"
  using redis_renew_keeps [OF assms, of d IDEMPOTENCY_LEASE_MS]
  by (simp add: renewWhileRunning_def redisIdempotency_def IDEMPOTENCY_LEASE_MS_def IDEMPOTENCY_RENEW_MS_def)

theorem renewed_lease_survives_witness:
  "redis_view (redis_wait 29999 (renewWhileRunning redisIdempotency ''k'' ''a'' (leased_redis ''k'' ''a''))) ''k'' = HeldBy ''a'' \<and>
   redis_view (redis_wait 30000 (renewWhileRunning redisIdempotency ''k'' ''a'' (leased_redis ''k'' ''a''))) ''k'' = Absent"
  using renewed_lease_survives [OF leased_redis_simps(1,2), of 29999 "''k''" "''a''"]
    renewed_lease_survives [OF leased_redis_simps(1,2), of 30000 "''k''" "''a''"]
  by (simp add: IDEMPOTENCY_RENEW_MS_def)

text \<open>
  C25: a worker whose lease expired and whose key a second worker took can neither
  renew, nor complete, nor free that lease: the whole store is as it was, the instants
  its keys expire at included.
\<close>

theorem stale_worker_is_powerless:
  assumes "redis_inv s" and "redis_view s key = HeldBy t'" and "t \<noteq> t'"
  shows "ids_renew redisIdempotency key t IDEMPOTENCY_LEASE_MS s = (Inr (), s) \<and>
    ids_complete redisIdempotency key t kept IDEMPOTENCY_RESULT_RETENTION_MS s = (Inr (), s) \<and>
    ids_release redisIdempotency key t s = (Inr (), s)"
proof -
  from assms(1,2) have "redis_get (redisKey key) s = Some (heldBy t')"
    by (auto elim: redis_view_cases [where k = key])
  with assms(3) show ?thesis by (simp add: redis_store_defs)
qed

theorem stale_worker_is_powerless_witness:
  "ids_renew redisIdempotency ''k'' ''a'' IDEMPOTENCY_LEASE_MS (leased_redis ''k'' ''b'') = (Inr (), leased_redis ''k'' ''b'') \<and>
   ids_complete redisIdempotency ''k'' ''a'' None IDEMPOTENCY_RESULT_RETENTION_MS (leased_redis ''k'' ''b'') =
     (Inr (), leased_redis ''k'' ''b'')"
  using stale_worker_is_powerless [OF leased_redis_simps(1,2), of "''a''" "''b''" "''k''" None] by simp

text \<open>
  An operator forgetting a key deletes a kept result and nothing else: a key a
  delivery holds is refused and stays held, and no other key moves.
\<close>

theorem forget_spares_a_running_body:
  assumes "redis_inv s"
  shows "\<exists>s'. ids_forget redisIdempotency key s = (Inr (forget_for (redis_view s key)), s') \<and>
    redis_view s' = (redis_view s)(key := (case redis_view s key of HeldBy t \<Rightarrow> HeldBy t | _ \<Rightarrow> Absent))"
  using redis_leases.forget_law [OF assms, of key] by blast

theorem forget_spares_a_running_body_witness:
  "\<exists>s'. ids_forget redisIdempotency ''k'' (leased_redis ''k'' ''a'') = (Inr Running, s') \<and>
    redis_view s' ''k'' = HeldBy ''a''"
  using forget_spares_a_running_body [OF leased_redis_simps(1), of "''k''" "''k''" "''a''"]
  by (auto simp: forget_for_def)

text \<open>
  The memory store and the Redis store are one contract: two bodies never run
  under one key of the memory driver either, however their operations interleave.
\<close>

theorem one_body_under_a_memory_key:
  assumes "(lease_step memory_idempotency memory_view lease_inv key)\<^sup>*\<^sup>* sys sys'"
    and "initial_system memory_view lease_inv key sys"
    and "ls_phase sys' t = BodyRuns" and "ls_phase sys' t' = BodyRuns"
  shows "t = t'"
  using assms by (rule memory_leases.one_body_at_a_time)

definition memory_system :: "memory lease_system" where
  "memory_system = \<lparr>ls_state = memoryDriver_start, ls_phase = (\<lambda>t. Fresh)\<rparr>"

definition memory_system_held :: "memory lease_system" where
  "memory_system_held = \<lparr>ls_state = memoryDriver_start\<lparr>mem_leased := [''k'' \<mapsto> ''a'']\<rparr>, ls_phase = (\<lambda>t. Fresh)(''a'' := BodyRuns)\<rparr>"

theorem one_body_under_a_memory_key_witness:
  "(lease_step memory_idempotency memory_view lease_inv ''k'')\<^sup>*\<^sup>* memory_system memory_system_held \<and>
    {t. ls_phase memory_system_held t = BodyRuns} = {''a''}"
proof -
  have "lease_step memory_idempotency memory_view lease_inv ''k'' memory_system
      \<lparr>ls_state = memoryDriver_start\<lparr>mem_leased := [''k'' \<mapsto> ''a'']\<rparr>,
       ls_phase = (ls_phase memory_system)(''a'' := start_phase (LeaseAcquired ''a''))\<rparr>"
    by (rule lease_step.start) (simp_all add: memory_system_def memory_store_defs memoryDriver_start_def)
  then have reach: "(lease_step memory_idempotency memory_view lease_inv ''k'')\<^sup>*\<^sup>* memory_system memory_system_held"
    by (simp add: memory_system_held_def memory_system_def start_phase_def r_into_rtranclp)
  have initial: "initial_system memory_view lease_inv ''k'' memory_system"
    by (simp add: initial_system_def memory_system_def memory_view_def lease_inv_def memoryDriver_start_def)
  have a: "ls_phase memory_system_held ''a'' = BodyRuns" by (simp add: memory_system_held_def)
  have "t = ''a''" if "ls_phase memory_system_held t = BodyRuns" for t
    using one_body_under_a_memory_key [OF reach initial that a] .
  with a reach show ?thesis by blast
qed

end
