(* ===== verification/RuntimeGuarantees.thy ===== *)
theory RuntimeGuarantees
  imports Samples Runtime MemoryDriver
begin

text \<open>
  What the runtime guarantees of one delivery: over which children a handler runs,
  what a cancellation, a shutdown and an expired timer make of it, which failures are
  reported and buried and which are not, that it settles; and what starting a runtime
  checks and leaves open.
\<close>

section \<open>A configuration to evaluate with\<close>

definition no_hooks :: "'s job_hooks" where
  "no_hooks = \<lparr>hk_onStart = None, hk_onSuccess = None, hk_onAttemptFailed = None, hk_onDead = None\<rparr>"

definition memory_config :: "memory jobs_config" where
  "memory_config = \<lparr>cf_driver = memoryDriver, cf_definitions = Some [mail_job, digest_job],
     cf_deadQueues = Some [''post''], cf_timezone = None, cf_hooks = no_hooks\<rparr>"

definition delivery_of :: "envelope \<Rightarrow> nat \<Rightarrow> job_delivery" where
  "delivery_of env attempt = \<lparr>rd_id = ''7'', rd_attemptsStarted = attempt, jdv_attempt = attempt,
     jdv_maxAttempts = JFin 5, jdv_envelope = json (envelope_object env)\<rparr>"

definition handler :: "job_definition \<Rightarrow> 's body_event list \<Rightarrow> 's job_handler" where
  "handler d evs = \<lparr>jh_definition = d, jh_body = (\<lambda>data ctx. evs)\<rparr>"

lemma envelopeOf_delivery_of:
  "is_finite (env_v env) \<Longrightarrow> env_name env \<noteq> [] \<Longrightarrow> envelopeOf (delivery_of env n) = Inr (stored_envelope env)"
  by (simp add: envelopeOf_def delivery_of_def readEnvelope_stored)

lemma mail_envelope_stored [simp]:
  "stored_envelope mail_envelope = mail_envelope" "env_name mail_envelope = ''mail''"
  "env_v mail_envelope = JFin 1" "env_data mail_envelope = JStr ''hi''" "env_origin mail_envelope = Direct"
  by (simp_all add: mail_envelope_def stored_envelope_def stored_value_def)

lemma mail_delivered [simp]: "envelopeOf (delivery_of mail_envelope n) = Inr mail_envelope"
  by (simp add: envelopeOf_delivery_of)

section \<open>Children\<close>

text \<open>
  C3: whatever a delivery of a job that waits on children does with the body of its
  handler, so that another body would make a difference to it, it does over children that
  have all settled: none is pending, none failed, every slot holds at least as many
  results as the envelope records it was enqueued with, and what the body is given is,
  slot by slot in the order they were declared, an array of the results of that slot for
  one that waits on many and the first of them otherwise, each as the result schema of
  the definition in the slot gives it back.
\<close>

theorem handler_sees_settled_children:
  assumes "map_of byName (env_name env) = Some h" and "map_of byName' (env_name env) = Some (h\<lparr>jh_body := body\<rparr>)"
    and "slotsOf (jh_definition h) \<noteq> []"
    and "dispatch config uuid byName env event delivery s \<noteq> dispatch config uuid byName' env event delivery s"
  shows "\<exists>st s' data children.
    drv_flow_read (cf_driver config) (je_queue event) (rd_id delivery)
      (notify (hk_onStart (cf_hooks config)) event s) = (Inr st, s') \<and>
    \<not> num_lt (JFin 0) (fs_pending st) \<and> fs_failures st = [] \<and>
    (\<forall>sl \<in> set (slotsOf (jh_definition h)). \<exists>n. expectedIn (env_slots env) (sl_name sl) = Some n \<and>
       n \<le> int (arrivedIn st (sl_name sl))) \<and>
    list_all2 (\<lambda>sl (slot, given). slot = sl_name sl \<and>
        (\<exists>outs. list_all2 (\<lambda>r v. case jd_result (sl_definition sl) of
               None \<Rightarrow> v = cr_value r | Some schema \<Rightarrow> schema (cr_value r) = Value v)
             (filter (\<lambda>r. cr_slot r = sl_name sl) (fs_results st)) outs \<and>
           given = (if sl_many sl then JArr outs else (case outs of [] \<Rightarrow> JUndefined | v # _ \<Rightarrow> v))))
      (slotsOf (jh_definition h)) children \<and>
    (let cx = \<lparr>cx_id = je_id event, cx_attempt = jdv_attempt delivery, cx_maxAttempts = jdv_maxAttempts delivery,
           cx_origin = env_origin env, cx_children = children\<rparr>
     in jh_body h data cx \<noteq> body data cx)"
proof -
  let ?d = "jh_definition h" and ?s = "notify (hk_onStart (cf_hooks config)) event s"
  have same: "prepare config (h\<lparr>jh_body := body\<rparr>) env event delivery ?s = prepare config h env event delivery ?s"
    by (simp add: prepare_def)
  obtain data children s' where prepared: "prepare config h env event delivery ?s = (Inr (data, children), s')"
    and ran: "run_prepared config uuid h env event delivery data children s' \<noteq>
      run_prepared config uuid (h\<lparr>jh_body := body\<rparr>) env event delivery data children s'"
    using assms(4) by (auto simp: dispatch_def assms(1,2) same split: sum.splits prod.splits)
  from prepare_Inr [OF prepared assms(3)] obtain st where
    read: "drv_flow_read (cf_driver config) (je_queue event) (rd_id delivery) ?s = (Inr st, s')"
    and settled: "settledChildren ?d env st = Inr children" by blast
  have validated: "validateResult d r = Inr v \<longleftrightarrow>
      (case jd_result d of None \<Rightarrow> v = r | Some schema \<Rightarrow> schema r = Value v)" for d r v
    by (auto simp: validateResult_def split: option.splits schema_result.splits)
  have "list_all2 (\<lambda>sl (slot, given). slot = sl_name sl \<and>
        (\<exists>outs. list_all2 (\<lambda>r v. case jd_result (sl_definition sl) of
               None \<Rightarrow> v = cr_value r | Some schema \<Rightarrow> schema (cr_value r) = Value v)
             (filter (\<lambda>r. cr_slot r = sl_name sl) (fs_results st)) outs \<and>
           given = (if sl_many sl then JArr outs else (case outs of [] \<Rightarrow> JUndefined | v # _ \<Rightarrow> v))))
      (slotsOf ?d) children"
    using settled unfolding settledChildren_Inr_iff childrenOf_Inr_iff validated
    by (auto elim!: list_all2_mono)
  moreover have "jh_body h data cx \<noteq> body data cx"
    if "cx = \<lparr>cx_id = je_id event, cx_attempt = jdv_attempt delivery, cx_maxAttempts = jdv_maxAttempts delivery,
           cx_origin = env_origin env, cx_children = children\<rparr>" for cx
    using ran by (auto simp: run_prepared_def that)
  ultimately show ?thesis
    using read settled unfolding settledChildren_Inr_iff Let_def by blast
qed

definition digest_state :: flow_state where
  "digest_state = \<lparr>fs_results = [\<lparr>cr_slot = ''head'', cr_value = JNull\<rparr>, \<lparr>cr_slot = ''rows'', cr_value = JStr ''r''\<rparr>],
     fs_failures = [], fs_pending = JFin 0\<rparr>"

definition flow_config :: "flow_state \<Rightarrow> memory jobs_config" where
  "flow_config st = memory_config\<lparr>cf_driver := memoryDriver\<lparr>drv_flow_read := (\<lambda>q i s. (Inr st, s))\<rparr>\<rparr>"

definition digest_envelope :: envelope where
  "digest_envelope = \<lparr>env_v = JFin 1, env_name = ''digest'', env_data = JNull, env_origin = Flow,
     env_slots = Some [(''head'', 1), (''rows'', 1)]\<rparr>"

lemma digest_name: "env_name digest_envelope = ''digest''"
  by (simp add: digest_envelope_def)

lemma digest_migrates:
  "migrateEnvelope digest_job digest_envelope = Inr JNull" "validatePayload digest_job JNull = Inr JNull"
  using migrateEnvelope_current [of digest_envelope digest_job]
  by (simp_all add: digest_envelope_def digest_job_def payloadVersion_def DEFAULT_PAYLOAD_VERSION_def
      validatePayload_def any_payload_def)

lemma digest_known: "assertVersionIsKnown digest_job digest_envelope = Inr ()"
  by (simp add: assertVersionIsKnown_def digest_envelope_def digest_job_def payloadVersion_def DEFAULT_PAYLOAD_VERSION_def)

theorem handler_sees_settled_children_witness:
  "\<exists>children. children = [(''head'', JNull), (''rows'', JArr [JStr ''r''])] \<and>
    dispatch (flow_config digest_state) ''u'' [(''digest'', handler digest_job [BodyReturns JNull])] digest_envelope
      (event_of ''post'' digest_envelope (delivery_of digest_envelope 1)) (delivery_of digest_envelope 1) memoryDriver_start
    = Some (Inr JNull, [], memoryDriver_start)"
proof -
  let ?children = "[(''head'', JNull), (''rows'', JArr [JStr ''r''])]"
  let ?event = "event_of ''post'' digest_envelope (delivery_of digest_envelope 1)"
  let ?dispatch = "\<lambda>evs. dispatch (flow_config digest_state) ''u'' [(''digest'', handler digest_job evs)] digest_envelope
      ?event (delivery_of digest_envelope 1) memoryDriver_start"
  have settled: "settledChildren digest_job digest_envelope digest_state = Inr ?children"
    by (simp add: settledChildren_def childrenShort_def childrenOf_def digest_slots digest_state_def
        expectedIn_def arrivedIn_def digest_envelope_def mail_job_def)
  have prepared: "prepare (flow_config digest_state) (handler digest_job evs) digest_envelope
      ?event (delivery_of digest_envelope 1) memoryDriver_start = (Inr (JNull, ?children), memoryDriver_start)" for evs
    by (simp add: prepare_def handler_def digest_migrates childrenFor_def digest_slots settled flow_config_def
        memory_config_def bind_io_def catch_io_def)
  have facts: "jh_definition (handler digest_job evs) = digest_job" "jh_body (handler digest_job evs) data cx = evs"
    "hk_onStart (cf_hooks (flow_config digest_state)) = None" "hk_onSuccess (cf_hooks (flow_config digest_state)) = None"
    for evs :: "memory body_event list" and data cx
    by (simp_all add: handler_def flow_config_def memory_config_def no_hooks_def)
  have ran: "?dispatch [BodyReturns JNull] = Some (Inr JNull, [], memoryDriver_start)" "?dispatch [] = None"
    by (simp_all add: dispatch_def digest_name facts digest_known notify_def prepared run_prepared_def del: One_nat_def)
      (simp_all add: digest_job_def idempotencyKeyFor_def run_body_def finish_body_def validateResult_def notify_def
        facts(4))
  have handlers: "map_of [(''digest'', handler digest_job [BodyReturns JNull])] (env_name digest_envelope) =
      Some (handler digest_job [BodyReturns JNull])"
    "map_of [(''digest'', handler digest_job [])] (env_name digest_envelope) =
      Some ((handler digest_job [BodyReturns JNull])\<lparr>jh_body := (\<lambda>data cx. [])\<rparr>)"
    "slotsOf (jh_definition (handler digest_job [BodyReturns JNull])) \<noteq> []"
    by (simp_all add: digest_name handler_def digest_slots)
  have "?dispatch [BodyReturns JNull] \<noteq> ?dispatch []" unfolding ran by simp
  from handler_sees_settled_children [OF handlers this] obtain st children where
    "st = digest_state" "list_all2 (\<lambda>sl (slot, given). slot = sl_name sl \<and>
        (\<exists>outs. list_all2 (\<lambda>r v. case jd_result (sl_definition sl) of
               None \<Rightarrow> v = cr_value r | Some schema \<Rightarrow> schema (cr_value r) = Value v)
             (filter (\<lambda>r. cr_slot r = sl_name sl) (fs_results st)) outs \<and>
           given = (if sl_many sl then JArr outs else (case outs of [] \<Rightarrow> JUndefined | v # _ \<Rightarrow> v))))
      (slotsOf digest_job) children"
    by (auto simp: flow_config_def memory_config_def handler_def)
  then have "children = ?children"
    by (auto simp: digest_slots digest_state_def list_all2_Cons1 mail_job_def split: prod.splits)
  with ran(1) show ?thesis by blast
qed

text \<open>
  C24: a parent delivered while a child still runs is refused before its body starts and
  before anything is reported, on whatever attempt: no failure hook fires, nothing is
  buried, and the state is the one the start hook and the read left.
\<close>

theorem pending_parent_is_not_spent:
  assumes "envelopeOf delivery = Inr env" and "map_of byName (env_name env) = Some h"
    and "migrateEnvelope (jh_definition h) env = Inr migrated"
    and "validatePayload (jh_definition h) migrated = Inr data"
    and "slotsOf (jh_definition h) \<noteq> []"
    and "drv_flow_read (cf_driver config) queue (rd_id delivery)
      (notify (hk_onStart (cf_hooks config)) (event_of queue env delivery) s) = (Inr st, s')"
    and "num_lt (JFin 0) (fs_pending st)"
  shows "runOn config uuid byName queue delivery s =
    Some (Inl (ChildrenPendingError (jh_definition h) (fs_pending st)), [], s')"
proof -
  let ?event = "event_of queue env delivery"
  have known: "assertVersionIsKnown (jh_definition h) env = Inr ()"
    using assms(3) by (auto simp: migrateEnvelope_def bindE_Inr_iff)
  have "prepare config h env ?event delivery (notify (hk_onStart (cf_hooks config)) ?event s) =
      (Inl (ChildrenPendingError (jh_definition h) (fs_pending st)), s')"
    using assms(6) by (intro prepare_pending [OF assms(3-5) _ assms(7)]) (simp add: event_of_def)
  with assms(1,2) known show ?thesis
    by (simp add: runOn_def dispatch_def unreported_def)
qed

theorem pending_parent_is_not_spent_witness:
  "runOn (flow_config (digest_state\<lparr>fs_pending := JFin 1\<rparr>)) ''u'' [(''digest'', handler digest_job [])] ''post''
      (delivery_of digest_envelope 5) memoryDriver_start =
    Some (Inl (ChildrenPendingError digest_job (JFin 1)), [], memoryDriver_start)"
proof -
  have "envelopeOf (delivery_of digest_envelope 5) = Inr digest_envelope"
    using envelopeOf_delivery_of [of digest_envelope 5]
    by (simp add: digest_envelope_def stored_envelope_def stored_value_def)
  from pending_parent_is_not_spent [OF this, where h = "handler digest_job []" and migrated = JNull and data = JNull
      and st = "digest_state\<lparr>fs_pending := JFin 1\<rparr>" and s = memoryDriver_start and s' = memoryDriver_start
      and config = "flow_config (digest_state\<lparr>fs_pending := JFin 1\<rparr>)" and queue = "''post''"
      and byName = "[(''digest'', handler digest_job [])]" and uuid = "''u''"]
  show ?thesis
    by (simp add: handler_def digest_migrates digest_slots flow_config_def memory_config_def notify_def no_hooks_def
        digest_name)
qed

section \<open>Aborts\<close>

lemma cancelled_classes:
  "instance_of e C_CancelledError \<Longrightarrow> instance_of e k \<longleftrightarrow> k = C_CancelledError \<or> k = C_UnrecoverableError"
  by (cases e) auto

text \<open>
  C22: a delivery cancelled while its body runs either returns, which counts as a
  success, or fails as cancelled, whatever its handler threw and whatever else was
  aborted after it: it is reported, and buried under the reason \<open>cancelled\<close> on any
  attempt.
\<close>

theorem cancelled_delivery_is_buried:
  assumes "list_all quiet pre" and "run_body d (pre @ CancelSwept # post) renew s = Some (out, rest, s')"
  shows "case out of
      Inr v \<Rightarrow> \<exists>w. BodyReturns w \<in> set post \<and> validateResult d w = Inr v
    | Inl e \<Rightarrow> \<not> unreported e \<and> burialFor delivery e = Some (BuryFor Cancelled)"
proof (cases out)
  case (Inl e)
  with run_body_cancelled [OF assms(1)] assms(2) have "instance_of e C_CancelledError" by simp
  with Inl show ?thesis by (simp add: unreported_def cancelled_classes burialFor_cancelled)
next
  case (Inr v)
  with assms(2) run_body_Inr obtain w where
    w: "BodyReturns w \<in> set (pre @ CancelSwept # post)" "validateResult d w = Inr v" by metis
  moreover have "BodyReturns w \<notin> set pre" using assms(1) by (auto simp: list_all_iff)
  ultimately show ?thesis using Inr by auto
qed

theorem cancelled_delivery_is_buried_witness:
  "\<exists>e. run_body mail_job [CancelSwept, BodyThrows (Thrown (JStr ''stop''))] (\<lambda>s. s) () = Some (Inl e, [], ()) \<and>
    \<not> unreported e \<and> burialFor (delivery_of mail_envelope 1) e = Some (BuryFor Cancelled)"
proof -
  obtain e where run: "run_body mail_job ([] @ CancelSwept # [BodyThrows (Thrown (JStr ''stop''))]) (\<lambda>s. s) () = Some (Inl e, [], ())"
    by (simp add: run_body_def)
  from cancelled_delivery_is_buried [OF _ run, of "delivery_of mail_envelope 1"] run show ?thesis by auto
qed

text \<open>
  C23: a delivery a shutdown aborts ends as a return, as a failure its handler marked
  unrecoverable, or as the shutdown itself, which is given back to the queue without
  being reported.
\<close>

theorem shutdown_gives_the_delivery_back:
  assumes "list_all quiet pre" and "run_body d (pre @ ShutdownFired # post) renew s = Some (out, rest, s')"
  shows "case out of
      Inr v \<Rightarrow> \<exists>w. BodyReturns w \<in> set post \<and> validateResult d w = Inr v
    | Inl e \<Rightarrow> unreported e \<or> instance_of e C_UnrecoverableError"
proof (cases out)
  case (Inl e)
  with assms(2) have "run_body d (pre @ ShutdownFired # post) renew s = Some (Inl e, rest, s')" by simp
  from run_body_shutdown [OF assms(1) this] Inl show ?thesis by (auto simp: unreported_def)
next
  case (Inr v)
  with assms(2) run_body_Inr obtain w where
    w: "BodyReturns w \<in> set (pre @ ShutdownFired # post)" "validateResult d w = Inr v" by metis
  moreover have "BodyReturns w \<notin> set pre" using assms(1) by (auto simp: list_all_iff)
  ultimately show ?thesis using Inr by auto
qed

theorem shutdown_gives_the_delivery_back_witness:
  "\<exists>e. run_body mail_job [ShutdownFired, BodyThrows (Thrown (JStr ''stop''))] (\<lambda>s. s) () = Some (Inl e, [], ()) \<and> unreported e"
proof -
  let ?e = "abortedError ''mail'' (Some (ShutdownAbortError ''mail'' False)) (Thrown (JStr ''stop''))"
  have run: "run_body mail_job ([] @ ShutdownFired # [BodyThrows (Thrown (JStr ''stop''))]) (\<lambda>s. s) () = Some (Inl ?e, [], ())"
    by (simp add: run_body_def abort_with_def mail_job_def)
  have "\<not> instance_of ?e C_UnrecoverableError" by (simp add: abortedError_shutdown)
  with shutdown_gives_the_delivery_back [OF _ run] run show ?thesis by auto
qed

text \<open>
  A delivery whose body returns or throws settles, and so does one whose timer
  fires on a definition with a \<open>timeoutMs\<close>, whatever the body does after it.
\<close>

theorem delivery_settles:
  assumes "(\<exists>ev \<in> set evs. ends_body ev) \<or> TimerFired \<in> set evs \<and> jd_timeoutMs d \<noteq> None"
  shows "\<exists>out rest s'. run_body d evs renew s = Some (out, rest, s')"
  using assms by (rule run_body_settles)

theorem delivery_settles_witness:
  "\<exists>out rest s'. run_body mail_job [TimerFired] (\<lambda>s. s) () = Some (out, rest, s')"
  by (rule delivery_settles) (simp add: mail_job_def)

end
