(* ===== verification/FlowGuarantees.thy ===== *)
theory FlowGuarantees
  imports Samples RedisDriver DeadLetters
begin

text \<open>
  What a flow guarantees, from the enqueue of its tree to the read before its parent's
  handler: the tree is composed for its definitions, its envelope records the shape it
  was given, no two jobs of it share an id, and what BullMQ keeps of its children is
  read back slot by slot.
\<close>

section \<open>The tree\<close>

lemma digest_distinct_slots: "distinct_slots digest_job"
  by (simp add: distinct_slots.simps [of digest_job] distinct_slots.simps [of mail_job] digest_slots mail_slots)

definition digest_awaits :: jval where
  "digest_awaits = JObj [(''head'', JStr ''h''), (''rows'', JArr [JStr ''a'', JStr ''b''])]"

definition mail_child :: "string \<Rightarrow> flow_node" where
  "mail_child text = FlowNode ''post'' (writeEnvelope mail_job (JStr text) Flow) DELIVERY_DEFAULTS []"

definition digest_node :: flow_node where
  "digest_node = FlowNode ''post''
     ((writeEnvelope digest_job JNull Flow)\<lparr>env_slots := Some [(''head'', 1), (''rows'', 2)]\<rparr>) DELIVERY_DEFAULTS
     [(''head'', mail_child ''h''), (''rows'', mail_child ''a''), (''rows'', mail_child ''b'')]"

lemma digest_composes: "composeFlow digest_job JNull digest_awaits = Inr digest_node"
proof -
  have mail: "composeFlow mail_job (JStr t) JUndefined = Inr (mail_child t)" for t
    by (simp add: composeFlow.simps assertAwaitsInput_def mail_slots validatePayload_def mail_job_def any_payload_def
        resolveDelivery_def resolve_def delivery_defaults_for_def composed_node_def mail_child_def slotsOf_def awaits_of_def
        DELIVERY_DEFAULTS_def Let_def)
  have checked: "assertAwaitsInput digest_job digest_awaits = Inr digest_awaits"
    by (simp add: assertAwaitsInput_def digest_slots digest_awaits_def)
  have accepted: "validatePayload digest_job JNull = Inr JNull" "resolveDelivery digest_job JNull = Inr DELIVERY_DEFAULTS"
    by (simp_all add: validatePayload_def digest_job_def any_payload_def resolveDelivery_def resolve_def
        delivery_defaults_for_def)
  have "mapE (\<lambda>s. composeSlot s digest_awaits) (slotsOf digest_job) =
      Inr [[(''head'', mail_child ''h'')], [(''rows'', mail_child ''a''), (''rows'', mail_child ''b'')]]"
    by (simp add: digest_slots composeSlot.simps composeChild.simps childInput_def mail_slots mail digest_awaits_def)
  then show ?thesis
    by (simp add: composeFlow.simps [of digest_job] checked accepted composed_node_def digest_slots digest_node_def
        DELIVERY_DEFAULTS_def) (simp add: digest_job_def)
qed

text \<open>
  C14: whatever tree \<open>composeFlow\<close> accepts is composed for its definition at every
  level: each node goes to the queue of its definition, carries its name and version
  with the flow as origin and no uniqueness, records for every slot how many children
  fill it, and every child fills a slot of the definition and is composed for it.
\<close>

theorem composed_flow_is_well_composed:
  assumes "composeFlow d x aw = Inr node" and "distinct_slots d"
  shows "well_composed d node"
  using assms by (rule composeFlow_well_composed_aux(1))

theorem composed_flow_is_well_composed_witness: "well_composed digest_job digest_node"
  using composed_flow_is_well_composed [OF digest_composes digest_distinct_slots] .

text \<open>
  C15: a parent, its envelope stored and read back, waits for exactly the children its
  enqueue composed: no slot is short precisely when every slot holds at least as many
  results as the tree has children in it.
\<close>

theorem parent_waits_for_its_shape:
  assumes "composeFlow d x aw = Inr node" and "distinct_slots d"
  shows "childrenShort d (env_slots (stored_envelope (fn_envelope node))) st = None \<longleftrightarrow>
    (\<forall>sl \<in> set (slotsOf d). children_in node (sl_name sl) \<le> arrivedIn st (sl_name sl))"
  using well_composed_expectedIn [OF composeFlow_well_composed_aux(1) [OF assms] assms(2)]
  by (simp add: childrenShort_None_iff)

theorem parent_waits_for_its_shape_witness:
  "childrenShort digest_job (env_slots (stored_envelope (fn_envelope digest_node)))
      \<lparr>fs_results = [\<lparr>cr_slot = ''head'', cr_value = JNull\<rparr>, \<lparr>cr_slot = ''rows'', cr_value = JNull\<rparr>],
       fs_failures = [], fs_pending = JFin 0\<rparr> \<noteq> None"
  unfolding parent_waits_for_its_shape [OF digest_composes digest_distinct_slots]
  by (simp add: digest_slots children_in_def digest_node_def arrivedIn_def)

section \<open>The jobs of a flow\<close>

text \<open>
  C16: the flow handed to BullMQ stands for the composed tree node by node, every child
  under an id that names its slot and failing without failing its parent; and, the ids
  of \<open>randomUUID\<close> being distinct, no two jobs of it are stored under one id.
\<close>

theorem flow_jobs_are_told_apart:
  assumes "toFlowJob uuid n node = (job, n')" and "inj uuid" and "good_slots node"
  shows "stands_for job node \<and> distinct (descendant_ids job)"
  using toFlowJob_stands_for(1) [OF assms(1)] toFlowJob_minted(1) [OF assms] by (simp add: minted_def)

definition numbered :: "nat \<Rightarrow> string" where
  "numbered = show_nat"

theorem flow_jobs_are_told_apart_witness:
  "distinct (descendant_ids (fst (toFlowJob numbered 0 digest_node))) \<and>
    length (descendant_ids (fst (toFlowJob numbered 0 digest_node))) = 3"
proof -
  have "inj numbered" by (simp add: inj_def numbered_def)
  moreover have "good_slots digest_node"
    by (simp add: digest_node_def mail_child_def FLOW_ID_MARKER_def)
  ultimately have "distinct (descendant_ids (fst (toFlowJob numbered 0 digest_node)))"
    using flow_jobs_are_told_apart [of numbered 0 digest_node] by (metis prod.collapse)
  then show ?thesis by (simp add: digest_node_def mail_child_def)
qed

lemma childValue_json_text: "plain_value v \<Longrightarrow> v \<noteq> JUndefined \<Longrightarrow> childValue (json_text v) = json v"
  by (simp add: childValue_def json_text_def stringify_def json_parse_written reread_json)

text \<open>
  C37: what the script reads of a parent's three keys becomes, child by child, the
  result of the slot its id names, the failure with the id of its job, and the number
  still to come; a child that left the JSON text of what it returned gives that value.
\<close>

theorem flow_state_is_read_back:
  assumes "hgetall (key @ '':processed'') = map (settled_entry pre) done_children"
    and "hgetall (key @ '':failed'') = map (settled_entry pre) dead_children"
    and "scard (key @ '':dependencies'') = n"
    and "list_all settled_ok done_children" and "list_all settled_ok dead_children"
  shows "readFlowState (READ_FLOW_LUA hgetall scard key) =
    \<lparr>fs_results = map (settled_result) done_children,
     fs_failures = map settled_failure dead_children, fs_pending = of_count n\<rparr> \<and>
    (\<forall>queue slot uuid v. (queue, slot, uuid, json_text v) \<in> set done_children \<longrightarrow>
       plain_value v \<longrightarrow> v \<noteq> JUndefined \<longrightarrow>
       settled_result (queue, slot, uuid, json_text v) = \<lparr>cr_slot = slot, cr_value = json v\<rparr>)"
  using assms by (simp add: readFlowState_script [OF assms(1,2)] childValue_json_text)

definition two_keys :: "string \<Rightarrow> (string \<times> string) list" where
  "two_keys key =
     (if key = ''bull:post:7:processed'' then [(''bull:post:rows~1'', ''5'')]
      else if key = ''bull:post:7:failed'' then [(''bull:post:head~2'', ''boom'')] else [])"

lemma parse_five: "json_parse ''5'' = Some (JNum (JFin 5))"
  by code_simp

theorem flow_state_is_read_back_witness:
  "readFlowState (READ_FLOW_LUA two_keys (\<lambda>k. 0) ''bull:post:7'') =
    \<lparr>fs_results = [\<lparr>cr_slot = ''rows'', cr_value = JNum (JFin 5)\<rparr>],
     fs_failures = [\<lparr>cf_id = ''post:head~2'', cf_slot = ''head'', cf_reason = ''boom''\<rparr>], fs_pending = JFin 0\<rparr>"
  using flow_state_is_read_back [where hgetall = two_keys and scard = "\<lambda>k. 0" and key = "''bull:post:7''" and pre = "''bull''"
      and done_children = "[(''post'', ''rows'', ''1'', ''5'')]" and dead_children = "[(''post'', ''head'', ''2'', ''boom'')]" and n = 0]
  by (simp add: two_keys_def child_key_def composeChildId_def composeJobId_def FLOW_ID_MARKER_def plain_text_def
      slot_name_ok_def childValue_def parse_five of_count_def)

section \<open>Buried jobs\<close>

text \<open>
  A burial stored as JSON and read back is the burial: its job id, envelope, error
  with its cause, reason and, of a parent whose child died, what the children returned.
\<close>

theorem dead_record_round_trip:
  assumes "de_jobId e \<noteq> []" and "is_finite (env_v (de_envelope e))" and "env_name (de_envelope e) \<noteq> []"
  shows "readDeadEntry (json (dead_object e)) = Inr (stored_entry e)"
  using assms by (rule readDeadEntry_stored)

definition dead_mail :: dead_entry where
  "dead_mail = \<lparr>de_jobId = ''post:7'', de_envelope = mail_envelope,
     de_error = serializeError (new_error C_Error ''boom''),
     de_burial = BuryChildDead [\<lparr>cr_slot = ''rows'', cr_value = JStr ''r''\<rparr>]\<rparr>"

theorem dead_record_round_trip_witness: "readDeadEntry (json (dead_object dead_mail)) = Inr dead_mail"
  using dead_record_round_trip [of dead_mail]
  by (simp add: dead_mail_def stored_entry_def stored_envelope_def mail_envelope_def stored_value_def stored_child_def)

end
