(* ===== verification/Cancellations.thy ===== *)
theory Cancellations
  imports MemoryDriver RedisStore
begin

text \<open>
  The channel a cancellation travels through (\<open>src/src/Cancellation.ts\<close>): a client
  marks a delivery, and the runtime that runs it takes the mark. The locale
  \<open>cancel_channel\<close> is what a driver promises of it; the marks of the memory driver
  and the marks of Redis both keep it, so what is proved inside holds for both.
\<close>

locale cancel_channel =
  fixes request :: "string \<Rightarrow> running_delivery \<Rightarrow> 's \<Rightarrow> 's"
    and take_marked :: "string \<Rightarrow> running_delivery list \<Rightarrow> ('s, running_delivery list) io"
    and marks :: "'s \<Rightarrow> string \<Rightarrow> string \<Rightarrow> nat option"
  assumes request_law: "CHR '':'' \<notin> set q \<Longrightarrow> CHR '':'' \<notin> set q' \<Longrightarrow>
      marks (request q d s) q' i =
        (if q' = q \<and> i = rd_id d then Some (rd_attemptsStarted d) else marks s q' i)"
    and take_law: "CHR '':'' \<notin> set q \<Longrightarrow> distinct ds \<Longrightarrow>
      \<exists>s'. take_marked q ds s = (Inr (filter (\<lambda>d. marks s q (rd_id d) = Some (rd_attemptsStarted d)) ds), s') \<and>
        (\<forall>q' i. CHR '':'' \<notin> set q' \<longrightarrow>
          marks s' q' i =
            (if q' = q \<and> (\<exists>d \<in> set ds. rd_id d = i \<and> marks s q i = Some (rd_attemptsStarted d))
             then None else marks s q' i))"
begin

text \<open>A mark reaches the delivery it names, and that delivery alone.\<close>

lemma mark_reaches_its_delivery:
  assumes "CHR '':'' \<notin> set q" and "distinct ds" and "d \<in> set ds"
  shows "\<exists>taken s'. take_marked q ds (request q d s) = (Inr taken, s') \<and> d \<in> set taken \<and>
    (\<forall>e \<in> set taken. rd_id e = rd_id d \<longrightarrow> e = d) \<and>
    (\<forall>e \<in> set ds. rd_id e \<noteq> rd_id d \<longrightarrow>
       (e \<in> set taken \<longleftrightarrow> marks s q (rd_id e) = Some (rd_attemptsStarted e)))"
proof -
  let ?s = "request q d s"
  from take_law [OF assms(1,2), of ?s] obtain s' where
    t: "take_marked q ds ?s = (Inr (filter (\<lambda>d. marks ?s q (rd_id d) = Some (rd_attemptsStarted d)) ds), s')"
    by blast
  have same: "rd_id e = rd_id d \<Longrightarrow> rd_attemptsStarted e = rd_attemptsStarted d \<Longrightarrow> e = d" for e
    by simp
  from t assms(3) same show ?thesis
    by (auto simp: request_law [OF assms(1,1)])
qed

text \<open>What was taken once is not taken again.\<close>

lemma mark_is_taken_once:
  assumes "CHR '':'' \<notin> set q" and "distinct ds" and "distinct ds'"
    and "take_marked q ds s = (Inr taken, s')" and "take_marked q ds' s' = (Inr taken', s'')"
  shows "set taken \<inter> set taken' = {}"
proof -
  have taken: "taken = filter (\<lambda>d. marks s q (rd_id d) = Some (rd_attemptsStarted d)) ds"
    and after: "\<And>i. marks s' q i = (if \<exists>d \<in> set ds. rd_id d = i \<and> marks s q i = Some (rd_attemptsStarted d)
        then None else marks s q i)"
    using take_law [OF assms(1,2), of s] assms(1,4) by auto
  have "taken' = filter (\<lambda>d. marks s' q (rd_id d) = Some (rd_attemptsStarted d)) ds'"
    using take_law [OF assms(1,3), of s'] assms(5) by auto
  with taken after show ?thesis by auto
qed

text \<open>A delivery with another number is never taken by the mark.\<close>

lemma mark_spares_other_deliveries:
  assumes "CHR '':'' \<notin> set q" and "distinct ds" and "rd_attemptsStarted e \<noteq> rd_attemptsStarted d"
    and "rd_id e = rd_id d" and "take_marked q ds (request q d s) = (Inr taken, s')"
  shows "e \<notin> set taken"
  using take_law [OF assms(1,2), of "request q d s"] assms(3-5)
  by (auto simp: request_law [OF assms(1,1)])

end

section \<open>The marks of the memory driver\<close>

definition memory_request :: "string \<Rightarrow> running_delivery \<Rightarrow> memory \<Rightarrow> memory" where
  "memory_request q d = memory_requestCancel q (rd_id d) (rd_attemptsStarted d)"

definition memory_marks :: "memory \<Rightarrow> string \<Rightarrow> string \<Rightarrow> nat option" where
  "memory_marks s q i = mem_marked s (composeJobId q i)"

interpretation memory_channel: cancel_channel memory_request memory_takeCancelled memory_marks
proof (unfold_locales, goal_cases request taking)
  case (request q q' d s i)
  then show ?case
    by (auto simp: memory_request_def memory_requestCancel_def memory_marks_def composeJobId_inject)
next
  case (taking q ds s)
  then show ?case
    by (auto simp: memory_takeCancelled_def take_all_filter cancelled_in_def [abs_def] memory_marks_def
        composeJobId_inject)
qed

section \<open>The marks of Redis\<close>

definition redis_marks :: "redis \<Rightarrow> string \<Rightarrow> string \<Rightarrow> nat option" where
  "redis_marks s q i =
     (case redis_get (cancelPrefix q @ i) s of
        Some t \<Rightarrow> (if \<exists>n. t = show_nat n then read_nat t else None)
      | _ \<Rightarrow> None)"

lemma redis_marks_iff:
  "redis_marks s q i = Some n \<longleftrightarrow> redis_get (cancelPrefix q @ i) s = Some (show_nat n)"
  by (auto simp: redis_marks_def split: option.splits if_splits)

abbreviation redis_marked :: "redis \<Rightarrow> string \<Rightarrow> running_delivery \<Rightarrow> bool" where
  "redis_marked s p d \<equiv> redis_get (p @ rd_id d) s = Some (show_nat (rd_attemptsStarted d))"

lemma redis_marked_after_del:
  assumes "e \<noteq> d" and "redis_marked s p d"
  shows "redis_marked (redis_del (p @ rd_id d) s) p e = redis_marked s p e"
proof -
  from assms(1) have "rd_id e \<noteq> rd_id d \<or> rd_attemptsStarted e \<noteq> rd_attemptsStarted d" by auto
  with assms(2) show ?thesis by auto
qed

lemma at_positions_Cons:
  "at_positions xs (n # ns) = (if 1 \<le> n \<and> n \<le> length xs then [xs ! (n - 1)] else []) @ at_positions xs ns"
  by (simp add: at_positions_def)

lemma take_loop_law:
  assumes "distinct ds"
  shows "\<exists>taken s'. take_loop p (Suc (length before)) (map (\<lambda>d. (rd_id d, show_nat (rd_attemptsStarted d))) ds) s
      = (taken, s') \<and>
    at_positions (before @ ds) taken = filter (redis_marked s p) ds \<and>
    (\<forall>k. redis_get k s' =
       (if \<exists>d \<in> set ds. k = p @ rd_id d \<and> redis_marked s p d then None else redis_get k s))"
  using assms
proof (induction ds arbitrary: before s)
  case Nil
  show ?case by (simp add: at_positions_def)
next
  case (Cons d ds)
  show ?case
  proof (cases "redis_marked s p d")
    case False
    with Cons.IH [of "before @ [d]" s] Cons.prems show ?thesis by auto
  next
    case True
    let ?s = "redis_del (p @ rd_id d) s"
    have same: "e \<in> set ds \<Longrightarrow> redis_marked ?s p e = redis_marked s p e" for e
      using Cons.prems True by (intro redis_marked_after_del) auto
    from Cons.IH [of "before @ [d]" ?s] Cons.prems obtain taken s' where
      rest: "take_loop p (Suc (Suc (length before))) (map (\<lambda>d. (rd_id d, show_nat (rd_attemptsStarted d))) ds) ?s
          = (taken, s')"
        "at_positions (before @ d # ds) taken = filter (redis_marked ?s p) ds"
        "\<And>k. redis_get k s' =
          (if \<exists>e \<in> set ds. k = p @ rd_id e \<and> redis_marked ?s p e then None else redis_get k ?s)"
      by auto
    have "filter (redis_marked ?s p) ds = filter (redis_marked s p) ds"
      by (rule filter_cong) (simp_all only: same)
    then have "at_positions (before @ d # ds) (Suc (length before) # taken) = d # filter (redis_marked s p) ds"
      using rest(2) by (simp add: at_positions_Cons del: redis_get_del)
    moreover have "\<forall>k. redis_get k s' =
        (if \<exists>e \<in> set (d # ds). k = p @ rd_id e \<and> redis_marked s p e then None else redis_get k s)"
    proof
      fix k
      have "(\<exists>e \<in> set ds. k = p @ rd_id e \<and> redis_marked ?s p e) \<longleftrightarrow>
          (\<exists>e \<in> set ds. k = p @ rd_id e \<and> redis_marked s p e)"
        using same by blast
      with rest(3) [of k] True show "redis_get k s' =
          (if \<exists>e \<in> set (d # ds). k = p @ rd_id e \<and> redis_marked s p e then None else redis_get k s)"
        by auto
    qed
    ultimately show ?thesis
      using rest(1) True by (simp del: redis_get_del)
  qed
qed

lemma redis_marks_eqI:
  "redis_get (cancelPrefix q @ i) s' = redis_get (cancelPrefix q' @ i') s \<Longrightarrow>
    redis_marks s' q i = redis_marks s q' i'"
  by (simp add: redis_marks_def)

lemma redis_marks_gone: "redis_get (cancelPrefix q @ i) s = None \<Longrightarrow> redis_marks s q i = None"
  by (simp add: redis_marks_def)

lemma redis_take_law:
  assumes "CHR '':'' \<notin> set q" and "distinct ds"
  shows "\<exists>s'. redis_takeCancelled q ds s =
      (Inr (filter (\<lambda>d. redis_marks s q (rd_id d) = Some (rd_attemptsStarted d)) ds), s') \<and>
    (\<forall>q' i. CHR '':'' \<notin> set q' \<longrightarrow>
      redis_marks s' q' i =
        (if q' = q \<and> (\<exists>d \<in> set ds. rd_id d = i \<and> redis_marks s q i = Some (rd_attemptsStarted d))
         then None else redis_marks s q' i))"
proof -
  from take_loop_law [OF assms(2), of "cancelPrefix q" "[]" s] obtain taken s' where
    t: "take_loop (cancelPrefix q) 1 (map (\<lambda>d. (rd_id d, show_nat (rd_attemptsStarted d))) ds) s = (taken, s')"
      "at_positions ds taken = filter (redis_marked s (cancelPrefix q)) ds"
      "\<And>k. redis_get k s' = (if \<exists>d \<in> set ds. k = cancelPrefix q @ rd_id d \<and> redis_marked s (cancelPrefix q) d
          then None else redis_get k s)"
    by auto
  have "redis_takeCancelled q ds s =
      (Inr (filter (\<lambda>d. redis_marks s q (rd_id d) = Some (rd_attemptsStarted d)) ds), s')"
    using t(1,2) by (cases "ds = []") (simp_all add: redis_takeCancelled_def TAKE_CANCELLED_LUA_def redis_marks_iff)
  moreover have "redis_marks s' q' i =
      (if q' = q \<and> (\<exists>d \<in> set ds. rd_id d = i \<and> redis_marks s q i = Some (rd_attemptsStarted d))
       then None else redis_marks s q' i)" if "CHR '':'' \<notin> set q'" for q' i
  proof -
    have "(\<exists>d \<in> set ds. cancelPrefix q' @ i = cancelPrefix q @ rd_id d \<and> redis_marked s (cancelPrefix q) d) \<longleftrightarrow>
        q' = q \<and> (\<exists>d \<in> set ds. rd_id d = i \<and> redis_marks s q i = Some (rd_attemptsStarted d))"
      using assms(1) that by (auto simp: cancel_key_inject redis_marks_iff)
    with t(3) [of "cancelPrefix q' @ i"] have "redis_get (cancelPrefix q' @ i) s' =
        (if q' = q \<and> (\<exists>d \<in> set ds. rd_id d = i \<and> redis_marks s q i = Some (rd_attemptsStarted d))
         then None else redis_get (cancelPrefix q' @ i) s)"
      by simp
    then show ?thesis
      by (cases "q' = q \<and> (\<exists>d \<in> set ds. rd_id d = i \<and> redis_marks s q i = Some (rd_attemptsStarted d))")
        (auto simp: redis_marks_gone intro: redis_marks_eqI)
  qed
  ultimately show ?thesis by blast
qed

interpretation redis_channel: cancel_channel redis_requestCancel redis_takeCancelled redis_marks
proof (unfold_locales, goal_cases request taking)
  case (request q q' d s i)
  have "0 < CANCEL_MARK_TTL_MS" by (simp add: CANCEL_MARK_TTL_MS_def)
  with request show ?case
    by (auto simp: redis_requestCancel_def redis_marks_iff cancel_key_inject intro: redis_marks_eqI)
next
  case (taking q ds s)
  then show ?case by (rule redis_take_law)
qed

end
