(* ===== verification/Sweeps.thy ===== *)
theory Sweeps
  imports Runtime Cancellations RedisDriver
begin

text \<open>
  The sweep of a runtime over a channel of cancellations: the client marks a delivery
  through one component, and the runtime that runs it aborts it through another. The
  locale \<open>cancel_sweep\<close> joins a driver to the channel it offers; a sweep aborts the
  marked deliveries and no other.
\<close>

section \<open>The deliveries of a runtime, by their queue\<close>

definition swept :: "(string \<times> live_delivery list) list \<Rightarrow> live_delivery list" where
  "swept by_queue = concat (map snd by_queue)"

lemma mset_swept_add: "mset (swept (add_live d by_queue)) = add_mset d (mset (swept by_queue))"
  unfolding swept_def by (induction d by_queue rule: add_live.induct) auto

lemma mset_swept: "mset (swept (liveByQueue live)) = mset live"
proof -
  have "mset (swept (fold add_live live by_queue)) = mset live + mset (swept by_queue)" for by_queue
    by (induction live arbitrary: by_queue) (simp_all add: mset_swept_add)
  then show ?thesis by (simp add: liveByQueue_def swept_def)
qed

lemma keys_add: "fst ` set (add_live d by_queue) = insert (lv_queue d) (fst ` set by_queue)"
  by (induction d by_queue rule: add_live.induct) auto

lemma distinct_keys_add: "distinct (map fst by_queue) \<Longrightarrow> distinct (map fst (add_live d by_queue))"
proof (induction d by_queue rule: add_live.induct)
  case (2 d q ds rest)
  then show ?case using keys_add [of d rest] by (auto simp: image_iff)
qed simp

lemma distinct_keys: "distinct (map fst (liveByQueue live))"
proof -
  have "distinct (map fst by_queue) \<Longrightarrow> distinct (map fst (fold add_live live by_queue))" for by_queue
    by (induction live arbitrary: by_queue) (simp_all add: distinct_keys_add)
  then show ?thesis by (simp add: liveByQueue_def)
qed

lemma keys_liveByQueue: "fst ` set (liveByQueue live) = lv_queue ` set live"
proof -
  have "fst ` set (fold add_live live by_queue) = lv_queue ` set live \<union> fst ` set by_queue" for by_queue
    by (induction live arbitrary: by_queue) (simp_all add: keys_add)
  then show ?thesis by (simp add: liveByQueue_def)
qed

lemma as_running_sel [simp]:
  "rd_id (as_running d) = rd_id d" "rd_attemptsStarted (as_running d) = rd_attemptsStarted d"
  by (simp_all add: as_running_def running_delivery.defs)

text \<open>
  A list of deliveries by queue as a sweep needs it: each queue once, each delivery
  under its queue, and no two of one queue the same, nor two with one controller.
\<close>

definition tidy :: "(string \<times> live_delivery list) list \<Rightarrow> bool" where
  "tidy by_queue \<longleftrightarrow>
     distinct (map fst by_queue) \<and> filed by_queue \<and>
     (\<forall>(q, ds) \<in> set by_queue. distinct (map as_running ds)) \<and>
     distinct (map lv_controller (swept by_queue))"

definition told_apart :: "live_delivery list \<Rightarrow> bool" where
  "told_apart live \<longleftrightarrow>
     distinct (map (\<lambda>d. (lv_queue d, as_running d)) live) \<and> distinct (map lv_controller live)"

lemma distinct_map_mset: "mset xs = mset ys \<Longrightarrow> distinct (map f xs) = distinct (map f ys)"
  by (metis mset_eq_imp_distinct_iff mset_map)

lemma tidy_liveByQueue:
  assumes "told_apart live"
  shows "tidy (liveByQueue live)"
proof -
  have all: "distinct (map (\<lambda>d. (lv_queue d, as_running d)) (swept (liveByQueue live)))"
    using assms distinct_map_mset [OF mset_swept] by (auto simp: told_apart_def)
  have each: "distinct (map as_running ds)" if "(q, ds) \<in> set (liveByQueue live)" for q ds
  proof -
    have "distinct (map (\<lambda>d. (lv_queue d, as_running d)) ds)"
      using all that by (induction "liveByQueue live" rule: list.induct)
        (auto simp: swept_def distinct_map distinct_concat_iff inj_on_def)
    moreover have "\<forall>d \<in> set ds. lv_queue d = q"
      using liveByQueue_filed [of live] that by (auto simp: filed_def)
    ultimately show ?thesis by (auto simp: distinct_map inj_on_def)
  qed
  show ?thesis
    using assms distinct_keys [of live] liveByQueue_filed [of live] each distinct_map_mset [OF mset_swept, of lv_controller live]
    by (auto simp: tidy_def told_apart_def)
qed

section \<open>A sweep\<close>

locale cancel_sweep = cancel_channel request "drv_takeCancelled drv" marks
  for request :: "string \<Rightarrow> running_delivery \<Rightarrow> 's \<Rightarrow> 's"
    and drv :: "'s job_driver"
    and marks :: "'s \<Rightarrow> string \<Rightarrow> string \<Rightarrow> nat option"
begin

definition marked :: "'s \<Rightarrow> live_delivery \<Rightarrow> bool" where
  "marked s d \<longleftrightarrow> marks s (lv_queue d) (rd_id d) = Some (rd_attemptsStarted d)"

lemma sweep_queues_aborts:
  assumes "tidy by_queue" and "\<forall>q \<in> fst ` set by_queue. CHR '':'' \<notin> set q"
  shows "\<exists>cs' s'. sweep_queues drv by_queue cs s = (Inr cs', s') \<and>
    (\<forall>d \<in> set (swept by_queue). cs' (lv_controller d) =
       (if marked s d then abort_with (CancelledError (lv_name d) False) (cs (lv_controller d))
        else cs (lv_controller d))) \<and>
    (\<forall>n. n \<notin> lv_controller ` set (swept by_queue) \<longrightarrow> cs' n = cs n)"
  using assms
proof (induction by_queue arbitrary: cs s)
  case Nil
  show ?case by (simp add: swept_def)
next
  case (Cons entry rest)
  obtain q ds where entry: "entry = (q, ds)" by fastforce
  let ?hit = "\<lambda>d. marks s q (rd_id d) = Some (rd_attemptsStarted d)"
  let ?cs = "abort_live (\<lambda>name. CancelledError name False)
      (filter (\<lambda>d. as_running d \<in> set (filter ?hit (map as_running ds))) ds) cs"
  from Cons.prems entry have q: "CHR '':'' \<notin> set q" "distinct (map as_running ds)"
    and here: "\<forall>d \<in> set ds. lv_queue d = q" and away: "q \<notin> fst ` set rest"
    and tidy: "tidy rest" "distinct (map lv_controller (ds @ swept rest))"
    by (auto simp: tidy_def swept_def filed_def)
  from take_law [OF q, of s] obtain s1 where
    took: "drv_takeCancelled drv q (map as_running ds) s = (Inr (filter ?hit (map as_running ds)), s1)"
    and after: "\<And>q' i. CHR '':'' \<notin> set q' \<Longrightarrow> q' \<noteq> q \<Longrightarrow> marks s1 q' i = marks s q' i"
    by auto
  have same: "marked s1 d = marked s d" if "d \<in> set (swept rest)" for d
  proof -
    from that obtain q' ds' where d: "(q', ds') \<in> set rest" "d \<in> set ds'" by (auto simp: swept_def)
    then have "lv_queue d = q'" using tidy(1) by (auto simp: tidy_def filed_def)
    moreover have "q' \<noteq> q" "CHR '':'' \<notin> set q'" using d(1) away Cons.prems(2) by (auto simp: image_iff)
    ultimately show ?thesis by (simp add: marked_def after)
  qed
  from Cons.IH [OF tidy(1), of ?cs s1] Cons.prems(2) obtain cs' s' where
    rest: "sweep_queues drv rest ?cs s1 = (Inr cs', s')"
      "\<forall>d \<in> set (swept rest). cs' (lv_controller d) =
         (if marked s1 d then abort_with (CancelledError (lv_name d) False) (?cs (lv_controller d))
          else ?cs (lv_controller d))"
      "\<forall>n. n \<notin> lv_controller ` set (swept rest) \<longrightarrow> cs' n = ?cs n"
    by auto
  define hits where "hits = filter (\<lambda>d. as_running d \<in> set (filter ?hit (map as_running ds))) ds"
  have hits: "d \<in> set hits \<longleftrightarrow> d \<in> set ds \<and> marked s d" for d
    using here by (auto simp: hits_def marked_def as_running_sel)
  have own: "inj_on lv_controller (set ds)" "lv_controller ` set ds \<inter> lv_controller ` set (swept rest) = {}"
    "distinct (map lv_controller hits)"
    using tidy(2) by (auto simp: distinct_map hits_def inj_on_def)
  have spared: "?cs n = cs n" if "n \<notin> lv_controller ` set hits" for n
    unfolding hits_def [symmetric] using that by (intro abort_live_other) auto
  have first: "cs' (lv_controller d) =
      (if marked s d then abort_with (CancelledError (lv_name d) False) (cs (lv_controller d))
       else cs (lv_controller d))" if "d \<in> set ds" for d
  proof -
    have "cs' (lv_controller d) = ?cs (lv_controller d)" using rest(3) own(2) that by blast
    moreover have "?cs (lv_controller d) = abort_with (CancelledError (lv_name d) False) (cs (lv_controller d))"
      if "marked s d"
      using abort_live_aborts [of d hits] hits [of d] own(3) that \<open>d \<in> set ds\<close> by (simp add: hits_def)
    moreover have "?cs (lv_controller d) = cs (lv_controller d)" if "\<not> marked s d"
      using hits own(1) that \<open>d \<in> set ds\<close> by (intro spared) (auto dest: inj_onD)
    ultimately show ?thesis by simp
  qed
  have later: "?cs n = cs n" if "n \<notin> lv_controller ` set ds" for n
    using hits that by (intro spared) auto
  have "sweep_queues drv (entry # rest) cs s = (Inr cs', s')"
    using took rest(1) by (simp add: entry)
  moreover have "\<forall>d \<in> set (swept (entry # rest)). cs' (lv_controller d) =
      (if marked s d then abort_with (CancelledError (lv_name d) False) (cs (lv_controller d))
       else cs (lv_controller d))"
  proof
    fix d assume "d \<in> set (swept (entry # rest))"
    then consider "d \<in> set ds" | "d \<in> set (swept rest)" by (auto simp: swept_def entry)
    then show "cs' (lv_controller d) =
      (if marked s d then abort_with (CancelledError (lv_name d) False) (cs (lv_controller d))
       else cs (lv_controller d))"
    proof cases
      case 1
      then show ?thesis by (rule first)
    next
      case 2
      moreover have "?cs (lv_controller d) = cs (lv_controller d)" using 2 own(2) by (intro later) auto
      ultimately show ?thesis using rest(2) same by simp
    qed
  qed
  moreover have "\<forall>n. n \<notin> lv_controller ` set (swept (entry # rest)) \<longrightarrow> cs' n = cs n"
    using rest(3) later by (simp add: swept_def entry image_Un)
  ultimately show ?case by blast
qed

text \<open>A sweep of the deliveries a runtime is running aborts the marked ones, and no other.\<close>

lemma sweep_aborts_the_marked:
  assumes "told_apart live" and "\<forall>d \<in> set live. CHR '':'' \<notin> set (lv_queue d)" and "d \<in> set live"
  shows "\<exists>cs' s'. sweepCancellations drv live cs s = (Inr cs', s') \<and>
    cs' (lv_controller d) =
      (if marks s (lv_queue d) (rd_id d) = Some (rd_attemptsStarted d)
       then abort_with (CancelledError (lv_name d) False) (cs (lv_controller d)) else cs (lv_controller d))"
proof -
  have same: "set (swept (liveByQueue live)) = set live" using mset_swept by (rule mset_eq_setD)
  have keys: "\<forall>q \<in> fst ` set (liveByQueue live). q \<in> lv_queue ` set live"
    using keys_liveByQueue by auto
  with assms(2) have "\<forall>q \<in> fst ` set (liveByQueue live). CHR '':'' \<notin> set q" by auto
  from sweep_queues_aborts [OF tidy_liveByQueue [OF assms(1)] this, of cs s] assms(3) same
  show ?thesis unfolding sweepCancellations_def marked_def by blast
qed

end

section \<open>The sweeps of the two drivers\<close>

interpretation memory_sweep: cancel_sweep memory_request memoryDriver memory_marks
  using memory_channel.cancel_channel_axioms by (simp add: cancel_sweep_def memoryDriver_def)

definition world_request :: "string \<Rightarrow> running_delivery \<Rightarrow> 'b redis_world \<Rightarrow> 'b redis_world" where
  "world_request q d w = w\<lparr>rw_redis := redis_requestCancel q d (rw_redis w)\<rparr>"

definition world_marks :: "'b redis_world \<Rightarrow> string \<Rightarrow> string \<Rightarrow> nat option" where
  "world_marks w = redis_marks (rw_redis w)"

interpretation world_sweep: cancel_sweep world_request "redisDriver bull uuid connection" world_marks
  for bull uuid connection
proof (unfold_locales, goal_cases request taking)
  case (request q q' d w i)
  then show ?case by (simp add: world_request_def world_marks_def redis_channel.request_law)
next
  case (taking q ds w)
  from redis_channel.take_law [OF this, of "rw_redis w"] obtain k where
    k: "redis_takeCancelled q ds (rw_redis w) =
        (Inr (filter (\<lambda>d. world_marks w q (rd_id d) = Some (rd_attemptsStarted d)) ds), k)"
      "\<forall>q' i. CHR '':'' \<notin> set q' \<longrightarrow> redis_marks k q' i =
        (if q' = q \<and> (\<exists>d \<in> set ds. rd_id d = i \<and> world_marks w q i = Some (rd_attemptsStarted d))
         then None else world_marks w q' i)"
    unfolding world_marks_def by blast
  have "drv_takeCancelled (redisDriver bull uuid connection) q ds w =
      (Inr (filter (\<lambda>d. world_marks w q (rd_id d) = Some (rd_attemptsStarted d)) ds), w\<lparr>rw_redis := k\<rparr>)"
    using k(1) by (simp add: redisDriver_def on_redis_apply)
  moreover have "world_marks (w\<lparr>rw_redis := k\<rparr>) = redis_marks k" by (simp add: world_marks_def)
  ultimately show ?case using k(2) by auto
qed

end
