(* ===== verification/Lifecycle.thy ===== *)
theory Lifecycle
  imports Sweeps
begin

text \<open>
  A runtime between its start and its close (\<open>startRuntime\<close> of \<open>src/src/Runtime.ts\<close>):
  the set of deliveries whose body is running, the controllers their signals come
  from, the interval that sweeps for cancellations, and the calls of \<open>close\<close> under
  way. Deliveries, ticks, sweeps and closes interleave: one rule of \<open>runtime_step\<close> per
  thing that can happen next, each labelled with what happened.

  A sweep waits for the driver between two queues, so a sweep under way is the list of
  queues it has left, read off the live set when it began; a tick does not wait for
  the sweep of the tick before it.
\<close>

section \<open>The state\<close>

text \<open>
  \<open>rt_fresh\<close> is the number of the next \<open>AbortController\<close>; \<open>rt_sweeping\<close> says that the
  interval is set; \<open>rt_closes\<close> holds the \<open>timeoutMs\<close> of each call of \<open>close\<close> that waits.
\<close>

record runtime =
  rt_live :: "live_delivery list"
  rt_controllers :: controllers
  rt_fresh :: nat
  rt_sweeping :: bool
  rt_sweeps :: "(string \<times> live_delivery list) list list"
  rt_closes :: "jnum option list"

definition started_runtime :: runtime where
  "started_runtime = \<lparr>rt_live = [], rt_controllers = (\<lambda>n. None), rt_fresh = 0, rt_sweeping = True,
     rt_sweeps = [], rt_closes = []\<rparr>"

section \<open>What happens to a body\<close>

definition begin_body :: "string \<Rightarrow> string \<Rightarrow> running_delivery \<Rightarrow> runtime \<Rightarrow> live_delivery \<times> runtime" where
  "begin_body queue name delivery rt =
     (let entry = running_delivery.extend delivery
            \<lparr>lv_queue = queue, lv_name = name, lv_controller = rt_fresh rt\<rparr>
      in (entry, rt\<lparr>rt_live := rt_live rt @ [entry], rt_fresh := Suc (rt_fresh rt)\<rparr>))"

definition end_body :: "live_delivery \<Rightarrow> runtime \<Rightarrow> runtime" where
  "end_body d rt = rt\<lparr>rt_live := remove1 d (rt_live rt)\<rparr>"

text \<open>The timer of \<open>runUnderTimeout\<close> aborts the signal, and the attempt is over.\<close>

definition expire_body :: "live_delivery \<Rightarrow> jnum \<Rightarrow> runtime \<Rightarrow> runtime" where
  "expire_body d timeoutMs rt =
     end_body d (rt\<lparr>rt_controllers := (rt_controllers rt)(lv_controller d :=
       abort_with (HandlerTimeoutError (lv_name d) timeoutMs) (rt_controllers rt (lv_controller d)))\<rparr>)"

section \<open>The sweep\<close>

definition sweep_tick :: "runtime \<Rightarrow> runtime" where
  "sweep_tick rt =
     (if rt_live rt = [] then rt else rt\<lparr>rt_sweeps := liveByQueue (rt_live rt) # rt_sweeps rt\<rparr>)"

text \<open>The queues a sweep has left are put back in its place; a sweep with none is over.\<close>

definition with_sweep ::
    "(string \<times> live_delivery list) list \<Rightarrow> (string \<times> live_delivery list) list \<Rightarrow> runtime \<Rightarrow> runtime" where
  "with_sweep sweep left rt =
     rt\<lparr>rt_sweeps := (if left = [] then [] else [left]) @ remove1 sweep (rt_sweeps rt)\<rparr>"

definition sweep_next ::
    "'s job_driver \<Rightarrow> string \<Rightarrow> live_delivery list \<Rightarrow> (string \<times> live_delivery list) list \<Rightarrow> runtime \<Rightarrow>
      ('s, live_delivery list \<times> runtime) io" where
  "sweep_next drv queue running left rt =
     bind_io (drv_takeCancelled drv queue (map as_running running)) (\<lambda>cancelled.
       let aborted = filter (\<lambda>d. as_running d \<in> set cancelled) running
       in ret_io (aborted, with_sweep ((queue, running) # left) left
            (rt\<lparr>rt_controllers := abort_live (\<lambda>name. CancelledError name False) aborted (rt_controllers rt)\<rparr>)))"

section \<open>Closing\<close>

text \<open>However \<open>drainConsumers\<close> ends, the \<open>finally\<close> of \<open>close\<close> clears the interval.\<close>

definition close_called :: "jnum option \<Rightarrow> runtime \<Rightarrow> runtime" where
  "close_called timeoutMs rt = rt\<lparr>rt_closes := timeoutMs # rt_closes rt\<rparr>"

definition close_settled :: "jnum option \<Rightarrow> runtime \<Rightarrow> runtime" where
  "close_settled timeoutMs rt = rt\<lparr>rt_closes := remove1 timeoutMs (rt_closes rt), rt_sweeping := False\<rparr>"

definition close_expired :: "jnum \<Rightarrow> runtime \<Rightarrow> runtime" where
  "close_expired timeoutMs rt =
     close_settled (Some timeoutMs)
       (rt\<lparr>rt_controllers := drainConsumers True (rt_live rt) (rt_controllers rt)\<rparr>)"

section \<open>What can happen next\<close>

datatype runtime_event =
    Begins live_delivery
  | Ends live_delivery
  | TimesOut live_delivery jnum
  | Ticks
  | Swept "live_delivery list"
  | SweepFails
  | CloseCalled "jnum option"
  | Drains "jnum option"
  | CloseFails "jnum option"
  | Expires jnum "live_delivery list"
  | Elsewhere

inductive runtime_step ::
    "'s job_driver \<Rightarrow> runtime \<times> 's \<Rightarrow> runtime_event \<Rightarrow> runtime \<times> 's \<Rightarrow> bool" for drv where
  begins: "begin_body queue name delivery rt = (d, rt') \<Longrightarrow> runtime_step drv (rt, s) (Begins d) (rt', s)"
| ends: "d \<in> set (rt_live rt) \<Longrightarrow> runtime_step drv (rt, s) (Ends d) (end_body d rt, s)"
| times_out: "d \<in> set (rt_live rt) \<Longrightarrow>
    runtime_step drv (rt, s) (TimesOut d timeoutMs) (expire_body d timeoutMs rt, s)"
| ticks: "rt_sweeping rt \<Longrightarrow> runtime_step drv (rt, s) Ticks (sweep_tick rt, s)"
| swept: "(queue, running) # left \<in> set (rt_sweeps rt) \<Longrightarrow>
    sweep_next drv queue running left rt s = (Inr (aborted, rt'), s') \<Longrightarrow>
    runtime_step drv (rt, s) (Swept aborted) (rt', s')"
| sweep_fails: "(queue, running) # left \<in> set (rt_sweeps rt) \<Longrightarrow>
    sweep_next drv queue running left rt s = (Inl e, s') \<Longrightarrow>
    runtime_step drv (rt, s) SweepFails (with_sweep ((queue, running) # left) [] rt, s')"
| close_called: "runtime_step drv (rt, s) (CloseCalled timeoutMs) (close_called timeoutMs rt, s)"
| drains: "timeoutMs \<in> set (rt_closes rt) \<Longrightarrow>
    runtime_step drv (rt, s) (Drains timeoutMs) (close_settled timeoutMs rt, s)"
| close_fails: "timeoutMs \<in> set (rt_closes rt) \<Longrightarrow>
    runtime_step drv (rt, s) (CloseFails timeoutMs) (close_settled timeoutMs rt, s)"
| expires: "Some timeoutMs \<in> set (rt_closes rt) \<Longrightarrow>
    runtime_step drv (rt, s) (Expires timeoutMs (rt_live rt)) (close_expired timeoutMs rt, s)"
| elsewhere: "runtime_step drv (rt, s) Elsewhere (rt, s')"

inductive_cases ticks_stepE: "runtime_step drv (rt, s) Ticks (rt', s')"
inductive_cases expires_stepE: "runtime_step drv (rt, s) (Expires timeoutMs ds) (rt', s')"

text \<open>The runs of a runtime, with what happened in them, the latest last.\<close>

inductive runtime_run :: "'s job_driver \<Rightarrow> 's \<Rightarrow> runtime_event list \<Rightarrow> runtime \<times> 's \<Rightarrow> bool" for drv s0 where
  run_start: "runtime_run drv s0 [] (started_runtime, s0)"
| run_step: "runtime_run drv s0 tr (rt, s) \<Longrightarrow> runtime_step drv (rt, s) ev (rt', s') \<Longrightarrow>
    runtime_run drv s0 (tr @ [ev]) (rt', s')"

lemmas runtime_move_defs =
  begin_body_def end_body_def expire_body_def sweep_tick_def with_sweep_def close_called_def
  close_settled_def close_expired_def drainConsumers_def Let_def

section \<open>The invariant\<close>

text \<open>The deliveries a runtime can still reach: the live ones, and those a sweep under way was passed.\<close>

definition swept_by :: "(string \<times> live_delivery list) list list \<Rightarrow> live_delivery set" where
  "swept_by sweeps = (\<Union>sweep \<in> set sweeps. all_live sweep)"

definition reached :: "runtime \<Rightarrow> live_delivery set" where
  "reached rt = set (rt_live rt) \<union> swept_by (rt_sweeps rt)"

text \<open>
  Every delivery in reach has a controller of its own, made for it and for no other, and
  a controller not made yet was never aborted; no queue of a sweep holds a delivery twice.
\<close>

definition runtime_inv :: "runtime \<Rightarrow> bool" where
  "runtime_inv rt \<longleftrightarrow>
     distinct (rt_live rt) \<and> inj_on lv_controller (reached rt) \<and>
     (\<forall>d \<in> reached rt. lv_controller d < rt_fresh rt) \<and>
     (\<forall>n \<ge> rt_fresh rt. rt_controllers rt n = None) \<and>
     (\<forall>sweep \<in> set (rt_sweeps rt). \<forall>(q, ds) \<in> set sweep. distinct ds)"

lemma runtime_invD:
  assumes "runtime_inv rt"
  shows "distinct (rt_live rt)" "inj_on lv_controller (reached rt)"
    "d \<in> reached rt \<Longrightarrow> lv_controller d < rt_fresh rt"
    "rt_fresh rt \<le> n \<Longrightarrow> rt_controllers rt n = None"
    "sweep \<in> set (rt_sweeps rt) \<Longrightarrow> (q, ds) \<in> set sweep \<Longrightarrow> distinct ds"
  using assms by (auto simp: runtime_inv_def)

lemma swept_by_parts:
  "\<forall>sw \<in> set sweeps'. \<exists>old \<in> set sweeps. set sw \<subseteq> set old \<Longrightarrow> swept_by sweeps' \<subseteq> swept_by sweeps"
  unfolding swept_by_def all_live_def by fast

text \<open>A move that only takes away keeps the invariant.\<close>

lemma runtime_inv_less:
  assumes "runtime_inv rt" and "set (rt_live rt') \<subseteq> set (rt_live rt)" and "distinct (rt_live rt')"
    and "\<forall>sw \<in> set (rt_sweeps rt'). \<exists>old \<in> set (rt_sweeps rt). set sw \<subseteq> set old"
    and "rt_fresh rt' = rt_fresh rt" and "\<And>n. rt_fresh rt \<le> n \<Longrightarrow> rt_controllers rt' n = rt_controllers rt n"
  shows "runtime_inv rt'"
proof -
  have less: "reached rt' \<subseteq> reached rt"
    using assms(2) swept_by_parts [OF assms(4)] by (auto simp: reached_def)
  have "\<forall>sweep \<in> set (rt_sweeps rt'). \<forall>(q, ds) \<in> set sweep. distinct ds"
    using assms(4) runtime_invD(5) [OF assms(1)] by blast
  moreover have "inj_on lv_controller (reached rt')"
    using runtime_invD(2) [OF assms(1)] less by (rule inj_on_subset)
  moreover have "\<forall>d \<in> reached rt'. lv_controller d < rt_fresh rt'"
    using runtime_invD(3) [OF assms(1)] less assms(5) by auto
  moreover have "\<forall>n \<ge> rt_fresh rt'. rt_controllers rt' n = None"
    using runtime_invD(4) [OF assms(1)] assms(5,6) by simp
  ultimately show ?thesis using assms(3) by (simp add: runtime_inv_def)
qed

lemma distinct_live_groups:
  assumes "distinct live" and "(q, ds) \<in> set (liveByQueue live)"
  shows "distinct ds"
proof -
  have "distinct (swept (liveByQueue live))"
    using assms(1) mset_swept [of live] by (metis mset_eq_imp_distinct_iff)
  then show ?thesis using assms(2) by (auto simp: swept_def distinct_concat_iff)
qed

text \<open>What a sweep aborts, it was passed; it leaves the live set alone and every other controller.\<close>

lemma with_sweep_sel [simp]:
  "rt_live (with_sweep sweep left rt) = rt_live rt" "rt_fresh (with_sweep sweep left rt) = rt_fresh rt"
  "rt_sweeping (with_sweep sweep left rt) = rt_sweeping rt" "rt_closes (with_sweep sweep left rt) = rt_closes rt"
  "rt_controllers (with_sweep sweep left rt) = rt_controllers rt"
  by (simp_all add: with_sweep_def)

lemma sweep_next_Inr:
  assumes "sweep_next drv queue running left rt s = (Inr (aborted, rt'), s')"
  shows "set aborted \<subseteq> set running" and "distinct running \<Longrightarrow> distinct aborted"
    and "rt' = with_sweep ((queue, running) # left) left
      (rt\<lparr>rt_controllers := abort_live (\<lambda>name. CancelledError name False) aborted (rt_controllers rt)\<rparr>)"
  using assms by (auto simp: sweep_next_def bind_io_eq_Inr ret_io_def Let_def)

lemma with_sweep_parts:
  assumes "(queue, running) # left \<in> set (rt_sweeps rt)" and "sw \<in> set (rt_sweeps (with_sweep ((queue, running) # left) left rt))"
  shows "\<exists>old \<in> set (rt_sweeps rt). set sw \<subseteq> set old"
proof -
  from assms(2) consider "sw = left" | "sw \<in> set (rt_sweeps rt)"
    using notin_set_remove1 by (fastforce simp: with_sweep_def split: if_splits)
  then show ?thesis
  proof cases
    case 1
    then have "set sw \<subseteq> set ((queue, running) # left)" by auto
    with assms(1) show ?thesis by blast
  qed blast
qed

section \<open>Every step keeps it\<close>

lemma dropped_sweep: "\<forall>sw \<in> set (remove1 x sweeps). \<exists>old \<in> set sweeps. set sw \<subseteq> set old"
  by (metis notin_set_remove1 subset_refl)

lemma runtime_inv_started: "runtime_inv started_runtime"
  by (simp add: runtime_inv_def started_runtime_def reached_def swept_by_def)

lemma begin_body_facts:
  assumes "begin_body queue name delivery rt = (d, rt')"
  shows "rt_live rt' = rt_live rt @ [d]" "lv_controller d = rt_fresh rt" "rt_fresh rt' = Suc (rt_fresh rt)"
    "rt_controllers rt' = rt_controllers rt" "rt_sweeps rt' = rt_sweeps rt" "rt_sweeping rt' = rt_sweeping rt"
    "rt_closes rt' = rt_closes rt" "lv_name d = name" "lv_queue d = queue" "as_running d = delivery"
  using assms by (auto simp: begin_body_def Let_def running_delivery.defs as_running_def)

lemma runtime_inv_begins:
  assumes "runtime_inv rt" and "begin_body queue name delivery rt = (d, rt')"
  shows "runtime_inv rt'"
proof -
  note d = begin_body_facts [OF assms(2)] and inv = runtime_invD [OF assms(1)]
  have reached: "reached rt' = insert d (reached rt)" by (auto simp: reached_def d)
  have own: "lv_controller e \<noteq> lv_controller d" if "e \<in> reached rt" for e
    using inv(3) [OF that] d(2) by simp
  then have "d \<notin> reached rt" by blast
  then have "distinct (rt_live rt')" using inv(1) by (auto simp: d(1) reached_def)
  moreover have "inj_on lv_controller (reached rt')"
    unfolding reached inj_on_insert using inv(2) own by (metis image_iff Diff_iff)
  moreover have "\<forall>e \<in> reached rt'. lv_controller e < rt_fresh rt'"
    using inv(3) by (auto simp: reached d(2,3) intro: less_SucI)
  ultimately show ?thesis using inv(4,5) by (auto simp: runtime_inv_def d)
qed

lemma runtime_inv_ends: "runtime_inv rt \<Longrightarrow> runtime_inv (end_body d rt)"
  by (rule runtime_inv_less) (auto simp: end_body_def runtime_invD(1) dest: notin_set_remove1)

lemma runtime_inv_times_out:
  assumes "runtime_inv rt" and "d \<in> set (rt_live rt)"
  shows "runtime_inv (expire_body d timeoutMs rt)"
proof -
  have "lv_controller d < rt_fresh rt" using assms by (simp add: runtime_invD(3) reached_def)
  then have "runtime_inv (rt\<lparr>rt_controllers := (rt_controllers rt)(lv_controller d := r)\<rparr>)" for r
    by (intro runtime_inv_less [OF assms(1)]) (auto simp: runtime_invD(1) [OF assms(1)])
  then show ?thesis unfolding expire_body_def by (rule runtime_inv_ends)
qed

lemma runtime_inv_ticks:
  assumes "runtime_inv rt"
  shows "runtime_inv (sweep_tick rt)"
proof (cases "rt_live rt = []")
  case False
  have reached: "reached (rt\<lparr>rt_sweeps := liveByQueue (rt_live rt) # rt_sweeps rt\<rparr>) = reached rt"
    by (auto simp: reached_def swept_by_def liveByQueue_all)
  have "\<forall>(q, ds) \<in> set (liveByQueue (rt_live rt)). distinct ds"
    using distinct_live_groups runtime_invD(1) [OF assms] by blast
  then show ?thesis
    using assms False unfolding sweep_tick_def runtime_inv_def by (simp add: reached)
qed (use assms in \<open>simp add: sweep_tick_def\<close>)

lemma abort_live_unreached:
  assumes "runtime_inv rt" and "set ds \<subseteq> reached rt" and "rt_fresh rt \<le> n"
  shows "abort_live ab ds (rt_controllers rt) n = rt_controllers rt n"
  using assms by (intro abort_live_other) (auto dest: runtime_invD(3))

lemma running_reached:
  assumes "(queue, running) # left \<in> set (rt_sweeps rt)"
  shows "set running \<subseteq> reached rt"
  using assms by (force simp: reached_def swept_by_def all_live_def)

lemma runtime_inv_swept:
  assumes "runtime_inv rt" and "(queue, running) # left \<in> set (rt_sweeps rt)"
    and "sweep_next drv queue running left rt s = (Inr (aborted, rt'), s')"
  shows "runtime_inv rt'"
proof -
  note facts = sweep_next_Inr [OF assms(3)]
  have "set aborted \<subseteq> reached rt" using facts(1) running_reached [OF assms(2)] by blast
  note spared = abort_live_unreached [OF assms(1) this]
  have "\<forall>sw \<in> set (rt_sweeps rt'). \<exists>old \<in> set (rt_sweeps rt). set sw \<subseteq> set old"
    unfolding facts(3) using with_sweep_parts [of queue running left] assms(2)
    by (simp add: with_sweep_def)
  then show ?thesis
    by (rule runtime_inv_less [OF assms(1), rotated 2]) (simp_all add: facts(3) spared runtime_invD(1) [OF assms(1)])
qed

lemma runtime_inv_expires:
  assumes "runtime_inv rt"
  shows "runtime_inv (close_expired timeoutMs rt)"
proof -
  have "set (rt_live rt) \<subseteq> reached rt" by (simp add: reached_def)
  note spared = abort_live_unreached [OF assms this]
  show ?thesis
    by (rule runtime_inv_less [OF assms])
      (auto simp: close_expired_def close_settled_def drainConsumers_def spared runtime_invD(1) [OF assms])
qed

theorem runtime_inv_step:
  assumes "runtime_step drv (rt, s) ev (rt', s')" and "runtime_inv rt"
  shows "runtime_inv rt'"
  using assms(1)
proof (cases rule: runtime_step.cases)
  case (sweep_fails queue running left e)
  show ?thesis
    unfolding sweep_fails
    by (rule runtime_inv_less [OF assms(2)])
      (simp_all add: with_sweep_def dropped_sweep runtime_invD(1) [OF assms(2)])
next
  case (close_called timeoutMs)
  with assms(2) show ?thesis by (simp add: close_called_def runtime_inv_def reached_def)
next
  case (drains timeoutMs)
  with assms(2) show ?thesis by (simp add: close_settled_def runtime_inv_def reached_def)
next
  case (close_fails timeoutMs)
  with assms(2) show ?thesis by (simp add: close_settled_def runtime_inv_def reached_def)
next
  case (begins queue name delivery d)
  show ?thesis by (rule runtime_inv_begins [OF assms(2) begins(3)])
next
  case (swept queue running left aborted)
  show ?thesis by (rule runtime_inv_swept [OF assms(2) swept(2,3)])
qed (use assms(2) in \<open>simp_all add: runtime_inv_ends runtime_inv_times_out runtime_inv_ticks runtime_inv_expires\<close>)

lemma runtime_inv_run: "runtime_run drv s0 tr (rt, s) \<Longrightarrow> runtime_inv rt"
  by (induction tr "(rt, s)" arbitrary: rt s rule: runtime_run.induct)
    (auto simp: runtime_inv_started intro: runtime_inv_step)

section \<open>What a body hears\<close>

text \<open>What one body is told by what happens to the runtime, as events of the list a body is.\<close>

fun heard :: "live_delivery \<Rightarrow> runtime_event \<Rightarrow> 's body_event list" where
  "heard d (Swept ds) = (if d \<in> set ds then [CancelSwept] else [])"
| "heard d (Expires timeoutMs ds) = (if d \<in> set ds then [ShutdownFired] else [])"
| "heard d ev = []"

definition all_heard :: "live_delivery \<Rightarrow> runtime_event list \<Rightarrow> 's body_event list" where
  "all_heard d tr = concat (map (heard d) tr)"

lemma all_heard_snoc [simp]: "all_heard d (tr @ [ev]) = all_heard d tr @ heard d ev" "all_heard d [] = []"
  by (simp_all add: all_heard_def)

text \<open>The deliveries an event reaches.\<close>

fun told :: "runtime_event \<Rightarrow> live_delivery set" where
  "told (Swept ds) = set ds"
| "told (Expires timeoutMs ds) = set ds"
| "told ev = {}"

lemma heard_untold: "d \<notin> told ev \<Longrightarrow> heard d ev = []"
  by (cases ev) auto

lemma told_step:
  assumes "runtime_step drv (rt, s) ev (rt', s')" and "runtime_inv rt"
  shows "told ev \<subseteq> reached rt \<and> rt_fresh rt \<le> rt_fresh rt'"
  using assms(1)
proof (cases rule: runtime_step.cases)
  case (begins queue name delivery d)
  then show ?thesis using begin_body_facts(3) [OF begins(3)] by simp
next
  case (swept queue running left aborted)
  note facts = sweep_next_Inr [OF swept(3)]
  have "told ev \<subseteq> reached rt" using facts(1) running_reached [OF swept(2)] swept(1) by auto
  moreover have "rt_fresh rt \<le> rt_fresh rt'" by (simp add: facts(3))
  ultimately show ?thesis ..
qed (auto simp: reached_def runtime_move_defs)

lemma told_run:
  assumes "runtime_run drv s0 tr (rt, s)" and "ev \<in> set tr" and "d \<in> told ev"
  shows "lv_controller d < rt_fresh rt"
  using assms
proof (induction tr "(rt, s)" arbitrary: rt s rule: runtime_run.induct)
  case (run_step tr rt s ev' rt' s')
  note inv = runtime_inv_run [OF run_step.hyps(1)]
  from told_step [OF run_step.hyps(3) inv] runtime_invD(3) [OF inv]
  show ?case using run_step.hyps(2) run_step.prems by fastforce
qed simp

text \<open>What one body's controller is after an event, from what it was.\<close>

fun signalled :: "live_delivery \<Rightarrow> runtime_event \<Rightarrow> thrown option \<Rightarrow> thrown option" where
  "signalled d (Swept ds) reason =
     (if d \<in> set ds then abort_with (CancelledError (lv_name d) False) reason else reason)"
| "signalled d (Expires timeoutMs ds) reason =
     (if d \<in> set ds then abort_with (ShutdownAbortError (lv_name d) False) reason else reason)"
| "signalled d ev reason = reason"

lemma signalled_untold: "d \<notin> told ev \<Longrightarrow> signalled d ev reason = reason"
  by (cases ev) auto

lemma runUnderTimeout_heard:
  assumes "jd_name def = lv_name d"
  shows "runUnderTimeout def fin reason (heard d ev @ evs) renew s =
    runUnderTimeout def fin (signalled d ev reason) evs renew s"
  using assms by (cases ev) auto

lemma runUnderTimeout_all_heard:
  assumes "jd_name def = lv_name d"
  shows "runUnderTimeout def fin reason (all_heard d tr @ evs) renew s =
    runUnderTimeout def fin (fold (signalled d) tr reason) evs renew s"
  by (induction tr arbitrary: reason) (simp_all add: all_heard_def runUnderTimeout_heard [OF assms])

text \<open>An abort of a group of deliveries in reach, seen from one in reach.\<close>

lemma abort_live_in_reach:
  assumes "inj_on lv_controller (reached rt)" and "set ds \<subseteq> reached rt" and "distinct ds" and "d \<in> reached rt"
  shows "abort_live ab ds cs (lv_controller d) =
    (if d \<in> set ds then abort_with (ab (lv_name d)) (cs (lv_controller d)) else cs (lv_controller d))"
proof (cases "d \<in> set ds")
  case True
  have "distinct (map lv_controller ds)"
    using assms(1-3) by (simp add: distinct_map inj_on_subset)
  with True show ?thesis by (simp add: abort_live_aborts)
next
  case False
  have "\<forall>e \<in> set ds. lv_controller e \<noteq> lv_controller d"
    using False assms(1,2,4) by (metis inj_onD subsetD)
  with False show ?thesis by (simp add: abort_live_other)
qed

lemma signalled_step:
  assumes "runtime_step drv (rt, s) ev (rt', s')" and "runtime_inv rt" and "d \<in> set (rt_live rt)" and "d \<in> set (rt_live rt')"
  shows "rt_controllers rt' (lv_controller d) = signalled d ev (rt_controllers rt (lv_controller d))"
  using assms(1)
proof (cases rule: runtime_step.cases)
  case (begins queue name delivery e)
  then show ?thesis using begin_body_facts(4) [OF begins(3)] by simp
next
  case (times_out e timeoutMs)
  have "e \<noteq> d"
    using assms(4) runtime_invD(1) [OF assms(2)] times_out by (auto simp: expire_body_def end_body_def)
  moreover have "e \<in> reached rt" "d \<in> reached rt" using times_out assms(3) by (auto simp: reached_def)
  ultimately have "lv_controller e \<noteq> lv_controller d"
    using runtime_invD(2) [OF assms(2)] by (metis inj_onD)
  then show ?thesis using times_out by (simp add: expire_body_def end_body_def)
next
  case (swept queue running left aborted)
  note facts = sweep_next_Inr [OF swept(3)]
  have "set aborted \<subseteq> reached rt" "distinct aborted" "d \<in> reached rt"
    using facts(1,2) running_reached [OF swept(2)] runtime_invD(5) [OF assms(2) swept(2)] assms(3)
    by (auto simp: reached_def)
  from abort_live_in_reach [OF runtime_invD(2) [OF assms(2)] this] swept(1)
  show ?thesis by (simp add: facts(3))
next
  case (expires timeoutMs)
  have "set (rt_live rt) \<subseteq> reached rt" "d \<in> reached rt" using assms(3) by (auto simp: reached_def)
  from abort_live_in_reach [OF runtime_invD(2) [OF assms(2)] this(1) runtime_invD(1) [OF assms(2)] this(2)] expires assms(3)
  show ?thesis by (simp add: close_expired_def close_settled_def drainConsumers_def)
qed (auto simp: runtime_move_defs)

lemma begins_step:
  assumes "runtime_step drv (rt, s) ev (rt', s')" and "runtime_inv rt" and "d \<notin> set (rt_live rt)" and "d \<in> set (rt_live rt')"
  shows "ev = Begins d \<and> lv_controller d = rt_fresh rt \<and> rt_controllers rt' (lv_controller d) = None"
  using assms(1)
proof (cases rule: runtime_step.cases)
  case (begins queue name delivery e)
  note facts = begin_body_facts [OF begins(3)]
  have "d = e" using assms(3,4) by (simp add: facts(1))
  with begins(1) facts(2,4) runtime_invD(4) [OF assms(2)] show ?thesis by simp
next
  case (ends e)
  with assms(3,4) show ?thesis by (auto simp: end_body_def dest: notin_set_remove1)
next
  case (times_out e timeoutMs)
  with assms(3,4) show ?thesis by (auto simp: expire_body_def end_body_def dest: notin_set_remove1)
next
  case (swept queue running left aborted)
  with sweep_next_Inr(3) [OF swept(3)] assms(3,4) show ?thesis by simp
qed (use assms(3,4) in \<open>auto simp: runtime_move_defs split: if_splits\<close>)

lemma live_controller:
  assumes "runtime_run drv s0 tr (rt, s)" and "d \<in> set (rt_live rt)"
  shows "rt_controllers rt (lv_controller d) = fold (signalled d) tr None"
  using assms
proof (induction tr "(rt, s)" arbitrary: rt s rule: runtime_run.induct)
  case run_start
  then show ?case by (simp add: started_runtime_def)
next
  case (run_step tr rt s ev rt' s')
  note inv = runtime_inv_run [OF run_step.hyps(1)]
  show ?case
  proof (cases "d \<in> set (rt_live rt)")
    case True
    with run_step.hyps(2) signalled_step [OF run_step.hyps(3) inv] run_step.prems show ?thesis by simp
  next
    case False
    note begun = begins_step [OF run_step.hyps(3) inv False run_step.prems]
    have "d \<notin> told e" if "e \<in> set tr" for e
      using told_run [OF run_step.hyps(1) that] begun by fastforce
    then have "fold (signalled d) tr None = None"
      by (induction tr) (simp_all add: signalled_untold)
    then have "fold (signalled d) (tr @ [ev]) None = None" using begun by simp
    with begun show ?thesis by argo
  qed
qed

section \<open>Reasons and their causes\<close>

text \<open>A live body was told of a cancellation or of a close, whichever came first, or of nothing yet.\<close>

lemma abort_with_cases: "abort_with e reason = (if reason = None then Some e else reason)"
  by (auto simp: abort_with_def split: option.split)

lemma signalled_reasons:
  "fold (signalled d) tr reason \<in>
    {reason, Some (CancelledError (lv_name d) False), Some (ShutdownAbortError (lv_name d) False)}"
proof (induction tr arbitrary: reason)
  case (Cons ev tr)
  have "signalled d ev reason \<in>
      {reason, Some (CancelledError (lv_name d) False), Some (ShutdownAbortError (lv_name d) False)}"
    by (cases ev) (auto simp: abort_with_cases)
  with Cons [of "signalled d ev reason"] show ?case by auto
qed simp

lemma abort_live_keeps: "cs n = Some r \<Longrightarrow> abort_live ab ds cs n = Some r"
  proof (induction ds arbitrary: cs)
  case (Cons d ds)
  let ?cs = "cs(lv_controller d := abort_with (ab (lv_name d)) (cs (lv_controller d)))"
  have "?cs n = Some r" using Cons.prems by (cases "n = lv_controller d") simp_all
  then have "abort_live ab ds ?cs n = Some r" by (rule Cons.IH)
  moreover have "abort_live ab (d # ds) cs = abort_live ab ds ?cs" by (simp add: abort_live_def)
  ultimately show ?case by argo
qed (simp add: abort_live_def)

lemma abort_live_cause:
  "abort_live ab ds cs n = Some r \<Longrightarrow>
    cs n = Some r \<or> (\<exists>d \<in> set ds. lv_controller d = n \<and> r = ab (lv_name d))"
proof (induction ds arbitrary: cs)
  case (Cons d ds)
  let ?cs = "cs(lv_controller d := abort_with (ab (lv_name d)) (cs (lv_controller d)))"
  have "abort_live ab ds ?cs n = Some r" using Cons.prems by (simp add: abort_live_def)
  from Cons.IH [OF this] show ?case by (auto simp: abort_with_cases split: if_splits)
qed (simp add: abort_live_def)

text \<open>A controller that was aborted keeps its reason.\<close>

lemma reason_kept_step:
  assumes "runtime_step drv (rt, s) ev (rt', s')" and "rt_controllers rt n = Some r"
  shows "rt_controllers rt' n = Some r"
  using assms(1)
proof (cases rule: runtime_step.cases)
  case (begins queue name delivery e)
  with begin_body_facts(4) [OF begins(3)] assms(2) show ?thesis by simp
next
  case (times_out e timeoutMs)
  with assms(2) show ?thesis by (cases "n = lv_controller e") (simp_all add: expire_body_def end_body_def)
next
  case (swept queue running left aborted)
  with sweep_next_Inr(3) [OF swept(3)] assms(2) show ?thesis by (simp add: abort_live_keeps)
qed (use assms(2) in \<open>auto simp: runtime_move_defs abort_live_keeps\<close>)

text \<open>
  The causes an event can be of an abort, in the state it happened in: a sweep the driver
  answered with that very delivery, a close whose time is over while its body runs, or
  its own timer.
\<close>

fun abort_cause ::
    "'s job_driver \<Rightarrow> runtime \<Rightarrow> 's \<Rightarrow> runtime_event \<Rightarrow> live_delivery \<Rightarrow> thrown \<Rightarrow> bool" where
  "abort_cause drv rt s (Swept aborted) d r \<longleftrightarrow>
     (\<exists>queue running left cancelled s'. (queue, running) # left \<in> set (rt_sweeps rt) \<and> d \<in> set running \<and>
        drv_takeCancelled drv queue (map as_running running) s = (Inr cancelled, s') \<and>
        as_running d \<in> set cancelled) \<and> r = CancelledError (lv_name d) False"
| "abort_cause drv rt s (Expires timeoutMs ds) d r \<longleftrightarrow>
     Some timeoutMs \<in> set (rt_closes rt) \<and> d \<in> set (rt_live rt) \<and> r = ShutdownAbortError (lv_name d) False"
| "abort_cause drv rt s (TimesOut e timeoutMs) d r \<longleftrightarrow>
     e = d \<and> d \<in> set (rt_live rt) \<and> r = HandlerTimeoutError (lv_name d) timeoutMs"
| "abort_cause drv rt s ev d r \<longleftrightarrow> False"

lemma sweep_next_told:
  assumes "sweep_next drv queue running left rt s = (Inr (aborted, rt'), s')" and "d \<in> set aborted"
  shows "\<exists>cancelled. drv_takeCancelled drv queue (map as_running running) s = (Inr cancelled, s') \<and>
    d \<in> set running \<and> as_running d \<in> set cancelled"
  using assms by (auto simp: sweep_next_def bind_io_eq_Inr ret_io_def Let_def)

lemma reason_cause_step:
  assumes "runtime_step drv (rt, s) ev (rt', s')" and "rt_controllers rt' n = Some r"
  shows "rt_controllers rt n = Some r \<or> (\<exists>d. lv_controller d = n \<and> abort_cause drv rt s ev d r)"
  using assms(1)
proof (cases rule: runtime_step.cases)
  case (begins queue name delivery e)
  with begin_body_facts(4) [OF begins(3)] assms(2) show ?thesis by simp
next
  case (times_out e timeoutMs)
  with assms(2) show ?thesis by (auto simp: expire_body_def end_body_def abort_with_cases split: if_splits)
next
  case (swept queue running left aborted)
  note facts = sweep_next_Inr(3) [OF swept(3)]
  from assms(2) have "abort_live (\<lambda>name. CancelledError name False) aborted (rt_controllers rt) n = Some r"
    by (simp add: facts)
  from abort_live_cause [OF this] consider "rt_controllers rt n = Some r"
    | d where "d \<in> set aborted" "lv_controller d = n" "r = CancelledError (lv_name d) False" by blast
  then show ?thesis
  proof cases
    case 2
    from sweep_next_told [OF swept(3) 2(1)] swept(2) 2(3) have "abort_cause drv rt s (Swept aborted) d r" by auto
    with 2(2) swept(1) show ?thesis by blast
  qed blast
next
  case (expires timeoutMs)
  from assms(2) expires have
    "abort_live (\<lambda>name. ShutdownAbortError name False) (rt_live rt) (rt_controllers rt) n = Some r"
    by (simp add: close_expired_def close_settled_def drainConsumers_def)
  from abort_live_cause [OF this] expires show ?thesis by auto
qed (use assms(2) in \<open>auto simp: runtime_move_defs split: if_splits\<close>)

text \<open>Once a close ended, the interval is off for good.\<close>

lemma sweeping_step:
  assumes "runtime_step drv (rt, s) ev (rt', s')" and "\<not> rt_sweeping rt"
  shows "\<not> rt_sweeping rt' \<and> ev \<noteq> Ticks"
  using assms(1)
proof (cases rule: runtime_step.cases)
  case (begins queue name delivery e)
  with begin_body_facts(6) [OF begins(3)] assms(2) show ?thesis by simp
next
  case (swept queue running left aborted)
  with sweep_next_Inr(3) [OF swept(3)] assms(2) show ?thesis by simp
qed (use assms(2) in \<open>auto simp: runtime_move_defs\<close>)

section \<open>Runs\<close>

lemma run_snocE:
  assumes "runtime_run drv s0 (tr @ [ev]) (rt', s')"
  obtains rt s where "runtime_run drv s0 tr (rt, s)" and "runtime_step drv (rt, s) ev (rt', s')"
  using assms by (cases rule: runtime_run.cases) auto

text \<open>What a run reached before its last part, and what of it stays.\<close>

lemma run_after:
  assumes "runtime_run drv s0 (tr @ later) (rt, s)"
  shows "\<exists>rt1 s1. runtime_run drv s0 tr (rt1, s1) \<and>
    (\<forall>n r. rt_controllers rt1 n = Some r \<longrightarrow> rt_controllers rt n = Some r) \<and>
    (\<not> rt_sweeping rt1 \<longrightarrow> \<not> rt_sweeping rt \<and> Ticks \<notin> set later)"
  using assms
proof (induction later arbitrary: rt s rule: rev_induct)
  case Nil
  then show ?case by auto
next
  case (snoc ev later)
  from snoc.prems have "runtime_run drv s0 ((tr @ later) @ [ev]) (rt, s)" by simp
  then obtain rt2 s2 where last: "runtime_run drv s0 (tr @ later) (rt2, s2)" "runtime_step drv (rt2, s2) ev (rt, s)"
    by (rule run_snocE)
  from snoc.IH [OF last(1)] obtain rt1 s1 where first: "runtime_run drv s0 tr (rt1, s1)"
    "\<forall>n r. rt_controllers rt1 n = Some r \<longrightarrow> rt_controllers rt2 n = Some r"
    "\<not> rt_sweeping rt1 \<longrightarrow> \<not> rt_sweeping rt2 \<and> Ticks \<notin> set later" by blast
  have "\<forall>n r. rt_controllers rt1 n = Some r \<longrightarrow> rt_controllers rt n = Some r"
    using first(2) reason_kept_step [OF last(2)] by blast
  moreover have "\<not> rt_sweeping rt1 \<longrightarrow> \<not> rt_sweeping rt \<and> Ticks \<notin> set (later @ [ev])"
    using first(3) sweeping_step [OF last(2)] by auto
  ultimately show ?case using first(1) by blast
qed

lemma reason_cause_run:
  assumes "runtime_run drv s0 tr (rt, s)" and "rt_controllers rt n = Some r"
  shows "\<exists>pre ev post rt1 s1 d. tr = pre @ ev # post \<and> runtime_run drv s0 pre (rt1, s1) \<and>
    lv_controller d = n \<and> abort_cause drv rt1 s1 ev d r"
  using assms
proof (induction tr "(rt, s)" arbitrary: rt s rule: runtime_run.induct)
  case run_start
  then show ?case by (simp add: started_runtime_def)
next
  case (run_step tr rt s ev rt' s')
  from reason_cause_step [OF run_step.hyps(3) run_step.prems] show ?case
  proof
    assume "rt_controllers rt n = Some r"
    then obtain pre ev1 post rt1 s1 d where "tr = pre @ ev1 # post" "runtime_run drv s0 pre (rt1, s1)"
      "lv_controller d = n" "abort_cause drv rt1 s1 ev1 d r" using run_step.hyps(2) by blast
    then show ?thesis by (intro exI [of _ pre] exI [of _ ev1] exI [of _ "post @ [ev]"]) auto
  next
    assume "\<exists>d. lv_controller d = n \<and> abort_cause drv rt s ev d r"
    with run_step.hyps(1) show ?thesis by (intro exI [of _ tr] exI [of _ ev] exI [of _ "[]"]) auto
  qed
qed

text \<open>The bodies a close aborts when its time is over.\<close>

lemma expired_run:
  assumes "runtime_run drv s0 (tr @ [Expires timeoutMs ds]) (rt, s)"
  shows "set ds = set (rt_live rt)" and "\<not> rt_sweeping rt"
    and "\<forall>d \<in> set ds. rt_controllers rt (lv_controller d) \<in>
      {Some (CancelledError (lv_name d) False), Some (ShutdownAbortError (lv_name d) False)}"
proof -
  from assms obtain rt1 s1 where run: "runtime_run drv s0 tr (rt1, s1)"
    and step: "runtime_step drv (rt1, s1) (Expires timeoutMs ds) (rt, s)" by (rule run_snocE)
  from step have at: "ds = rt_live rt1" "rt = close_expired timeoutMs rt1" by (auto elim: expires_stepE)
  then show same: "set ds = set (rt_live rt)" and "\<not> rt_sweeping rt"
    by (simp_all add: close_expired_def close_settled_def)
  show "\<forall>d \<in> set ds. rt_controllers rt (lv_controller d) \<in>
      {Some (CancelledError (lv_name d) False), Some (ShutdownAbortError (lv_name d) False)}"
  proof
    fix d assume d: "d \<in> set ds"
    then have "rt_controllers rt (lv_controller d) = fold (signalled d) (tr @ [Expires timeoutMs ds]) None"
      using live_controller [OF assms] same by simp
    with d signalled_reasons [of d tr None]
    show "rt_controllers rt (lv_controller d) \<in>
        {Some (CancelledError (lv_name d) False), Some (ShutdownAbortError (lv_name d) False)}"
      by (auto simp: abort_with_cases)
  qed
qed

end
