(* ===== verification/QueueTable.thy ===== *)
theory QueueTable
  imports RedisDriver
begin

text \<open>
  A table of jobs and schedulers in the place of BullMQ, which is a parameter of the
  Redis driver: the instance the witnesses of this development evaluate. It keeps what
  BullMQ documents of the calls the driver makes: a job added under an id already
  stored is the stored job, a removed job is gone, and a scheduler is one per key.
\<close>

record queue_table =
  qb_jobs :: "((string \<times> string) \<times> (bull_job \<times> bull_state)) list"
  qb_schedulers :: "(string \<times> string) list"

definition table_add ::
    "string \<Rightarrow> string \<Rightarrow> jval \<Rightarrow> jobs_options option \<Rightarrow> (queue_table, string option) io" where
  "table_add queue name stored opts t =
     (let given = (case opts of None \<Rightarrow> None | Some o' \<Rightarrow> jo_jobId o');
          i = or_else given (show_nat (length (qb_jobs t) + 1))
      in (Inr (Some i),
          if map_of (qb_jobs t) (queue, i) \<noteq> None then t
          else t\<lparr>qb_jobs := qb_jobs t @ [((queue, i),
            (\<lparr>bj_id = Some i, bj_name = name, bj_data = json stored, bj_attemptsMade = 0, bj_attemptsStarted = 0,
              bj_attempts = map_option to_attempts opts, bj_failedReason = None\<rparr>, BWaiting))]\<rparr>))"

definition table_move :: "string \<Rightarrow> string \<Rightarrow> bull_state \<Rightarrow> queue_table \<Rightarrow> queue_table" where
  "table_move queue i state t =
     t\<lparr>qb_jobs := map (\<lambda>(k, job, st). if k = (queue, i) then (k, job, state) else (k, job, st)) (qb_jobs t)\<rparr>"

definition table_bull :: "queue_table bullmq" where
  "table_bull =
     \<lparr>bq_add = table_add,
      bq_getJob = (\<lambda>q i t. (Inr (map_option fst (map_of (qb_jobs t) (q, i))), t)),
      bq_getState = (\<lambda>q i t. (Inr (case map_of (qb_jobs t) (q, i) of Some (job, st) \<Rightarrow> st | None \<Rightarrow> BUnknown), t)),
      bq_retry = (\<lambda>q i t. (Inr (), table_move q i BWaiting t)),
      bq_remove = (\<lambda>q i children t. (Inr (), t\<lparr>qb_jobs := filter (\<lambda>e. fst e \<noteq> (q, i)) (qb_jobs t)\<rparr>)),
      bq_pause = (\<lambda>q t. (Inr (), t)), bq_resume = (\<lambda>q t. (Inr (), t)),
      bq_getWaiting = (\<lambda>q t. (Inr (map (\<lambda>e. fst (snd e))
         (filter (\<lambda>e. fst (fst e) = q \<and> snd (snd e) = BWaiting) (qb_jobs t))), t)),
      bq_getJobSchedulers = (\<lambda>q t. (Inr (map snd (filter (\<lambda>e. fst e = q) (qb_schedulers t))), t)),
      bq_removeJobScheduler = (\<lambda>q k t. (Inr (), t\<lparr>qb_schedulers := filter (\<lambda>e. e \<noteq> (q, k)) (qb_schedulers t)\<rparr>)),
      bq_upsertJobScheduler = (\<lambda>q k rep env opts t.
         (Inr (), if (q, k) \<in> set (qb_schedulers t) then t else t\<lparr>qb_schedulers := qb_schedulers t @ [(q, k)]\<rparr>)),
      bq_flow_add = (\<lambda>job t. (Inr (Some (show_nat (length (qb_jobs t) + 1))), t)),
      bq_toKey = (\<lambda>q i. ''bull:'' @ q @ '':'' @ i), bq_hgetall = (\<lambda>k t. []), bq_scard = (\<lambda>k t. 0),
      bq_moveToDelayed = (\<lambda>q i until token t. (Inr (), table_move q i BDelayed t)),
      bq_moveToWaitingChildren = (\<lambda>q i token t. (Inr True, table_move q i BWaitingChildren t))\<rparr>"

lemma table_bull_simps [simp]:
  "bq_getJob table_bull q i t = (Inr (map_option fst (map_of (qb_jobs t) (q, i))), t)"
  "bq_getState table_bull q i t = (Inr (case map_of (qb_jobs t) (q, i) of Some (job, st) \<Rightarrow> st | None \<Rightarrow> BUnknown), t)"
  "bq_getJobSchedulers table_bull q t = (Inr (map snd (filter (\<lambda>e. fst e = q) (qb_schedulers t))), t)"
  "bq_removeJobScheduler table_bull q k t = (Inr (), t\<lparr>qb_schedulers := filter (\<lambda>e. e \<noteq> (q, k)) (qb_schedulers t)\<rparr>)"
  "bq_upsertJobScheduler table_bull q k rep env opts t =
    (Inr (), if (q, k) \<in> set (qb_schedulers t) then t else t\<lparr>qb_schedulers := qb_schedulers t @ [(q, k)]\<rparr>)"
  "bq_moveToDelayed table_bull q i until token t = (Inr (), table_move q i BDelayed t)"
  by (simp_all add: table_bull_def)

definition empty_world :: "queue_table redis_world" where
  "empty_world = \<lparr>rw_bull = \<lparr>qb_jobs = [], qb_schedulers = []\<rparr>, rw_redis = \<lparr>rk_now = 0, rk_keys = Map.empty\<rparr>\<rparr>"

definition blocking_connection :: connection_shape where
  "blocking_connection = ConnectionShape False JNull None None"

definition table_driver :: "queue_table redis_world job_driver" where
  "table_driver = redisDriver table_bull show_nat blocking_connection"

end
