(* ===== verification/LifecycleGuarantees.thy ===== *)
theory LifecycleGuarantees
  imports RuntimeGuarantees Lifecycle QueueTable
begin

text \<open>
  What a runtime guarantees around its deliveries: what a failed one leaves on the
  dead queue, what a payload of a newer deploy meets, what \<open>start\<close> has checked once it
  returns, that a start that fails leaves no consumer open, which deliveries a sweep
  for cancellations aborts, and, however deliveries, ticks, sweeps and closes
  interleave, what a body hears of them, why a signal is aborted, and whom a close that
  ran out of time reaches.
\<close>

section \<open>Failures\<close>

text \<open>A hook that leaves the dead queues alone, whatever else it does and whether it throws.\<close>

definition spares_records :: "('e \<Rightarrow> (memory, unit) io) option \<Rightarrow> bool" where
  "spares_records hook \<longleftrightarrow>
     (\<forall>ev s. dead_inv s \<longrightarrow> dead_inv (notify hook ev s) \<and> records (notify hook ev s) = records s)"

text \<open>
  C11: over the memory driver, with failure hooks that leave the dead queues alone, a delivery that failed leaves one record more on the dead
  queue of its queue exactly when the failure was reported, buries its job, and the
  queue has a dead queue; the record names the job and keeps its envelope, its error
  and the reason, and every other record stays.
\<close>

theorem failed_delivery_is_recorded:
  assumes "cf_driver config = memoryDriver"
    and "spares_records (hk_onAttemptFailed (cf_hooks config))" and "spares_records (hk_onDead (cf_hooks config))"
    and "envelopeOf delivery = Inr env"
    and "dispatch config uuid byName env (event_of queue env delivery) delivery s = Some (Inl e, evs, s1)"
    and "dead_inv s1"
  shows "\<exists>s' i. runOn config uuid byName queue delivery s = Some (Inl e, evs, s') \<and>
    records s' =
      (case burialFor delivery e of
         Some burial \<Rightarrow>
           if unreported e \<or> queue \<notin> set (or_else (cf_deadQueues config) []) then records s1
           else (records s1)(queue := records s1 queue @ [(i, stored_entry
             \<lparr>de_jobId = composeJobId queue (rd_id delivery), de_envelope = env,
              de_error = serializeError e, de_burial = burial\<rparr>)])
       | None \<Rightarrow> records s1)"
proof -
  have event: "je_queue (event_of queue env delivery) = queue"
    "je_id (event_of queue env delivery) = composeJobId queue (rd_id delivery)"
    "je_error (failure_event (event_of queue env delivery) e) = serializeError e"
    by (simp_all add: event_of_def failure_event_def job_event.defs)
  let ?entry = "\<lambda>burial. \<lparr>de_jobId = composeJobId queue (rd_id delivery), de_envelope = env,
      de_error = serializeError e, de_burial = burial\<rparr>"
  let ?failure = "failure_event (event_of queue env delivery) e"
  let ?s1 = "notify (hk_onAttemptFailed (cf_hooks config)) ?failure s1"
  have s1: "dead_inv ?s1" "records ?s1 = records s1"
    using assms(2,6) by (simp_all add: spares_records_def)
  have last: "records (notify (hk_onDead (cf_hooks config)) ?failure t) = records t" if "dead_inv t" for t
    using assms(3) that by (simp add: spares_records_def)
  have ran: "runOn config uuid byName queue delivery s = Some (Inl e, evs,
      if unreported e then s1 else report config env (event_of queue env delivery) delivery e s1)"
    using assms(4,5) by (simp add: runOn_def)
  show ?thesis
  proof (cases "unreported e \<or> queue \<notin> set (or_else (cf_deadQueues config) []) \<or> burialFor delivery e = None")
    case True
    then show ?thesis
      using ran s1 last [OF s1(1)] event by (auto simp: report_def Let_def split: option.splits)
  next
    case False
    then obtain burial where burial: "burialFor delivery e = Some burial" by auto
    obtain i s' where buried: "memory_bury queue (?entry burial) ?s1 = (Inr (), s')" "dead_inv s'"
      "records s' = (records s1)(queue := records s1 queue @ [(i, stored_entry (?entry burial))])"
      using memory_bury_law [OF s1(1), of queue "?entry burial"] s1(2) by auto
    have "report config env (event_of queue env delivery) delivery e s1 =
        notify (hk_onDead (cf_hooks config)) ?failure s'"
      using assms(1) event burial buried(1) False by (simp add: report_def Let_def memoryDriver_def)
    with ran last [OF buried(2)] buried(3) burial False show ?thesis by auto
  qed
qed

definition failing_body :: "memory body_event list" where
  "failing_body = [BodyThrows (Thrown (JStr ''boom''))]"

lemma memory_config_facts:
  "cf_driver memory_config = memoryDriver" "spares_records (hk_onAttemptFailed (cf_hooks memory_config))"
  "spares_records (hk_onDead (cf_hooks memory_config))" "cf_deadQueues memory_config = Some [''post'']"
  "rd_id (delivery_of env n) = ''7''"
  by (simp_all add: memory_config_def no_hooks_def delivery_of_def spares_records_def notify_def)

lemma mail_migrates:
  "migrateEnvelope mail_job mail_envelope = Inr (JStr ''hi'')" "validatePayload mail_job (JStr ''hi'') = Inr (JStr ''hi'')"
  "assertVersionIsKnown mail_job mail_envelope = Inr ()"
  using migrateEnvelope_current [of mail_envelope mail_job]
  by (simp_all add: mail_job_def payloadVersion_def DEFAULT_PAYLOAD_VERSION_def validatePayload_def any_payload_def
      assertVersionIsKnown_def)

theorem failed_delivery_is_recorded_witness:
  "\<exists>s' i e. runOn memory_config ''u'' [(''mail'', handler mail_job failing_body)] ''post''
      (delivery_of mail_envelope 5) memoryDriver_start = Some (Inl e, [], s') \<and>
    records s' ''post'' = [(i, \<lparr>de_jobId = ''post:7'', de_envelope = mail_envelope,
      de_error = serializeError e, de_burial = BuryFor AttemptsExhausted\<rparr>)]"
proof -
  let ?byName = "[(''mail'', handler mail_job failing_body)]" and ?e = "Thrown (JStr ''boom'')"
  have "prepare memory_config (handler mail_job failing_body) mail_envelope
      (event_of ''post'' mail_envelope (delivery_of mail_envelope 5)) (delivery_of mail_envelope 5) memoryDriver_start =
      (Inr (JStr ''hi'', []), memoryDriver_start)"
    by (simp add: prepare_def handler_def mail_migrates childrenFor_def mail_slots bind_io_def catch_io_def)
  then have failed: "dispatch memory_config ''u'' ?byName mail_envelope
      (event_of ''post'' mail_envelope (delivery_of mail_envelope 5)) (delivery_of mail_envelope 5) memoryDriver_start =
      Some (Inl ?e, [], memoryDriver_start)"
    by (simp add: dispatch_def mail_migrates handler_def notify_def memory_config_def no_hooks_def)
      (simp add: run_prepared_def mail_job_def idempotencyKeyFor_def runUnderKey_def memoryDriver_def memory_store_defs
        memoryDriver_start_def run_body_def failing_body_def abortedError_def)
  have "dead_inv memoryDriver_start" by (simp add: dead_inv_def memoryDriver_start_def)
  note recorded = failed_delivery_is_recorded [OF memory_config_facts(1-3) mail_delivered failed this]
  have "burialFor (delivery_of mail_envelope 5) ?e = Some (BuryFor AttemptsExhausted)" "\<not> unreported ?e"
    by (simp_all add: burialFor_def childDead_def delivery_of_def unreported_def of_count_def)
  with recorded
  have "\<exists>s' i. runOn memory_config ''u'' ?byName ''post'' (delivery_of mail_envelope 5) memoryDriver_start =
        Some (Inl ?e, [], s') \<and>
      records s' = (records memoryDriver_start)(''post'' := records memoryDriver_start ''post'' @ [(i, stored_entry
         \<lparr>de_jobId = composeJobId ''post'' ''7'', de_envelope = mail_envelope, de_error = serializeError ?e,
          de_burial = BuryFor AttemptsExhausted\<rparr>)])"
    by (simp add: memory_config_facts)
  moreover have "records memoryDriver_start ''post'' = []" by (simp add: records_def memoryDriver_start_def)
  ultimately show ?thesis by (auto simp: stored_entry_def composeJobId_def)
qed

text \<open>
  A payload a newer deploy wrote never reaches a handler of an older one: the
  delivery is refused with nothing run and no start reported, and the job is buried
  for it on any attempt, to be replayed by a process that knows the version.
\<close>

theorem newer_payload_is_refused:
  assumes "map_of byName (env_name env) = Some h"
    and "num_lt (payloadVersion (jh_definition h)) (env_v env)"
  shows "dispatch config uuid byName env event delivery s =
      Some (Inl (VersionAheadError (jd_name (jh_definition h)) (env_v env) (payloadVersion (jh_definition h))), [], s) \<and>
    burialFor delivery (VersionAheadError (jd_name (jh_definition h)) (env_v env) (payloadVersion (jh_definition h))) =
      Some (BuryFor VersionAhead)"
  using assms num_lt_not_le [OF assms(2)] by (simp add: dispatch_def assertVersionIsKnown_def burialFor_def)

theorem newer_payload_is_refused_witness:
  "dispatch memory_config ''u'' [(''mail'', handler mail_job failing_body)] (mail_envelope\<lparr>env_v := JFin 2\<rparr>)
      (event_of ''post'' mail_envelope (delivery_of mail_envelope 1)) (delivery_of mail_envelope 1) memoryDriver_start =
    Some (Inl (VersionAheadError ''mail'' (JFin 2) (JFin 1)), [], memoryDriver_start)"
  using newer_payload_is_refused [of "[(''mail'', handler mail_job failing_body)]" "mail_envelope\<lparr>env_v := JFin 2\<rparr>"
      "handler mail_job failing_body" memory_config]
  by (simp add: handler_def payloadVersion_def mail_job_def DEFAULT_PAYLOAD_VERSION_def)

section \<open>Starting\<close>

text \<open>Consumers kept by number, the next one above every open one; one queue is refused.\<close>

definition open_next :: "consume_request \<Rightarrow> (nat list, nat) io" where
  "open_next rq opened =
     (if cq_queue rq = ''bad'' then (Inl (new_error C_Error ''refused''), opened)
      else (Inr (Suc (Max (insert 0 (set opened)))), Suc (Max (insert 0 (set opened))) # opened))"

definition close_one :: "nat \<Rightarrow> (nat list, unit) io" where
  "close_one c opened = (Inr (), filter (\<lambda>x. x \<noteq> c) opened)"

text \<open>
  C29: a runtime that started has one handler per job name, a handler for every
  definition of a queue it consumes, opened exactly one consumer per queue of its
  handlers, tuned no queue it does not consume and consumes no dead queue, the
  nameless queue apart, which the two tests take for none.
\<close>

theorem started_runtime_is_sound:
  assumes "startRuntime config consume close handlers tuning s = (Inr consumers, s')"
    and "[] \<notin> fst ` set tuning" and "[] \<notin> set (or_else (cf_deadQueues config) [])"
  shows "distinct (handler_names handlers) \<and>
    (\<forall>d \<in> set (or_else (cf_definitions config) []). jd_queue d \<in> (\<lambda>h. jd_queue (jh_definition h)) ` set handlers \<longrightarrow>
       jd_name d \<in> set (handler_names handlers)) \<and>
    length consumers = card ((\<lambda>h. jd_queue (jh_definition h)) ` set handlers) \<and>
    fst ` set tuning \<subseteq> (\<lambda>h. jd_queue (jh_definition h)) ` set handlers \<and>
    (\<forall>q \<in> set (or_else (cf_deadQueues config) []).
       deadQueueName q \<notin> (\<lambda>h. jd_queue (jh_definition h)) ` set handlers)"
proof -
  from assms(1) obtain byName queues s1 where
    checked: "start_checks config handlers (map fst tuning) = Inr (byName, queues)"
    and opened: "openConsumers consume close (map (\<lambda>q. consumeRequest q (map_of tuning q)) queues) s1 = (Inr consumers, s')"
    by (auto simp: startRuntime_def bind_io_eq_Inr lift_io_def ret_io_def throw_io_def split: sum.splits)
  note facts = start_checks_Inr [OF checked]
  have queues: "set queues = (\<lambda>h. jd_queue (jh_definition h)) ` set handlers" "distinct queues"
    using facts(2) by (simp_all add: set_uniq distinct_uniq)
  have "length consumers = length queues"
    using opened settle_all_length fulfilled_all
    by (fastforce simp: openConsumers_def split: prod.splits list.splits)
  with queues have "length consumers = card ((\<lambda>h. jd_queue (jh_definition h)) ` set handlers)"
    by (metis distinct_card)
  with facts(1,4,5,6) assms(2,3) queues(1) show ?thesis by simp
qed

text \<open>The consumers of the memory driver, each closed by the queue it was opened on.\<close>

definition memory_open :: "consume_request \<Rightarrow> (memory, string) io" where
  "memory_open rq = bind_io (memory_consume (cq_queue rq) (cq_limiter rq) 0) (\<lambda>_. ret_io (cq_queue rq))"

theorem started_runtime_is_sound_witness:
  "\<exists>s'. startRuntime memory_config memory_open memory_close [handler mail_job [], handler digest_job []]
      [(''post'', \<lparr>qt_concurrency = None, qt_limiter = None\<rparr>)] memoryDriver_start = (Inr [''post''], s') \<and>
    (\<forall>q \<in> {''post''}. deadQueueName q \<notin> {''post''})"
proof -
  let ?hs = "[handler mail_job [], handler digest_job []] :: memory job_handler list"
  let ?tuning = "[(''post'', \<lparr>qt_concurrency = None, qt_limiter = None\<rparr>)]"
  have names: "jd_name mail_job = ''mail''" "jd_queue mail_job = ''post''" "jd_schedule mail_job = None"
    "jd_name digest_job = ''digest''" "jd_queue digest_job = ''post''" "jd_schedule digest_job = None"
    by (simp_all add: mail_job_def digest_job_def)
  have checks: "start_checks memory_config ?hs [''post''] =
      Inr ([(''mail'', handler mail_job []), (''digest'', handler digest_job [])], [''post''])"
    by (simp add: start_checks_def handlersByName_def handler_def names memory_config_def
        assertEveryDefinitionRuns_def assertEveryTunedQueueStarted_def assertNoQueueConsumesADeadQueue_def
        truthy_find_def deadQueueName_def DEAD_SUFFIX_def)
  have reconciled: "reconcileEveryQueue memory_config ?hs [''post''] memoryDriver_start = (Inr (), memoryDriver_start)"
    by (simp add: reconcileEveryQueue_def declaredSchedules_def handler_def names memory_config_def memoryDriver_def
        memory_reconcileSchedules_def)
  obtain s' where "openConsumers memory_open memory_close (map (\<lambda>q. consumeRequest q (map_of ?tuning q)) [''post''])
      memoryDriver_start = (Inr [''post''], s')"
    by (simp add: openConsumers_def memory_open_def memory_consume_def consumeRequest_def bind_io_def)
  with checks reconciled have start:
    "startRuntime memory_config memory_open memory_close ?hs ?tuning memoryDriver_start = (Inr [''post''], s')"
    by (simp add: startRuntime_def)
  from started_runtime_is_sound [OF start] start show ?thesis
    by (simp add: memory_config_def handler_def names)
qed

text \<open>
  Opening the consumers of a runtime is all or nothing: when one is refused, what
  the others opened is closed again, and nothing is open that was not before.
\<close>

theorem refused_start_leaves_nothing_open:
  assumes "counts_open consume close opened"
    and "openConsumers consume close requests s = (out, s')"
  shows "case out of
      Inr consumers \<Rightarrow> length consumers = length requests \<and> opened s' = opened s \<union> set consumers
    | Inl e \<Rightarrow> opened s' = opened s"
proof -
  obtain rs s1 where settled: "settle_all consume requests s = (rs, s1)" by fastforce
  have all: "opened s1 = opened s \<union> set (fulfilled rs)" "opened s \<inter> set (fulfilled rs) = {}"
    using settle_all_opens [OF assms(1) settled] by simp_all
  show ?thesis
  proof (cases "rejected rs")
    case Nil
    with assms(2) settled have "out = Inr (fulfilled rs)" "s' = s1" by (simp_all add: openConsumers_def)
    with all fulfilled_all [OF Nil] settle_all_length [OF settled] show ?thesis by simp
  next
    case (Cons e es)
    with assms(2) settled have "out = Inl e" "s' = snd (settle_all close (fulfilled rs) s1)"
      by (simp_all add: openConsumers_def)
    with settle_all_closes [OF assms(1), of "fulfilled rs" s1] all show ?thesis by auto
  qed
qed

theorem refused_start_leaves_nothing_open_witness:
  "set (snd (openConsumers open_next close_one
      (map (\<lambda>q. consumeRequest q None) [''post'', ''bad'', ''report'']) [7])) = {7}"
proof -
  have fresh: "Suc (Max (insert 0 (set opened))) \<notin> set opened" for opened
    using Max_ge [of "insert 0 (set opened)" "Suc (Max (insert 0 (set opened)))"]
    by (metis List.finite_set Suc_n_not_le_n finite_insert insertI2)
  have "counts_open open_next close_one set"
    using fresh by (auto simp: counts_open_def open_next_def close_one_def)
  moreover obtain e s' where out: "openConsumers open_next close_one
      (map (\<lambda>q. consumeRequest q None) [''post'', ''bad'', ''report'']) [7] = (Inl e, s')"
    by (simp add: openConsumers_def consumeRequest_def open_next_def)
  ultimately show ?thesis using refused_start_leaves_nothing_open [OF _ out, of set] by (simp add: out [simplified])
qed

section \<open>Cancelling\<close>

text \<open>
  C19: over the Redis driver, a sweep of the deliveries a runtime is running aborts
  exactly those whose delivery a client marked: the abort of a marked one carries its
  name, unless it was aborted before, and the signal of every other one is untouched.
\<close>

theorem sweep_aborts_exactly_the_marked:
  assumes "told_apart live" and "\<forall>d \<in> set live. CHR '':'' \<notin> set (lv_queue d)" and "d \<in> set live"
  shows "\<exists>cs' w'. sweepCancellations (redisDriver bull uuid connection) live cs w = (Inr cs', w') \<and>
    cs' (lv_controller d) =
      (if redis_get (cancelPrefix (lv_queue d) @ rd_id d) (rw_redis w) = Some (show_nat (rd_attemptsStarted d))
       then abort_with (CancelledError (lv_name d) False) (cs (lv_controller d)) else cs (lv_controller d))"
  using world_sweep.sweep_aborts_the_marked [OF assms, of bull uuid connection cs w]
  by (simp add: world_marks_def redis_marks_iff)

definition live_mail :: "nat \<Rightarrow> live_delivery" where
  "live_mail n = \<lparr>rd_id = show_nat n, rd_attemptsStarted = 1, lv_queue = ''post'', lv_name = ''mail'', lv_controller = n\<rparr>"

theorem sweep_aborts_exactly_the_marked_witness:
  "\<exists>cs' w'. sweepCancellations table_driver [live_mail 0, live_mail 1] (\<lambda>n. None)
      (world_request ''post'' \<lparr>rd_id = show_nat 0, rd_attemptsStarted = 1\<rparr> empty_world) = (Inr cs', w') \<and>
    cs' 0 = Some (CancelledError ''mail'' False) \<and> cs' 1 = None"
proof -
  let ?live = "[live_mail 0, live_mail 1]"
  let ?w = "world_request ''post'' \<lparr>rd_id = show_nat 0, rd_attemptsStarted = 1\<rparr> empty_world"
  have apart: "told_apart ?live" "\<forall>d \<in> set ?live. CHR '':'' \<notin> set (lv_queue d)"
    by (simp_all add: told_apart_def live_mail_def as_running_def running_delivery.defs)
  note sweep = sweep_aborts_exactly_the_marked [OF apart, of _ table_bull show_nat
      blocking_connection "\<lambda>n. None" ?w, folded table_driver_def]
  have live: "rd_id (live_mail n) = show_nat n" "rd_attemptsStarted (live_mail n) = 1" "lv_queue (live_mail n) = ''post''"
    "lv_name (live_mail n) = ''mail''" "lv_controller (live_mail n) = n" for n
    by (simp_all add: live_mail_def)
  have marks: "redis_get (cancelPrefix ''post'' @ show_nat n) (rw_redis ?w) =
      (if n = 0 then Some (show_nat 1) else None)" for n
    by (simp add: world_request_def redis_requestCancel_def CANCEL_MARK_TTL_MS_def empty_world_def)
      (simp add: redis_get_def)
  obtain cs' w' where first: "sweepCancellations table_driver ?live (\<lambda>n. None) ?w = (Inr cs', w')"
      "cs' 0 = Some (CancelledError ''mail'' False)"
    using sweep [of "live_mail 0"] by (auto simp: live marks [unfolded One_nat_def] abort_with_def)
  moreover have "cs' 1 = None"
    using sweep [of "live_mail 1"] first(1) by (simp add: live marks [unfolded One_nat_def])
  ultimately show ?thesis by blast
qed

section \<open>While a runtime runs\<close>

text \<open>
  C9: however the deliveries, the ticks, the sweeps and the closes of a runtime
  interleave, a body runs as it would alone, over the list of the aborts that reached
  it: what they left its controller with is what the list leaves it with. So what is
  shown of a delivery over a list of events holds of it inside a runtime.
\<close>

theorem body_hears_its_runtime:
  assumes "runtime_run drv s0 tr (rt, s)" and "d \<in> set (rt_live rt)" and "jd_name def = lv_name d"
  shows "runUnderTimeout def fin None (all_heard d tr @ evs) renew w =
    runUnderTimeout def fin (rt_controllers rt (lv_controller d)) evs renew w"
  unfolding runUnderTimeout_all_heard [OF assms(3)] live_controller [OF assms(1,2)] ..

definition one_live :: runtime where
  "one_live = started_runtime\<lparr>rt_live := [live_mail 0], rt_fresh := 1\<rparr>"

lemma one_live_run:
  "runtime_run memoryDriver memoryDriver_start [Begins (live_mail 0)] (one_live, memoryDriver_start)"
proof -
  have "begin_body ''post'' ''mail'' \<lparr>rd_id = show_nat 0, rd_attemptsStarted = 1\<rparr> started_runtime = (live_mail 0, one_live)"
    by (simp add: begin_body_def started_runtime_def live_mail_def one_live_def running_delivery.defs Let_def)
  from run_step [OF run_start begins [OF this]] show ?thesis by simp
qed

text \<open>The only delivery is swept for, was cancelled, and is still running when a close gives up on it.\<close>

definition hard_stop :: "runtime_event list" where
  "hard_stop = [Begins (live_mail 0), CloseCalled (Some (JFin 25000)), Expires (JFin 25000) [live_mail 0]]"

definition stopped :: runtime where
  "stopped = close_expired (JFin 25000) (close_called (Some (JFin 25000)) one_live)"

lemma hard_stop_run: "runtime_run memoryDriver memoryDriver_start hard_stop (stopped, memoryDriver_start)"
proof -
  let ?called = "close_called (Some (JFin 25000)) one_live"
  have called: "rt_live ?called = [live_mail 0]" "Some (JFin 25000) \<in> set (rt_closes ?called)"
    by (simp_all add: close_called_def one_live_def)
  note run_step [OF run_step [OF one_live_run close_called] expires [OF called(2)]]
  then show ?thesis unfolding hard_stop_def stopped_def called(1) by simp
qed

lemma stopped_facts:
  "rt_live stopped = [live_mail 0]" "lv_controller (live_mail n) = n" "lv_name (live_mail n) = ''mail''"
  "rt_controllers stopped 0 = Some (ShutdownAbortError ''mail'' False)"
  by (simp_all add: stopped_def close_expired_def close_settled_def close_called_def one_live_def live_mail_def
      drainConsumers_def abort_live_def started_runtime_def abort_with_def)

theorem body_hears_its_runtime_witness:
  "runUnderTimeout mail_job Inr None (all_heard (live_mail 0) hard_stop @ [BodyReturns JNull]) (\<lambda>w. w) memoryDriver_start =
    Some (Inr JNull, Some (ShutdownAbortError ''mail'' False), [], memoryDriver_start)"
proof -
  have "jd_name mail_job = lv_name (live_mail 0)" by (simp add: mail_job_def stopped_facts)
  from body_hears_its_runtime [OF hard_stop_run _ this, of Inr "[BodyReturns JNull]" "\<lambda>w. w" memoryDriver_start] show ?thesis by (simp add: stopped_facts)
qed

text \<open>
  C21: no signal is aborted without its cause: a controller that holds a cancellation is
  that of a delivery a sweep asked the driver about and the driver, as it stood at that
  moment, answered was cancelled; one that holds a shutdown is that of a body that was
  running when a close ran out of time; and one that holds a timeout is that of a running
  body whose own timer fired. The reason names the job of that very delivery.
\<close>

theorem abort_has_its_cause:
  assumes "runtime_run drv s0 tr (rt, s)" and "rt_controllers rt n = Some r"
  shows "\<exists>pre ev post rt1 s1 d. tr = pre @ ev # post \<and> runtime_run drv s0 pre (rt1, s1) \<and> lv_controller d = n \<and>
    ((\<exists>aborted queue running left cancelled s2. ev = Swept aborted \<and> (queue, running) # left \<in> set (rt_sweeps rt1) \<and>
        d \<in> set running \<and> drv_takeCancelled drv queue (map as_running running) s1 = (Inr cancelled, s2) \<and>
        as_running d \<in> set cancelled \<and> r = CancelledError (lv_name d) False) \<or>
     (\<exists>timeoutMs ds. ev = Expires timeoutMs ds \<and> Some timeoutMs \<in> set (rt_closes rt1) \<and> d \<in> set (rt_live rt1) \<and>
        r = ShutdownAbortError (lv_name d) False) \<or>
     (\<exists>timeoutMs. ev = TimesOut d timeoutMs \<and> d \<in> set (rt_live rt1) \<and> r = HandlerTimeoutError (lv_name d) timeoutMs))"
proof -
  from reason_cause_run [OF assms] obtain pre ev post rt1 s1 d where
    at: "tr = pre @ ev # post" "runtime_run drv s0 pre (rt1, s1)" "lv_controller d = n"
      "abort_cause drv rt1 s1 ev d r" by blast
  show ?thesis
    by (rule exI [of _ pre], rule exI [of _ ev], rule exI [of _ post], rule exI [of _ rt1], rule exI [of _ s1],
        rule exI [of _ d]) (use at in \<open>cases ev; simp; blast\<close>)
qed

theorem abort_has_its_cause_witness:
  "\<exists>pre ev rt1 s1 d timeoutMs ds. runtime_run memoryDriver memoryDriver_start pre (rt1, s1) \<and>
    ev \<in> set hard_stop \<and> ev = Expires timeoutMs ds \<and> d \<in> set (rt_live rt1) \<and> lv_controller d = 0"
proof -
  from abort_has_its_cause [OF hard_stop_run stopped_facts(4)] obtain pre ev post rt1 s1 d where
    at: "hard_stop = pre @ ev # post" "runtime_run memoryDriver memoryDriver_start pre (rt1, s1)" "lv_controller d = 0"
    and cause: "(\<exists>aborted. ev = Swept aborted) \<or> (\<exists>timeoutMs ds. ev = Expires timeoutMs ds \<and> d \<in> set (rt_live rt1)) \<or>
      (\<exists>timeoutMs. ev = TimesOut d timeoutMs)"
    by blast
  have listed: "ev \<in> set hard_stop" unfolding at(1) by simp
  with cause have "\<exists>timeoutMs ds. ev = Expires timeoutMs ds \<and> d \<in> set (rt_live rt1)"
    by (auto simp: hard_stop_def)
  with at(2,3) listed show ?thesis by blast
qed

text \<open>
  C20: a close that ran out of time aborts every body running at that moment, each with a
  shutdown unless it had been cancelled before, and they stay aborted; from then on the
  interval is off and no sweep for cancellations begins.
\<close>

theorem expired_close_reaches_every_body:
  assumes "runtime_run drv s0 (tr @ Expires timeoutMs ds # later) (rt, s)"
  shows "\<exists>rt1 s1. runtime_run drv s0 (tr @ [Expires timeoutMs ds]) (rt1, s1) \<and> set ds = set (rt_live rt1) \<and>
    (\<forall>d \<in> set ds. rt_controllers rt (lv_controller d) \<in>
       {Some (CancelledError (lv_name d) False), Some (ShutdownAbortError (lv_name d) False)}) \<and>
    \<not> rt_sweeping rt \<and> Ticks \<notin> set later"
proof -
  from assms have "runtime_run drv s0 ((tr @ [Expires timeoutMs ds]) @ later) (rt, s)" by simp
  from run_after [OF this] obtain rt1 s1 where first: "runtime_run drv s0 (tr @ [Expires timeoutMs ds]) (rt1, s1)"
    and kept: "\<And>n r. rt_controllers rt1 n = Some r \<Longrightarrow> rt_controllers rt n = Some r"
    and off: "\<not> rt_sweeping rt1 \<Longrightarrow> \<not> rt_sweeping rt \<and> Ticks \<notin> set later" by blast
  note at = expired_run [OF first]
  have "\<forall>d \<in> set ds. rt_controllers rt (lv_controller d) \<in>
       {Some (CancelledError (lv_name d) False), Some (ShutdownAbortError (lv_name d) False)}"
    using at(3) kept by auto
  with first at(1) off [OF at(2)] show ?thesis by blast
qed

theorem expired_close_reaches_every_body_witness:
  "rt_controllers stopped 0 \<in> {Some (CancelledError ''mail'' False), Some (ShutdownAbortError ''mail'' False)} \<and>
    \<not> rt_sweeping stopped"
proof -
  have "runtime_run memoryDriver memoryDriver_start
      ([Begins (live_mail 0), CloseCalled (Some (JFin 25000))] @ Expires (JFin 25000) [live_mail 0] # [])
      (stopped, memoryDriver_start)"
    using hard_stop_run by (simp add: hard_stop_def)
  from expired_close_reaches_every_body [OF this] show ?thesis by (auto simp: stopped_facts)
qed

end
