(* ===== verification/MemoryGuarantees.thy ===== *)
theory MemoryGuarantees
  imports Samples Cancellations
begin

text \<open>
  What the memory driver guarantees in every state its operations reach: the line of
  pending jobs is the recorded jobs that wait, \<open>drain\<close> ends, and a mark is taken once;
  and one thing it does not: the id of a job is not its own once another was cancelled.
\<close>

definition mail_request_under :: "string option \<Rightarrow> enqueue_request" where
  "mail_request_under i = \<lparr>rq_queue = ''post'', rq_envelope = mail_envelope, rq_delivery = DELIVERY_DEFAULTS, rq_jobId = i\<rparr>"

definition one_mail :: memory where
  "one_mail = snd (memory_enqueue (mail_request_under None) memoryDriver_start)"

lemma enqueue_mail:
  "memory_enqueue (mail_request_under None) s = (Inr (show_nat (length (mem_recorded s) + 1)),
     s\<lparr>mem_jobs := (mem_jobs s)(mem_fresh s :=
         \<lparr>mj_id = show_nat (length (mem_recorded s) + 1), mj_queue = ''post'', mj_maxAttempts = JFin 5,
          mj_envelope = mail_envelope, mj_state = Waiting, mj_attempts = 0, mj_attemptsStarted = 0, mj_failure = None\<rparr>),
       mem_fresh := Suc (mem_fresh s), mem_recorded := mem_recorded s @ [mem_fresh s],
       mem_pending := mem_pending s @ [mem_fresh s]\<rparr>)"
  by (simp add: memory_enqueue_def mail_request_under_def rejected_option_def DELIVERY_DEFAULTS_def given_id_def
      Let_def mail_envelope_def stored_envelope_def stored_value_def)

section \<open>Every reachable state\<close>

text \<open>
  C17: in every state the operations of the driver reach, in any order and with any
  number of runs under way, the line holds exactly the recorded jobs that wait, each
  once, and no idempotency key is held and complete at once.
\<close>

theorem memory_line_is_what_waits:
  assumes "memory_step\<^sup>*\<^sup>* memoryDriver_start s"
  shows "distinct (mem_pending s) \<and>
    set (mem_pending s) = {r \<in> set (mem_recorded s). mj_state (mem_jobs s r) = Waiting} \<and>
    (\<forall>r \<in> set (mem_recorded s). mj_state (mem_jobs s r) \<in> {Waiting, Active, Completed, Failed}) \<and>
    (\<forall>k. mem_kept s k = None \<or> mem_leased s k = None)"
  using reachable_memory_inv [OF assms] by (auto simp: memory_inv_def line_inv_def lease_inv_def)

theorem memory_line_is_what_waits_witness:
  "memory_step\<^sup>*\<^sup>* memoryDriver_start one_mail \<and> set (mem_pending one_mail) = {0} \<and>
    mj_state (mem_jobs one_mail 0) = Waiting"
proof -
  have reach: "memory_step\<^sup>*\<^sup>* memoryDriver_start one_mail"
    unfolding one_mail_def by (rule r_into_rtranclp) (rule step_enqueue)
  have "set (mem_recorded one_mail) = {0}" "mj_state (mem_jobs one_mail 0) = Waiting"
    by (simp_all add: one_mail_def enqueue_mail memoryDriver_start_def)
  with memory_line_is_what_waits [OF reach] reach show ?thesis by auto
qed

text \<open>
  C38: \<open>drain\<close> ends as long as no run adds to the line: it runs at most as many jobs as
  were pending and, unless one failed, leaves none that could run.
\<close>

theorem drain_ends:
  assumes "adds_no_job runs"
  shows "\<exists>out s'. drain runs s = Some (out, s') \<and>
    (\<forall>n. out = Inr n \<longrightarrow> runnable s' = None \<and> n \<le> length (mem_pending s))"
  using drain_from_ends [OF assms, of 0 s] by (simp add: drain_def)

definition quiet_runs :: "nat \<Rightarrow> job_delivery \<Rightarrow> (memory, jval) io" where
  "quiet_runs run d s = (Inr JNull, s)"

theorem drain_ends_witness:
  "\<exists>out s'. drain quiet_runs one_mail = Some (out, s')"
proof -
  have "adds_no_job quiet_runs" by (simp add: adds_no_job_def quiet_runs_def)
  from drain_ends [OF this, of one_mail] show ?thesis by blast
qed

section \<open>Marks\<close>

text \<open>
  Over the marks of Redis, a cancellation reaches the delivery it was asked for
  when a sweep takes it, no other delivery of that job, and whether another job's
  delivery is taken is what its own mark says; and no later sweep takes it again.
\<close>

theorem cancellation_reaches_one_delivery:
  assumes "CHR '':'' \<notin> set q" and "distinct ds" and "d \<in> set ds" and "distinct ds'"
  shows "\<exists>taken taken' s' s''. redis_takeCancelled q ds (redis_requestCancel q d s) = (Inr taken, s') \<and>
    redis_takeCancelled q ds' s' = (Inr taken', s'') \<and> d \<in> set taken \<and> d \<notin> set taken' \<and>
    (\<forall>e \<in> set taken. rd_id e = rd_id d \<longrightarrow> e = d)"
proof -
  from redis_channel.mark_reaches_its_delivery [OF assms(1-3), of s] obtain taken s' where
    first: "redis_takeCancelled q ds (redis_requestCancel q d s) = (Inr taken, s')" "d \<in> set taken"
      "\<forall>e \<in> set taken. rd_id e = rd_id d \<longrightarrow> e = d"
    by blast
  from redis_channel.take_law [OF assms(1,4), of s'] obtain taken' s'' where
    second: "redis_takeCancelled q ds' s' = (Inr taken', s'')" by blast
  from redis_channel.mark_is_taken_once [OF assms(1,2,4) first(1) second] first second show ?thesis by blast
qed

theorem cancellation_reaches_one_delivery_witness:
  "\<exists>taken s'. redis_takeCancelled ''post''
      [\<lparr>rd_id = ''7'', rd_attemptsStarted = 2\<rparr>, \<lparr>rd_id = ''7'', rd_attemptsStarted = 1\<rparr>]
      (redis_requestCancel ''post'' \<lparr>rd_id = ''7'', rd_attemptsStarted = 1\<rparr> \<lparr>rk_now = 0, rk_keys = Map.empty\<rparr>) =
      (Inr taken, s') \<and> \<lparr>rd_id = ''7'', rd_attemptsStarted = 1\<rparr> \<in> set taken \<and>
      \<lparr>rd_id = ''7'', rd_attemptsStarted = 2\<rparr> \<notin> set taken"
proof -
  let ?one = "\<lparr>rd_id = ''7'', rd_attemptsStarted = 1\<rparr>" and ?two = "\<lparr>rd_id = ''7'', rd_attemptsStarted = 2\<rparr>"
  have given: "CHR '':'' \<notin> set ''post''" "distinct [?two, ?one]" "?one \<in> set [?two, ?one]" "distinct ([] :: running_delivery list)"
    by simp_all
  obtain taken s' where "redis_takeCancelled ''post'' [?two, ?one]
      (redis_requestCancel ''post'' ?one \<lparr>rk_now = 0, rk_keys = Map.empty\<rparr>) = (Inr taken, s')"
    "?one \<in> set taken" "\<forall>e \<in> set taken. rd_id e = rd_id ?one \<longrightarrow> e = ?one"
    using cancellation_reaches_one_delivery [OF given, of "\<lparr>rk_now = 0, rk_keys = Map.empty\<rparr>"] by blast
  moreover from this(3) have "?two \<notin> set taken" by fastforce
  ultimately show ?thesis by blast
qed

section \<open>The ids of the memory driver\<close>

text \<open>
  An id is the number of recorded jobs at the enqueue, and a cancelled job is taken off
  the record: after two enqueues and a cancellation of the first, the third job is
  stored under the id of the second, which alone answers to it from then on.
\<close>

theorem cancelled_job_gives_its_neighbours_id_away:
  "\<exists>s1 s2 s3 s4.
    memory_enqueue (mail_request_under None) memoryDriver_start = (Inr ''1'', s1) \<and>
    memory_enqueue (mail_request_under None) s1 = (Inr ''2'', s2) \<and>
    memory_cancel ''post'' ''1'' s2 = (Inr Removed, s3) \<and>
    memory_enqueue (mail_request_under None) s3 = (Inr ''2'', s4) \<and>
    mem_recorded s4 = [1, 2] \<and> jobAt s4 ''post'' ''2'' = Some 1"
proof -
  have ids: "show_nat (Suc 0) = ''1''" "show_nat 2 = ''2''" "show_nat (Suc (Suc 0)) = ''2''" by code_simp+
  show ?thesis
    by (simp add: enqueue_mail memoryDriver_start_def memory_cancel_def jobAt_def splice_out_def ids Let_def)
qed

end
