(* ===== verification/Relay.thy ===== *)
theory Relay
  imports Flows Migrations MemoryDriver
begin

text \<open>
  The outbox and its relay (\<open>src/src/Outbox.ts\<close>). The table is code of the
  application: the record \<open>outbox\<close> of its three operations over the same state the
  driver acts on. Shown here: that one row nothing can deliver holds no other row
  back, that the rows marked are exactly the rows that reached the queue, how a row
  left behind is classified, that a row delivered twice is one job, and that one
  cycle runs at a time.
\<close>

section \<open>The table\<close>

record claimed_envelope =
  ce_id :: string
  ce_envelope :: envelope

record 's outbox =
  ob_save :: "envelope list \<Rightarrow> jval \<Rightarrow> ('s, unit) io"
  ob_claim :: "jnum \<Rightarrow> ('s, claimed_envelope list) io"
  ob_markDelivered :: "string list \<Rightarrow> ('s, unit) io"

datatype left_behind_reason = DriverFailed | RowVersionAhead | RowUnrecoverable

record left_behind_event =
  lb_rowId :: string
  lb_name :: string
  lb_reason :: left_behind_reason
  lb_error :: thrown

record 's relay_config =
  rl_outbox :: "'s outbox"
  rl_driver :: "'s job_driver"
  rl_definitions :: "job_definition list option"
  rl_limit :: "jnum option"
  rl_onLeftBehind :: "(left_behind_event \<Rightarrow> ('s, unit) io) option"

definition DEFAULT_LIMIT :: jnum where
  "DEFAULT_LIMIT = JFin 100"

section \<open>One row\<close>

definition emptyRowId :: "thrown" where
  "emptyRowId =
     new_error C_Error
       (''jubs: the outbox claimed a row with an empty id, and a job id cannot be derived '' @ ''from it'' @
        dash @ ''BullMQ would make an id up instead, the row would be marked delivered for a job '' @
        ''nothing can name, and the next claim of that row would enqueue a second one. Give '' @
        ''every row of your outbox table an id, and hand it back from `claim` as `id`.'')"

definition colonInRowId :: "string \<Rightarrow> thrown" where
  "colonInRowId rowId =
     new_error C_Error
       (''jubs: the outbox claimed the row '' @ quoted rowId @
        '', whose id carries a colon, and a job id cannot be derived from it'' @ dash @
        ''BullMQ refuses a custom id whose colons do not cut it in exactly three parts, and '' @
        ''this library cuts a job id at its first colon to find the queue it is on. Name your '' @
        ''rows with an id that holds no colon, a bigserial or a uuid.'')"

definition outboxJobId :: "string \<Rightarrow> thrown + string" where
  "outboxJobId rowId =
     (if rowId = [] then Inl emptyRowId
      else if CHR '':'' \<in> set rowId
        then Inl (colonInRowId rowId)
      else Inr (''outbox-'' @ rowId))"

definition unknownRow :: "claimed_envelope \<Rightarrow> thrown" where
  "unknownRow claimed =
     new_error C_Error
       (''jubs: the outbox row '' @ quoted (ce_id claimed) @ '' runs '' @
        quoted (env_name (ce_envelope claimed)) @ '', which this client does not know'' @ dash @
        ''register its definition in createJobs({ definitions }) on the client that starts '' @ ''the relay.'')"

definition flowInRow :: "claimed_envelope \<Rightarrow> thrown" where
  "flowInRow claimed =
     new_error C_Error
       (''jubs: the outbox row '' @ quoted (ce_id claimed) @ '' runs '' @
        quoted (env_name (ce_envelope claimed)) @
        '', which waits on children, and a row holds one envelope and no tree'' @ dash @
        ''delivering it would enqueue that job with no children at all, and the first '' @
        ''delivery would find its slots short and bury it. A flow is refused inside '' @
        ''jobs.atomic(fn, { tx }) for that reason, so this row was written by something else: '' @
        ''drop it, and enqueue the flow with jobs.enqueue(definition, data, awaits) outside '' @ ''the block.'')"

definition definitionOf :: "'s relay_config \<Rightarrow> claimed_envelope \<Rightarrow> thrown + job_definition" where
  "definitionOf config claimed =
     (case find (\<lambda>d. jd_name d = env_name (ce_envelope claimed)) (or_else (rl_definitions config) []) of
        None \<Rightarrow> Inl (unknownRow claimed)
      | Some d \<Rightarrow>
          if slotsOf d \<noteq> []
          then Inl (flowInRow claimed)
          else Inr d)"

text \<open>A row nothing can be made of is no row a newer deploy wrote.\<close>

lemma row_errors [simp]:
  "instance_of emptyRowId k \<longleftrightarrow> k = C_Error" "instance_of (colonInRowId rowId) k \<longleftrightarrow> k = C_Error"
  "instance_of (unknownRow claimed) k \<longleftrightarrow> k = C_Error" "instance_of (flowInRow claimed) k \<longleftrightarrow> k = C_Error"
  by (auto simp: emptyRowId_def colonInRowId_def unknownRow_def flowInRow_def)

definition leftBehindEvent :: "claimed_envelope \<Rightarrow> left_behind_reason \<Rightarrow> thrown \<Rightarrow> left_behind_event" where
  "leftBehindEvent row reason failure =
     \<lparr>lb_rowId = ce_id row, lb_name = env_name (ce_envelope row), lb_reason = reason,
      lb_error = (case failure of Thrown v \<Rightarrow> new_error C_Error (js_string v) | e \<Rightarrow> e)\<rparr>"

text \<open>The first \<open>try\<close> of \<open>deliver\<close>: the request of one row.\<close>

definition row_request :: "'s relay_config \<Rightarrow> claimed_envelope \<Rightarrow> thrown + enqueue_request" where
  "row_request config claimed =
     bindE (definitionOf config claimed) (\<lambda>d.
     bindE (migrateEnvelope d (ce_envelope claimed)) (\<lambda>migrated.
     bindE (validatePayload d migrated) (\<lambda>validated.
     bindE (resolveDeliveryWithoutUniqueness d validated) (\<lambda>dl.
     bindE (outboxJobId (ce_id claimed)) (\<lambda>i.
       Inr \<lparr>rq_queue = jd_queue d, rq_envelope = ce_envelope claimed, rq_delivery = dl, rq_jobId = Some i\<rparr>)))))"

definition deliver :: "'s relay_config \<Rightarrow> claimed_envelope \<Rightarrow> 's \<Rightarrow> left_behind_event option \<times> 's" where
  "deliver config claimed s =
     (case row_request config claimed of
        Inl failure \<Rightarrow>
          (Some (leftBehindEvent claimed
             (if instance_of failure C_VersionAheadError then RowVersionAhead else RowUnrecoverable) failure), s)
      | Inr request \<Rightarrow>
          (case drv_enqueue (rl_driver config) request s of
             (Inl failure, s') \<Rightarrow> (Some (leftBehindEvent claimed DriverFailed failure), s')
           | (Inr _, s') \<Rightarrow> (None, s')))"

text \<open>The error the relay logs for a row it left behind.\<close>

fun ADVICE :: "left_behind_reason \<Rightarrow> string" where
  "ADVICE DriverFailed =
     (''that row is not broken and its job is not lost: the delivery failed inside the '' @
      ''driver, so nothing of it reached the queue, and the next cycle claims the row again '' @
      ''and delivers it as soon as the driver answers. Look at Redis and at the connection '' @
      ''the driver holds, and leave the row in the claim: marking it delivered by hand or '' @
      ''deleting it loses a job that was committed together with the state change beside '' @
      ''it. An outbox that counts claims gives up on the row before the connection comes '' @ ''back'' @ dash @
      ''the adapter in the outbox guide stops claiming a row after ten'' @ dash @
      ''so read that count, and reset it once the driver answers again.'')"
| "ADVICE RowVersionAhead =
     (''that row is not broken, and this process alone cannot deliver it: a newer deploy '' @
      ''wrote its payload, and a process running that version delivers it as soon as it '' @
      ''claims it. Wait for the deploy to finish, and leave the row in the claim: marking '' @
      ''it delivered by hand or deleting it loses a job that was committed together with '' @
      ''the state change beside it. An outbox that counts claims gives up on the row before '' @
      ''the deploy does'' @ dash @ ''the adapter in the outbox guide stops claiming a row after ten'' @ dash @
      ''so read that count, and reset it if the deploy takes long.'')"
| "ADVICE RowUnrecoverable =
     (''that row alone is not enqueued and stays unmarked, so every cycle claims it again '' @
      ''and fails on it again until something outside the relay changes it. Register on the '' @
      ''relaying client the definition the failure names, or take the row out of the claim: '' @
      ''mark it delivered by hand, or delete it.'')"

declare ADVICE.simps [simp del]

definition leftBehind :: "left_behind_event \<Rightarrow> thrown" where
  "leftBehind event =
     with_cause (new_error C_Error
       (''jubs: the outbox row '' @ quoted (lb_rowId event) @
        '' was left behind, and the relay went on with the rows around it'' @ dash @ ADVICE (lb_reason event) @
        '' The failure it was left behind on: '' @ message_of (lb_error event))) (lb_error event)"

text \<open>The report is logged; a hook that throws is logged too.\<close>

definition reportLeftBehind :: "'s relay_config \<Rightarrow> left_behind_event \<Rightarrow> 's \<Rightarrow> 's" where
  "reportLeftBehind config event s =
     (case rl_onLeftBehind config of None \<Rightarrow> s | Some hook \<Rightarrow> snd (hook event s))"

section \<open>One cycle\<close>

fun deliver_rows :: "'s relay_config \<Rightarrow> claimed_envelope list \<Rightarrow> 's \<Rightarrow> string list \<times> 's" where
  "deliver_rows config [] s = ([], s)"
| "deliver_rows config (row # rows) s =
     (case deliver config row s of
        (None, s1) \<Rightarrow> (case deliver_rows config rows s1 of (ids, s2) \<Rightarrow> (ce_id row # ids, s2))
      | (Some event, s1) \<Rightarrow> deliver_rows config rows (reportLeftBehind config event s1))"

definition runRelayCycle :: "'s relay_config \<Rightarrow> ('s, unit) io" where
  "runRelayCycle config =
     bind_io (ob_claim (rl_outbox config) (or_else (rl_limit config) DEFAULT_LIMIT)) (\<lambda>claimed s.
       case deliver_rows config claimed s of
         (delivered, s') \<Rightarrow>
           if delivered = [] then (Inr (), s')
           else ob_markDelivered (rl_outbox config) delivered s')"

section \<open>The loop\<close>

text \<open>
  \<open>startRelayLoop\<close> as what happens to it: its timer ticks, the cycle under way ends,
  or it is closed. \<open>rs_cycle\<close> is the variable \<open>cycle\<close>, \<open>rs_started\<close> and \<open>rs_ended\<close> count.
\<close>

datatype relay_input = Tick | CycleEnds | CloseRelay

record relay_loop =
  rs_cycle :: bool
  rs_ticking :: bool
  rs_started :: nat
  rs_ended :: nat

definition relay_tick :: "relay_loop \<Rightarrow> relay_loop" where
  "relay_tick r = (if rs_cycle r then r else r\<lparr>rs_cycle := True, rs_started := Suc (rs_started r)\<rparr>)"

definition startRelayLoop :: relay_loop where
  "startRelayLoop = relay_tick \<lparr>rs_cycle = False, rs_ticking = True, rs_started = 0, rs_ended = 0\<rparr>"

fun relay_step :: "relay_input \<Rightarrow> relay_loop \<Rightarrow> relay_loop" where
  "relay_step Tick r = (if rs_ticking r then relay_tick r else r)"
| "relay_step CycleEnds r =
     (if rs_cycle r then r\<lparr>rs_cycle := False, rs_ended := Suc (rs_ended r)\<rparr> else r)"
| "relay_step CloseRelay r = r\<lparr>rs_ticking := False\<rparr>"

section \<open>What the relay does\<close>

lemma outboxJobId_Inr_iff:
  "outboxJobId row = Inr i \<longleftrightarrow> row \<noteq> [] \<and> CHR '':'' \<notin> set row \<and> i = ''outbox-'' @ row"
  by (auto simp: outboxJobId_def)

lemma definitionOf_Inr:
  "definitionOf config row = Inr d \<Longrightarrow>
    d \<in> set (or_else (rl_definitions config) []) \<and> jd_name d = env_name (ce_envelope row) \<and> slotsOf d = []"
  by (auto simp: definitionOf_def split: option.splits if_splits dest: find_Some_in)

lemma row_request_Inr:
  assumes "row_request config row = Inr rq"
  shows "\<exists>d. definitionOf config row = Inr d \<and> rq_queue rq = jd_queue d \<and>
    rq_envelope rq = ce_envelope row \<and> dl_unique (rq_delivery rq) = None \<and>
    rq_jobId rq = Some (''outbox-'' @ ce_id row) \<and> ce_id row \<noteq> []"
proof -
  from assms obtain d migrated validated dl i where
    "definitionOf config row = Inr d" "resolveDeliveryWithoutUniqueness d validated = Inr dl"
    "outboxJobId (ce_id row) = Inr i"
    "rq = \<lparr>rq_queue = jd_queue d, rq_envelope = ce_envelope row, rq_delivery = dl, rq_jobId = Some i\<rparr>"
    by (auto simp: row_request_def bindE_Inr_iff)
  moreover from this(2) resolve_without_unique [of d validated] have "dl_unique dl = None"
    by (auto simp: resolveDeliveryWithoutUniqueness_def)
  ultimately show ?thesis by (auto simp: outboxJobId_Inr_iff)
qed

text \<open>The rows a cycle delivers, with the state each was delivered in.\<close>

fun cycle_events :: "'s relay_config \<Rightarrow> claimed_envelope list \<Rightarrow> 's \<Rightarrow> left_behind_event option list" where
  "cycle_events config [] s = []"
| "cycle_events config (row # rows) s =
     (case deliver config row s of
        (None, s1) \<Rightarrow> None # cycle_events config rows s1
      | (Some event, s1) \<Rightarrow> Some event # cycle_events config rows (reportLeftBehind config event s1))"

lemma length_cycle_events [simp]: "length (cycle_events config rows s) = length rows"
  by (induction config rows s rule: cycle_events.induct) (auto split: prod.splits option.splits)

lemma deliver_rows_ids:
  "fst (deliver_rows config rows s) =
    map (\<lambda>p. ce_id (fst p)) (filter (\<lambda>p. snd p = None) (zip rows (cycle_events config rows s)))"
  by (induction config rows s rule: cycle_events.induct) (auto split: prod.splits option.splits)

text \<open>
  What may become of the rows a cycle claimed, one rule for each: a row whose request the
  driver took; a row whose request it refused; a row no request can be made of. The state
  the next row is tried in is the one the driver and the hook left.
\<close>

definition told :: "'s relay_config \<Rightarrow> left_behind_event \<Rightarrow> 's \<Rightarrow> 's \<Rightarrow> bool" where
  "told config ev s s' \<longleftrightarrow>
     (case rl_onLeftBehind config of None \<Rightarrow> s' = s | Some hook \<Rightarrow> \<exists>out. hook ev s = (out, s'))"

definition names_failure :: "left_behind_event \<Rightarrow> claimed_envelope \<Rightarrow> left_behind_reason \<Rightarrow> thrown \<Rightarrow> bool" where
  "names_failure ev row reason e \<longleftrightarrow>
     lb_rowId ev = ce_id row \<and> lb_name ev = env_name (ce_envelope row) \<and> lb_reason ev = reason \<and>
     lb_error ev = (case e of Thrown v \<Rightarrow> new_error C_Error (js_string v) | _ \<Rightarrow> e)"

inductive rows_settle ::
    "'s relay_config \<Rightarrow> claimed_envelope list \<Rightarrow> left_behind_event option list \<Rightarrow> 's \<Rightarrow> 's \<Rightarrow> bool" for config where
  none: "rows_settle config [] [] s s"
| taken: "row_request config row = Inr rq \<Longrightarrow> drv_enqueue (rl_driver config) rq s = (Inr i, s1) \<Longrightarrow>
    rows_settle config rows events s1 s' \<Longrightarrow> rows_settle config (row # rows) (None # events) s s'"
| refused: "row_request config row = Inr rq \<Longrightarrow> drv_enqueue (rl_driver config) rq s = (Inl e, s1) \<Longrightarrow>
    names_failure ev row DriverFailed e \<Longrightarrow> told config ev s1 s2 \<Longrightarrow>
    rows_settle config rows events s2 s' \<Longrightarrow> rows_settle config (row # rows) (Some ev # events) s s'"
| unfit: "row_request config row = Inl e \<Longrightarrow>
    names_failure ev row (if instance_of e C_VersionAheadError then RowVersionAhead else RowUnrecoverable) e \<Longrightarrow>
    told config ev s s1 \<Longrightarrow> rows_settle config rows events s1 s' \<Longrightarrow>
    rows_settle config (row # rows) (Some ev # events) s s'"

inductive_cases rows_settle_ConsE: "rows_settle config (row # rows) events s s'"
inductive_cases rows_settle_NilE: "rows_settle config [] events s s'"

lemma told_report: "told config ev s (reportLeftBehind config ev s)"
  by (simp add: told_def reportLeftBehind_def split: option.split) (metis prod.collapse)

lemma names_leftBehind: "names_failure (leftBehindEvent row reason e) row reason e"
  by (simp add: names_failure_def leftBehindEvent_def split: thrown.split)

lemma deliver_rows_settle:
  "rows_settle config rows (cycle_events config rows s) s (snd (deliver_rows config rows s))"
proof (induction rows arbitrary: s)
  case Nil
  show ?case by (simp add: rows_settle.none)
next
  case (Cons row rows)
  show ?case
  proof (cases "row_request config row")
    case (Inl e)
    let ?ev = "leftBehindEvent row (if instance_of e C_VersionAheadError then RowVersionAhead else RowUnrecoverable) e"
    show ?thesis
      using rows_settle.unfit [OF Inl names_leftBehind told_report Cons.IH [of "reportLeftBehind config ?ev s"]]
      by (simp add: deliver_def Inl)
  next
    case (Inr rq)
    obtain out s1 where enqueued: "drv_enqueue (rl_driver config) rq s = (out, s1)" by fastforce
    show ?thesis
    proof (cases out)
      case (Inl e)
      let ?ev = "leftBehindEvent row DriverFailed e"
      show ?thesis
        using rows_settle.refused [OF Inr enqueued [unfolded Inl] names_leftBehind told_report
            Cons.IH [of "reportLeftBehind config ?ev s1"]]
        by (simp add: deliver_def Inr enqueued Inl)
    next
      case ok: (Inr i)
      show ?thesis
        using rows_settle.taken [OF Inr enqueued [unfolded ok] Cons.IH [of s1]]
        by (simp add: deliver_def Inr enqueued ok case_prod_unfold)
    qed
  qed
qed

lemma relay_one_cycle:
  "rs_started (fold relay_step inputs startRelayLoop) =
    rs_ended (fold relay_step inputs startRelayLoop) +
    (if rs_cycle (fold relay_step inputs startRelayLoop) then 1 else 0)"
proof -
  have step: "rs_started r = rs_ended r + (if rs_cycle r then 1 else 0) \<Longrightarrow>
      rs_started (relay_step i r) = rs_ended (relay_step i r) + (if rs_cycle (relay_step i r) then 1 else 0)" for i r
    by (cases i) (auto simp: relay_tick_def)
  have "rs_started r = rs_ended r + (if rs_cycle r then 1 else 0) \<Longrightarrow>
      rs_started (fold relay_step inputs r) =
        rs_ended (fold relay_step inputs r) + (if rs_cycle (fold relay_step inputs r) then 1 else 0)" for r
    by (induction inputs arbitrary: r) (simp_all add: step)
  then show ?thesis by (simp add: startRelayLoop_def relay_tick_def)
qed

text \<open>A row delivered over the memory driver, and delivered again.\<close>

lemma deliver_again:
  assumes "rl_driver config = memoryDriver" and "deliver config row s = (None, s')"
  shows "deliver config row s' = (None, s')"
proof -
  from assms(2) obtain rq i where rq: "row_request config row = Inr rq" "memory_enqueue rq s = (Inr i, s')"
    by (auto simp: deliver_def assms(1) memoryDriver_def split: sum.splits prod.splits)
  from row_request_Inr [OF rq(1)] have "given_id rq = Some (''outbox-'' @ ce_id row)"
    by (auto simp: given_id_def)
  moreover have "rejected_option (rq_delivery rq) = None"
    using rq(2) by (auto simp: memory_enqueue_def split: option.splits)
  ultimately have "memory_enqueue rq s' = (Inr i, s')"
    using rq(2) by (intro enqueue_again [where s = s]) auto
  with rq(1) show ?thesis by (simp add: deliver_def assms(1) memoryDriver_def)
qed

end
