(* ===== verification/RelayGuarantees.thy ===== *)
theory RelayGuarantees
  imports Samples Relay
begin

text \<open>
  What the relay guarantees of the outbox: a row it cannot deliver holds no other back
  and is reported for what it is, the rows marked are exactly the rows delivered, and a
  row delivered twice is one job. That one cycle runs at a time is \<open>relay_one_cycle\<close>.
\<close>

section \<open>One cycle\<close>

text \<open>
  C13: a cycle tries every row it claimed, in order, whatever the rows before it met: a
  row whose request the driver took is delivered; a row whose request the driver refused
  is left behind as the driver's failure; a row no request can be made of is left behind
  as ahead of this process when its version is, and as unrecoverable otherwise. Each row
  left behind is handed to the hook before the next row is tried, under its own id and
  name, with its failure. The rows marked are exactly the ones the driver took, in one
  call, or no call is made when there is none.
\<close>

theorem relay_holds_no_row_back:
  assumes "ob_claim (rl_outbox config) (or_else (rl_limit config) DEFAULT_LIMIT) s = (Inr rows, s1)"
  shows "\<exists>events s2. rows_settle config rows events s1 s2 \<and> length events = length rows \<and>
    runRelayCycle config s =
      (let ids = map (\<lambda>p. ce_id (fst p)) (filter (\<lambda>p. snd p = None) (zip rows events))
       in if ids = [] then (Inr (), s2) else ob_markDelivered (rl_outbox config) ids s2)"
proof (intro exI conjI)
  show "rows_settle config rows (cycle_events config rows s1) s1 (snd (deliver_rows config rows s1))"
    by (rule deliver_rows_settle)
  show "length (cycle_events config rows s1) = length rows" by simp
  show "runRelayCycle config s =
      (let ids = map (\<lambda>p. ce_id (fst p)) (filter (\<lambda>p. snd p = None) (zip rows (cycle_events config rows s1)))
       in if ids = [] then (Inr (), snd (deliver_rows config rows s1))
          else ob_markDelivered (rl_outbox config) ids (snd (deliver_rows config rows s1)))"
    using assms deliver_rows_ids [of config rows s1]
    by (auto simp: runRelayCycle_def bind_io_def Let_def split: prod.splits)
qed

text \<open>
  A table of two rows, one of which names a job nobody registered; the marks and the
  reports are written where a test can read them, as kept results of the memory driver.
\<close>

definition stranger_row :: claimed_envelope where
  "stranger_row = \<lparr>ce_id = ''1'', ce_envelope = mail_envelope\<lparr>env_name := ''stranger''\<rparr>\<rparr>"

definition mail_row :: claimed_envelope where
  "mail_row = \<lparr>ce_id = ''2'', ce_envelope = mail_envelope\<rparr>"

definition noted :: "string \<Rightarrow> memory \<Rightarrow> memory" where
  "noted key s = s\<lparr>mem_kept := (mem_kept s)(key \<mapsto> None)\<rparr>"

definition memory_outbox :: "memory outbox" where
  "memory_outbox = \<lparr>ob_save = (\<lambda>envs tx s. (Inr (), s)), ob_claim = (\<lambda>limit s. (Inr [stranger_row, mail_row], s)),
     ob_markDelivered = (\<lambda>ids s. (Inr (), noted (''marked '' @ join '','' ids) s))\<rparr>"

definition memory_relay :: "memory relay_config" where
  "memory_relay = \<lparr>rl_outbox = memory_outbox, rl_driver = memoryDriver, rl_definitions = Some [mail_job],
     rl_limit = None, rl_onLeftBehind = Some (\<lambda>ev s. (Inr (), noted (''left '' @ lb_rowId ev) s))\<rparr>"

lemma stranger_refused:
  "\<exists>e. row_request memory_relay stranger_row = Inl e \<and> \<not> instance_of e C_VersionAheadError"
  by (simp add: row_request_def definitionOf_def memory_relay_def stranger_row_def mail_job_def)

lemma mail_row_request:
  "row_request memory_relay mail_row = Inr \<lparr>rq_queue = ''post'', rq_envelope = mail_envelope,
      rq_delivery = DELIVERY_DEFAULTS, rq_jobId = Some ''outbox-2''\<rparr>"
  using migrateEnvelope_current [of mail_envelope mail_job]
  by (simp add: row_request_def definitionOf_def memory_relay_def mail_row_def mail_slots mail_envelope_def)
    (simp add: mail_job_def payloadVersion_def DEFAULT_PAYLOAD_VERSION_def validatePayload_def any_payload_def
      resolveDeliveryWithoutUniqueness_def resolve_def delivery_defaults_for_def outboxJobId_def)

lemma relay_driver: "drv_enqueue (rl_driver memory_relay) = memory_enqueue"
  by (simp add: memory_relay_def memoryDriver_def)

theorem relay_holds_no_row_back_witness:
  "\<exists>s'. runRelayCycle memory_relay memoryDriver_start = (Inr (), s') \<and>
    mem_kept s' = [''left 1'' \<mapsto> None, ''marked 2'' \<mapsto> None] \<and> length (mem_pending s') = 1"
proof -
  have claim: "ob_claim (rl_outbox memory_relay) (or_else (rl_limit memory_relay) DEFAULT_LIMIT) memoryDriver_start =
      (Inr [stranger_row, mail_row], memoryDriver_start)"
    by (simp add: memory_relay_def memory_outbox_def)
  from relay_holds_no_row_back [OF claim] obtain events s2 where
    settled: "rows_settle memory_relay [stranger_row, mail_row] events memoryDriver_start s2"
    and cycle: "runRelayCycle memory_relay memoryDriver_start =
      (let ids = map (\<lambda>p. ce_id (fst p)) (filter (\<lambda>p. snd p = None) (zip [stranger_row, mail_row] events))
       in if ids = [] then (Inr (), s2) else ob_markDelivered (rl_outbox memory_relay) ids s2)"
    by blast
  from settled obtain ev s1 later where first: "events = Some ev # later" "lb_rowId ev = ''1''"
    "told memory_relay ev memoryDriver_start s1" "rows_settle memory_relay [mail_row] later s1 s2"
    using stranger_refused
    by (cases rule: rows_settle.cases) (auto simp: names_failure_def stranger_row_def)
  then have "s1 = noted ''left 1'' memoryDriver_start" by (simp add: told_def memory_relay_def)
  with first(4) have second: "later = [None]" "mem_kept s2 = [''left 1'' \<mapsto> None]" "length (mem_pending s2) = 1"
    by (auto elim!: rows_settle_ConsE rows_settle_NilE simp: mail_row_request relay_driver memory_enqueue_def
        rejected_option_def DELIVERY_DEFAULTS_def given_id_def jobAt_def noted_def memoryDriver_start_def Let_def)
  show ?thesis
    using cycle second by (simp add: first(1) mail_row_def memory_relay_def memory_outbox_def noted_def)
qed

text \<open>
  A row delivered and never marked, then claimed and delivered again, is one job:
  the second delivery meets the job of the first and stores nothing, while the driver
  still keeps that job.
\<close>

theorem redelivered_row_is_one_job:
  assumes "rl_driver config = memoryDriver" and "Relay.deliver config row s = (None, s')"
  shows "Relay.deliver config row s' = (None, s')"
  using assms by (rule deliver_again)

theorem redelivered_row_is_one_job_witness:
  "\<exists>s'. Relay.deliver memory_relay mail_row memoryDriver_start = (None, s') \<and>
    Relay.deliver memory_relay mail_row s' = (None, s') \<and> length (mem_recorded s') = 1"
proof -
  obtain s' where first: "Relay.deliver memory_relay mail_row memoryDriver_start = (None, s')"
      "length (mem_recorded s') = 1"
    by (simp add: deliver_def mail_row_request relay_driver memory_enqueue_def rejected_option_def
        DELIVERY_DEFAULTS_def given_id_def jobAt_def memoryDriver_start_def Let_def)
  from redelivered_row_is_one_job [OF _ first(1)] first show ?thesis by (simp add: memory_relay_def)
qed

end
