(* ===== verification/Atomic.thy ===== *)
theory Atomic
  imports Flows
begin

text \<open>
  Atomic blocks (\<open>src/src/Atomic.ts\<close>). A scope is an object the callbacks of a block
  keep a reference to, so scopes live in a store; the scope the running code sees,
  which \<open>AsyncLocalStorage\<close> keeps, is the reference \<open>ctx\<close> every operation is given.
  An enqueue held back is a value: the request of one job, or the tree of a flow,
  beside the two things the code does with it. The function a writing block settles
  through is the save of the outbox under a transaction, kept as that transaction.
\<close>

section \<open>Held enqueues\<close>

datatype held_enqueue = HeldJob enqueue_request | HeldFlow flow_node string

fun deliver_held :: "'s job_driver \<Rightarrow> held_enqueue \<Rightarrow> ('s, string) io" where
  "deliver_held drv (HeldJob rq) = drv_enqueue drv rq"
| "deliver_held drv (HeldFlow node name) = drv_flow_enqueue drv node"

text \<open>\<open>envelopeForOutbox\<close> and \<open>flowRefusedByOutbox\<close> of \<open>src/src/Client.ts\<close>.\<close>

definition uniqueRefusedByOutbox :: "string \<Rightarrow> thrown" where
  "uniqueRefusedByOutbox name =
     new_error C_Error
       (''jubs: the job '' @ quoted name @
        '' declares `unique`, and it was enqueued inside jobs.atomic(fn, { tx })'' @ dash @
        ''uniqueness does not survive the outbox, and it is refused here rather than dropped. '' @
        ''The relay stores a job under an id derived from the outbox row, which is what makes '' @
        ''a row delivered twice one job for as long as Redis keeps that job; BullMQ reads '' @
        ''that id first and the deduplication key second, so a key already pointing at '' @
        ''another job would answer with that other job's id, the row would be marked '' @
        ''delivered by a job that is not its own, and the job this row stands for would never '' @
        ''exist. This job was not written and not enqueued. Drop `unique` from this definition'' @ dash @
        ''`idempotencyKey` stops a second execution and travels through the outbox'' @ dash @
        ''or enqueue this job outside the block, where uniqueness works and the transaction '' @
        ''does not cover it.'')"

definition envelopeForOutbox :: "enqueue_request \<Rightarrow> thrown + envelope" where
  "envelopeForOutbox rq =
     (if dl_unique (rq_delivery rq) \<noteq> None
      then Inl (uniqueRefusedByOutbox (env_name (rq_envelope rq)))
      else Inr ((rq_envelope rq)\<lparr>env_origin := Relay\<rparr>))"

definition flowRefusedByOutbox :: "string \<Rightarrow> thrown" where
  "flowRefusedByOutbox name =
     new_error C_Error
       (''jubs: the flow '' @ quoted name @
        '' was enqueued inside jobs.atomic(fn, { tx }), and an outbox row holds one envelope '' @
        ''and no tree'' @ dash @
        ''the whole flow would have to be rebuilt from that row, and what a slot was given '' @
        ''would be lost on the way. This flow was not written and not enqueued. Enqueue the '' @
        ''flow with jobs.enqueue(definition, data, awaits) outside the block, or hold it with '' @
        ''jobs.atomic(fn) alone, which keeps it in memory until the block resolves.'')"

fun for_outbox :: "held_enqueue \<Rightarrow> thrown + envelope" where
  "for_outbox (HeldJob rq) = envelopeForOutbox rq"
| "for_outbox (HeldFlow node name) = Inl (flowRefusedByOutbox name)"

section \<open>Scopes\<close>

record atomic_scope =
  as_held :: "held_enqueue list"
  as_written :: "envelope list"
  as_write :: "jval option"
  as_closed :: bool

record 's world =
  wd_state :: 's
  wd_scopes :: "nat \<Rightarrow> atomic_scope"
  wd_fresh :: nat

type_synonym ctx = "nat option"

definition on_state :: "('s, 'a) io \<Rightarrow> ('s world, 'a) io" where
  "on_state m w = (case m (wd_state w) of (r, s) \<Rightarrow> (r, w\<lparr>wd_state := s\<rparr>))"

definition put_scope :: "nat \<Rightarrow> atomic_scope \<Rightarrow> 's world \<Rightarrow> 's world" where
  "put_scope n scope w = w\<lparr>wd_scopes := (wd_scopes w)(n := scope)\<rparr>"

definition inAtomicBlock :: "ctx \<Rightarrow> 's world \<Rightarrow> bool" where
  "inAtomicBlock ctx w = (case ctx of None \<Rightarrow> False | Some n \<Rightarrow> \<not> as_closed (wd_scopes w n))"

text \<open>\<open>outsideAtomicBlock\<close>: what it runs sees no scope.\<close>

definition outsideAtomicBlock :: "(ctx \<Rightarrow> 'a) \<Rightarrow> 'a" where
  "outsideAtomicBlock run = run None"

definition endedMessage :: "atomic_scope \<Rightarrow> thrown" where
  "endedMessage scope =
     (let done_text = (if as_write scope \<noteq> None then ''wrote what it held to the outbox'' else ''delivered what it held'')
      in new_error C_Error
       (''jubs: this enqueue reached an atomic block that has already ended, so nothing holds '' @ ''it'' @
        dash @ ''it was made from a callback the block scheduled and never waited for, which keeps '' @
        ''the block's context and outlives it. The block '' @ done_text @
        '' and cannot take this one, and it is refused instead of being dropped in silence. '' @
        ''Await that work inside the block, or enqueue outside the block.''))"

section \<open>Holding and settling\<close>

definition holdOrDeliver :: "'s job_driver \<Rightarrow> held_enqueue \<Rightarrow> ctx \<Rightarrow> ('s world, string option) io" where
  "holdOrDeliver drv held ctx w =
     (case ctx of
        None \<Rightarrow> bind_io (on_state (deliver_held drv held)) (\<lambda>i. ret_io (Some i)) w
      | Some n \<Rightarrow>
          let scope = wd_scopes w n in
          if as_closed scope then (Inl (endedMessage scope), w)
          else if as_write scope \<noteq> None
            then (case for_outbox held of
                    Inl e \<Rightarrow> (Inl e, w)
                  | Inr envelope \<Rightarrow>
                      (Inr None, put_scope n (scope\<lparr>as_written := as_written scope @ [envelope]\<rparr>) w))
          else (Inr None, put_scope n (scope\<lparr>as_held := as_held scope @ [held]\<rparr>) w))"

definition flushFailed :: "nat \<Rightarrow> nat \<Rightarrow> thrown \<Rightarrow> thrown" where
  "flushFailed index held_count failure =
     with_cause (new_error C_Error
       (''jubs: an atomic block delivered '' @ show_nat index @ '' of the '' @ show_nat held_count @
        '' jobs it held and then failed'' @ dash @ ''the job it failed on is not enqueued, and the '' @
        show_nat (held_count - index - 1) @
        '' after it were abandoned without being tried. What is enqueued stands: a job a '' @
        ''worker may have taken already cannot be unenqueued, so running the block again '' @
        ''delivers those '' @ show_nat index @ '' a second time.'')) failure"

fun flush_from :: "'s job_driver \<Rightarrow> nat \<Rightarrow> nat \<Rightarrow> held_enqueue list \<Rightarrow> ('s, unit) io" where
  "flush_from drv held_count index [] s = (Inr (), s)"
| "flush_from drv held_count index (h # hs) s =
     (case deliver_held drv h s of
        (Inl failure, s') \<Rightarrow> (Inl (flushFailed index held_count failure), s')
      | (Inr _, s') \<Rightarrow> flush_from drv held_count (Suc index) hs s')"

definition flush :: "'s job_driver \<Rightarrow> held_enqueue list \<Rightarrow> ('s, unit) io" where
  "flush drv held = flush_from drv (length held) 0 held"

definition new_scope :: "jval option \<Rightarrow> atomic_scope" where
  "new_scope write = \<lparr>as_held = [], as_written = [], as_write = write, as_closed = False\<rparr>"

definition open_scope :: "jval option \<Rightarrow> 's world \<Rightarrow> 's world" where
  "open_scope write w =
     w\<lparr>wd_scopes := (wd_scopes w)(wd_fresh w := new_scope write), wd_fresh := Suc (wd_fresh w)\<rparr>"

definition close_scope :: "nat \<Rightarrow> 's world \<Rightarrow> 's world" where
  "close_scope n w = put_scope n ((wd_scopes w n)\<lparr>as_closed := True\<rparr>) w"

definition runAtomicBlock ::
    "'s job_driver \<Rightarrow> (envelope list \<Rightarrow> jval \<Rightarrow> ('s, unit) io) \<Rightarrow> (ctx \<Rightarrow> ('s world, 'a) io) \<Rightarrow> jval option \<Rightarrow>
      ctx \<Rightarrow> ('s world, 'a) io" where
  "runAtomicBlock drv save run write ctx w =
     (if inAtomicBlock ctx w then run ctx w
      else
        let n = wd_fresh w in
        (case run (Some n) (open_scope write w) of
           (Inl e, w1) \<Rightarrow> (Inl e, close_scope n w1)
         | (Inr result, w1) \<Rightarrow>
             let w2 = close_scope n w1; scope = wd_scopes w2 n in
             (case as_write scope of
                Some tx \<Rightarrow>
                  if as_written scope \<noteq> []
                  then bind_io (on_state (save (as_written scope) tx)) (\<lambda>_. ret_io result) w2
                  else (Inr result, w2)
              | None \<Rightarrow> bind_io (on_state (flush drv (as_held scope))) (\<lambda>_. ret_io result) w2)))"

section \<open>Blocks within blocks\<close>

text \<open>
  What a block does, as far as it enqueues: an enqueue, a block opened inside it,
  or a failure of its own.
\<close>

datatype block_step = Enqueue held_enqueue | Nested "block_step list" | Fails thrown

fun run_steps_in ::
    "'s job_driver \<Rightarrow> (envelope list \<Rightarrow> jval \<Rightarrow> ('s, unit) io) \<Rightarrow> block_step list \<Rightarrow> ctx \<Rightarrow> ('s world, unit) io" where
  "run_steps_in drv save [] ctx w = (Inr (), w)"
| "run_steps_in drv save (Enqueue h # steps) ctx w =
     bind_io (holdOrDeliver drv h ctx) (\<lambda>_. run_steps_in drv save steps ctx) w"
| "run_steps_in drv save (Nested inner # steps) ctx w =
     bind_io (runAtomicBlock drv save (run_steps_in drv save inner) None ctx)
       (\<lambda>_. run_steps_in drv save steps ctx) w"
| "run_steps_in drv save (Fails e # steps) ctx w = (Inl e, w)"

text \<open>The enqueues of a block in the order it makes them, and the failure it ends with.\<close>

fun enqueues_of :: "block_step list \<Rightarrow> held_enqueue list \<times> thrown option" where
  "enqueues_of [] = ([], None)"
| "enqueues_of (Enqueue h # steps) = (case enqueues_of steps of (hs, e) \<Rightarrow> (h # hs, e))"
| "enqueues_of (Nested inner # steps) =
     (case enqueues_of inner of
        (hs, Some e) \<Rightarrow> (hs, Some e)
      | (hs, None) \<Rightarrow> (case enqueues_of steps of (hs', e) \<Rightarrow> (hs @ hs', e)))"
| "enqueues_of (Fails e # steps) = ([], Some e)"


section \<open>What a block delivers\<close>

lemma put_scope_sel [simp]:
  "wd_state (put_scope n scope w) = wd_state w" "wd_fresh (put_scope n scope w) = wd_fresh w"
  "wd_scopes (put_scope n scope w) n = scope"
  "m \<noteq> n \<Longrightarrow> wd_scopes (put_scope n scope w) m = wd_scopes w m"
  by (simp_all add: put_scope_def)

lemma put_scope_twice [simp]: "put_scope n a (put_scope n b w) = put_scope n a w"
  by (simp add: put_scope_def)

lemma put_scope_same [simp]: "put_scope n (wd_scopes w n) w = w"
  by (simp add: put_scope_def)

lemma bind_io_split:
  "bind_io m f s = (case m s of (Inl e, s') \<Rightarrow> (Inl e, s') | (Inr x, s') \<Rightarrow> f x s')"
  by (simp add: bind_io_def)

definition outcome_of :: "thrown option \<Rightarrow> thrown + unit" where
  "outcome_of e = (case e of None \<Rightarrow> Inr () | Some t \<Rightarrow> Inl t)"

text \<open>A block that holds: every enqueue made in it, at any depth, lands in its scope.\<close>

lemma run_steps_held:
  assumes "\<not> as_closed (wd_scopes w n)" and "as_write (wd_scopes w n) = None"
  shows "run_steps_in drv save steps (Some n) w =
    (outcome_of (snd (enqueues_of steps)),
     put_scope n ((wd_scopes w n)\<lparr>as_held := as_held (wd_scopes w n) @ fst (enqueues_of steps)\<rparr>) w)"
  using assms
proof (induction steps arbitrary: w rule: enqueues_of.induct)
  case 1
  then show ?case by (simp add: outcome_of_def)
next
  case (2 h steps)
  then show ?case
    by (simp add: holdOrDeliver_def Let_def bind_io_split split: prod.split)
next
  case (3 inner steps)
  obtain hs e where inner: "enqueues_of inner = (hs, e)" by fastforce
  have nested: "runAtomicBlock drv save (run_steps_in drv save inner) None (Some n) w =
      (outcome_of e, put_scope n ((wd_scopes w n)\<lparr>as_held := as_held (wd_scopes w n) @ hs\<rparr>) w)"
    using "3.IH"(1) "3.prems" inner by (simp add: runAtomicBlock_def inAtomicBlock_def)
  show ?case
  proof (cases e)
    case None
    with "3.IH"(2) [OF inner [symmetric] None] "3.prems" nested inner show ?thesis
      by (simp add: bind_io_split outcome_of_def split: prod.split)
  next
    case (Some t)
    with nested inner show ?thesis by (simp add: bind_io_split outcome_of_def)
  qed
next
  case (4 e steps)
  then show ?case by (simp add: outcome_of_def)
qed

text \<open>A block that writes: every envelope lands in its scope, until one is refused.\<close>

fun written_by :: "held_enqueue list \<times> thrown option \<Rightarrow> envelope list \<times> thrown option" where
  "written_by ([], e) = ([], e)"
| "written_by (h # hs, e) =
     (case for_outbox h of
        Inl refused \<Rightarrow> ([], Some refused)
      | Inr envelope \<Rightarrow> (case written_by (hs, e) of (envs, e') \<Rightarrow> (envelope # envs, e')))"

lemma written_by_append:
  "written_by (hs @ hs', e) =
    (case written_by (hs, None) of
       (envs, Some refused) \<Rightarrow> (envs, Some refused)
     | (envs, None) \<Rightarrow> (case written_by (hs', e) of (envs', e') \<Rightarrow> (envs @ envs', e')))"
  by (induction hs) (auto split: sum.splits prod.splits option.splits)

lemma written_by_fails:
  "written_by (hs, Some e) =
    (case written_by (hs, None) of (envs, Some refused) \<Rightarrow> (envs, Some refused) | (envs, None) \<Rightarrow> (envs, Some e))"
  by (induction hs) (auto split: sum.splits prod.splits option.splits)

lemma written_by_origin: "\<forall>envelope \<in> set (fst (written_by p)). env_origin envelope = Relay"
proof (induction p rule: written_by.induct)
  case (2 h hs e)
  show ?case
  proof (cases "for_outbox h")
    case (Inl refused)
    then show ?thesis by simp
  next
    case (Inr envelope)
    then have "env_origin envelope = Relay"
      by (cases h) (auto simp: envelopeForOutbox_def split: if_splits)
    moreover obtain envs e' where rest: "written_by (hs, e) = (envs, e')" by fastforce
    moreover have "\<forall>x \<in> set envs. env_origin x = Relay" using "2.IH" [OF Inr] rest by simp
    ultimately show ?thesis using Inr by simp
  qed
qed simp

lemma run_steps_written:
  assumes "\<not> as_closed (wd_scopes w n)" and "as_write (wd_scopes w n) = Some tx"
  shows "run_steps_in drv save steps (Some n) w =
    (outcome_of (snd (written_by (enqueues_of steps))),
     put_scope n ((wd_scopes w n)\<lparr>as_written := as_written (wd_scopes w n) @ fst (written_by (enqueues_of steps))\<rparr>) w)"
  using assms
proof (induction steps arbitrary: w rule: enqueues_of.induct)
  case 1
  then show ?case by (simp add: outcome_of_def)
next
  case (2 h steps)
  then show ?case
    by (simp add: holdOrDeliver_def Let_def bind_io_split outcome_of_def split: prod.split sum.split)
next
  case (3 inner steps)
  obtain hs e where inner: "enqueues_of inner = (hs, e)" by fastforce
  obtain envs r where written: "written_by (hs, e) = (envs, r)" by fastforce
  have nested: "runAtomicBlock drv save (run_steps_in drv save inner) None (Some n) w =
      (outcome_of r, put_scope n ((wd_scopes w n)\<lparr>as_written := as_written (wd_scopes w n) @ envs\<rparr>) w)"
    using "3.IH"(1) "3.prems" inner written by (simp add: runAtomicBlock_def inAtomicBlock_def)
  show ?case
  proof (cases e)
    case None
    with "3.IH"(2) [OF inner [symmetric] None] "3.prems" nested inner written show ?thesis
      by (simp add: bind_io_split outcome_of_def written_by_append split: prod.split option.split)
  next
    case (Some t)
    with nested inner written written_by_fails [of hs t] show ?thesis
      by (auto simp: bind_io_split outcome_of_def split: prod.splits option.splits)
  qed
next
  case (4 e steps)
  then show ?case by (simp add: outcome_of_def)
qed

lemma open_scope_sel [simp]:
  "wd_scopes (open_scope write w) (wd_fresh w) = new_scope write" "wd_state (open_scope write w) = wd_state w"
  "as_closed (new_scope write) = False" "as_write (new_scope write) = write"
  "as_held (new_scope write) = []" "as_written (new_scope write) = []"
  by (simp_all add: open_scope_def new_scope_def)

end
