(* ===== verification/AtomicGuarantees.thy ===== *)
theory AtomicGuarantees
  imports Samples Atomic MemoryDriver
begin

text \<open>
  What an atomic block guarantees: nothing it enqueues, at any depth, leaves it before
  it resolves; a block that throws leaves nothing at all; a block under a transaction
  writes once and enqueues nothing; and a block that ended takes nothing more.
\<close>

section \<open>Delivering what was held\<close>

text \<open>The state after every enqueue of a list was handed to the driver, in order.\<close>

definition delivered :: "'s job_driver \<Rightarrow> held_enqueue list \<Rightarrow> 's \<Rightarrow> 's" where
  "delivered drv hs s = foldl (\<lambda>s h. snd (deliver_held drv h s)) s hs"

lemma flush_from_cases:
  "(flush_from drv n k hs s = (Inr (), delivered drv hs s)) \<or>
   (\<exists>pre h post e. hs = pre @ h # post \<and> fst (deliver_held drv h (delivered drv pre s)) = Inl e \<and>
      flush_from drv n k hs s = (Inl (flushFailed (k + length pre) n e), delivered drv (pre @ [h]) s))"
proof (induction hs arbitrary: k s)
  case Nil
  show ?case by (simp add: delivered_def)
next
  case (Cons h hs)
  obtain r s1 where one: "deliver_held drv h s = (r, s1)" by fastforce
  show ?case
  proof (cases r)
    case (Inl e)
    with one have "hs = hs \<and> fst (deliver_held drv h (delivered drv [] s)) = Inl e \<and>
        flush_from drv n k (h # hs) s = (Inl (flushFailed (k + length ([] :: held_enqueue list)) n e), delivered drv ([] @ [h]) s)"
      by (simp add: delivered_def)
    then show ?thesis by (metis append_Nil)
  next
    case (Inr i)
    from Cons.IH [of "Suc k" s1] show ?thesis
    proof (elim disjE exE conjE)
      assume "flush_from drv n (Suc k) hs s1 = (Inr (), delivered drv hs s1)"
      with one Inr show ?thesis by (simp add: delivered_def)
    next
      fix pre h' post e
      assume "hs = pre @ h' # post" "fst (deliver_held drv h' (delivered drv pre s1)) = Inl e"
        "flush_from drv n (Suc k) hs s1 = (Inl (flushFailed (Suc k + length pre) n e), delivered drv (pre @ [h']) s1)"
      with one Inr have "h # hs = (h # pre) @ h' # post \<and> fst (deliver_held drv h' (delivered drv (h # pre) s)) = Inl e \<and>
          flush_from drv n k (h # hs) s = (Inl (flushFailed (k + length (h # pre)) n e), delivered drv ((h # pre) @ [h']) s)"
        by (simp add: delivered_def)
      then show ?thesis by blast
    qed
  qed
qed

section \<open>A block to evaluate\<close>

definition mail_request :: "string \<Rightarrow> enqueue_request" where
  "mail_request text = \<lparr>rq_queue = ''post'', rq_envelope = mail_envelope\<lparr>env_data := JStr text\<rparr>,
     rq_delivery = DELIVERY_DEFAULTS, rq_jobId = None\<rparr>"

definition start_world :: "memory world" where
  "start_world = \<lparr>wd_state = memoryDriver_start, wd_scopes = (\<lambda>n. new_scope None), wd_fresh = 0\<rparr>"

definition two_enqueues :: "block_step list" where
  "two_enqueues = [Enqueue (HeldJob (mail_request ''a'')), Nested [Enqueue (HeldJob (mail_request ''b''))]]"

text \<open>A save that keeps, as a mark in the state, how many envelopes it was given.\<close>

definition count_save :: "envelope list \<Rightarrow> jval \<Rightarrow> (memory, unit) io" where
  "count_save envs tx s = (Inr (), s\<lparr>mem_marked := [''saved'' \<mapsto> length envs]\<rparr>)"

definition run_block :: "block_step list \<Rightarrow> jval option \<Rightarrow> memory world \<Rightarrow> (thrown + unit) \<times> memory world" where
  "run_block steps tx =
     runAtomicBlock memoryDriver count_save (run_steps_in memoryDriver count_save steps) tx None"

lemma two_enqueues_made:
  "enqueues_of two_enqueues = ([HeldJob (mail_request ''a''), HeldJob (mail_request ''b'')], None)"
  by (simp add: two_enqueues_def)

lemma outside [simp]: "\<not> inAtomicBlock None w"
  by (simp add: inAtomicBlock_def)

lemma start_world_state: "wd_state start_world = memoryDriver_start"
  by (simp add: start_world_def)

lemma start_world_fresh: "wd_fresh start_world = 0"
  by (simp add: start_world_def)

lemma enqueues_then_fails:
  "enqueues_of [Nested (two_enqueues @ [Fails (Thrown JNull)])] =
    ([HeldJob (mail_request ''a''), HeldJob (mail_request ''b'')], Some (Thrown JNull))"
  by (simp add: two_enqueues_def)

lemma mail_accepted: "fst (deliver_held memoryDriver (HeldJob (mail_request text)) s) \<noteq> Inl e"
  by (simp add: memoryDriver_def memory_enqueue_def mail_request_def rejected_option_def DELIVERY_DEFAULTS_def
      given_id_def Let_def)

section \<open>Blocks\<close>

lemma block_body_held:
  "run_steps_in drv save steps (Some (wd_fresh w)) (open_scope None w) =
    (outcome_of (snd (enqueues_of steps)),
     put_scope (wd_fresh w) ((new_scope None)\<lparr>as_held := fst (enqueues_of steps)\<rparr>) (open_scope None w))"
  by (subst run_steps_held) simp_all

lemma block_body_written:
  "run_steps_in drv save steps (Some (wd_fresh w)) (open_scope (Some tx) w) =
    (outcome_of (snd (written_by (enqueues_of steps))),
     put_scope (wd_fresh w) ((new_scope (Some tx))\<lparr>as_written := fst (written_by (enqueues_of steps))\<rparr>) (open_scope (Some tx) w))"
  by (subst run_steps_written) simp_all

text \<open>
  C4: a block that resolves hands the driver every enqueue made in it, in blocks
  opened inside it too, in the order they were made and each once, and none before it
  resolved; when the driver refuses one, the enqueues before it stand, the block fails
  naming how many were delivered, and the ones after it are never tried.
\<close>

theorem resolved_block_delivers_in_order:
  assumes "\<not> inAtomicBlock ctx w" and "enqueues_of steps = (hs, None)"
    and "runAtomicBlock drv save (run_steps_in drv save steps) None ctx w = (out, w')"
  shows "out = Inr () \<and> wd_state w' = delivered drv hs (wd_state w) \<or>
    (\<exists>pre h post e. hs = pre @ h # post \<and> fst (deliver_held drv h (delivered drv pre (wd_state w))) = Inl e \<and>
       out = Inl (flushFailed (length pre) (length hs) e) \<and> wd_state w' = delivered drv (pre @ [h]) (wd_state w))"
proof -
  obtain r s' where f: "flush drv hs (wd_state w) = (r, s')" by fastforce
  have "out = r" "wd_state w' = s'"
    using assms f
    by (auto simp: runAtomicBlock_def block_body_held outcome_of_def Let_def close_scope_def bind_io_def on_state_def
        ret_io_def split: sum.splits)
  with flush_from_cases [of drv "length hs" 0 hs "wd_state w"] f show ?thesis
    by (auto simp: flush_def)
qed

theorem resolved_block_delivers_in_order_witness:
  "fst (run_block two_enqueues None start_world) = Inr () \<and>
    enqueued mail_job (wd_state (snd (run_block two_enqueues None start_world))) = [JStr ''a'', JStr ''b'']"
proof -
  obtain out w' where run: "run_block two_enqueues None start_world = (out, w')" by fastforce
  let ?hs = "[HeldJob (mail_request ''a''), HeldJob (mail_request ''b'')]"
  have accepted: "h \<in> set ?hs \<Longrightarrow> fst (deliver_held memoryDriver h s) \<noteq> Inl e" for h s e
    using mail_accepted by auto
  from resolved_block_delivers_in_order [OF outside two_enqueues_made run [unfolded run_block_def]] accepted
  have "out = Inr ()" "wd_state w' = delivered memoryDriver ?hs (wd_state start_world)"
    by (metis in_set_conv_decomp)+
  moreover have "enqueued mail_job (delivered memoryDriver ?hs (wd_state start_world)) = [JStr ''a'', JStr ''b'']"
    by (simp add: delivered_def memoryDriver_def memory_enqueue_def mail_request_def rejected_option_def
        DELIVERY_DEFAULTS_def given_id_def Let_def start_world_def memoryDriver_start_def enqueued_def mail_job_def
        mail_envelope_def stored_envelope_def stored_value_def)
  ultimately show ?thesis using run by simp
qed

text \<open>
  C27: a block that throws, itself or in a block opened inside it, leaves nothing
  behind: no job reaches the driver and no row the outbox, with a transaction or
  without one, and the failure is the block's own.
\<close>

theorem thrown_block_leaves_nothing:
  assumes "\<not> inAtomicBlock ctx w" and "enqueues_of steps = (hs, Some e)"
    and "runAtomicBlock drv save (run_steps_in drv save steps) write ctx w = (out, w')"
  shows "wd_state w' = wd_state w \<and>
    (case write of None \<Rightarrow> out = Inl e | Some tx \<Rightarrow> out = Inl (the (snd (written_by (hs, Some e)))))"
proof (cases "write")
  case None
  with assms show ?thesis
    by (auto simp: runAtomicBlock_def block_body_held outcome_of_def Let_def close_scope_def)
next
  case (Some tx)
  moreover obtain envs r where "written_by (hs, Some e) = (envs, Some r)"
    using written_by_fails [of hs e] by (auto split: prod.splits option.splits)
  ultimately show ?thesis using assms
    by (auto simp: runAtomicBlock_def block_body_written outcome_of_def Let_def close_scope_def)
qed

theorem thrown_block_leaves_nothing_witness:
  "wd_state (snd (run_block [Nested (two_enqueues @ [Fails (Thrown JNull)])] None start_world)) = memoryDriver_start"
  using thrown_block_leaves_nothing [OF outside, of "[Nested (two_enqueues @ [Fails (Thrown JNull)])]" _ _
      memoryDriver count_save None start_world]
  by (metis (no_types, lifting) enqueues_then_fails prod.collapse run_block_def start_world_state)

text \<open>
  C28: a block under a transaction that resolves with every enqueue accepted enqueues
  nothing: it hands the envelopes of its jobs, in order and marked as the relay's, to
  one save under that transaction, and makes no call at all when it enqueued nothing.
\<close>

theorem written_block_saves_once:
  assumes "\<not> inAtomicBlock ctx w" and "written_by (enqueues_of steps) = (envs, None)"
    and "runAtomicBlock drv save (run_steps_in drv save steps) (Some tx) ctx w = (out, w')"
  shows "(out, wd_state w') = (if envs = [] then (Inr (), wd_state w) else save envs tx (wd_state w)) \<and>
    (\<forall>envelope \<in> set envs. env_origin envelope = Relay)"
proof -
  have "(out, wd_state w') = (if envs = [] then (Inr (), wd_state w) else save envs tx (wd_state w))"
    using assms
    by (auto simp: runAtomicBlock_def block_body_written outcome_of_def Let_def close_scope_def bind_io_def on_state_def
        ret_io_def split: sum.splits prod.splits if_splits)
  moreover have "\<forall>envelope \<in> set envs. env_origin envelope = Relay"
    using assms(2) written_by_origin [of "enqueues_of steps"] by simp
  ultimately show ?thesis by blast
qed

theorem written_block_saves_once_witness:
  "\<exists>w'. run_block two_enqueues (Some (JStr ''tx'')) start_world = (Inr (), w') \<and>
    mem_pending (wd_state w') = [] \<and> mem_marked (wd_state w') ''saved'' = Some 2"
proof -
  obtain out w' where run: "run_block two_enqueues (Some (JStr ''tx'')) start_world = (out, w')" by fastforce
  have "written_by (enqueues_of two_enqueues) =
      ([(mail_envelope\<lparr>env_data := JStr ''a''\<rparr>)\<lparr>env_origin := Relay\<rparr>,
        (mail_envelope\<lparr>env_data := JStr ''b''\<rparr>)\<lparr>env_origin := Relay\<rparr>], None)"
    by (simp add: two_enqueues_def mail_request_def envelopeForOutbox_def DELIVERY_DEFAULTS_def)
  from written_block_saves_once [OF outside this run [unfolded run_block_def]] run show ?thesis
    by (simp add: count_save_def start_world_def memoryDriver_start_def)
qed

text \<open>
  Once a block ended, however it ended, an enqueue that still carries its scope is
  refused, and changes nothing.
\<close>

theorem ended_block_takes_nothing:
  assumes "\<not> inAtomicBlock ctx w"
    and "runAtomicBlock drv save (run_steps_in drv save steps) write ctx w = (out, w')"
  shows "holdOrDeliver drv h (Some (wd_fresh w)) w' = (Inl (endedMessage (wd_scopes w' (wd_fresh w))), w')"
proof -
  let ?n = "wd_fresh w"
  obtain r w1 where body: "run_steps_in drv save steps (Some ?n) (open_scope write w) = (r, w1)" by fastforce
  have "wd_scopes w' ?n = wd_scopes (close_scope ?n w1) ?n"
    using assms body
    by (auto simp: runAtomicBlock_def Let_def bind_io_def on_state_def ret_io_def
        split: sum.splits prod.splits option.splits if_splits)
  then have "as_closed (wd_scopes w' ?n)" by (simp add: close_scope_def)
  then show ?thesis by (simp add: holdOrDeliver_def Let_def)
qed

theorem ended_block_takes_nothing_witness:
  "snd (holdOrDeliver memoryDriver (HeldJob (mail_request ''late'')) (Some 0)
      (snd (run_block two_enqueues None start_world))) = snd (run_block two_enqueues None start_world)"
  using ended_block_takes_nothing [OF outside, of memoryDriver count_save two_enqueues None start_world]
  by (metis prod.collapse run_block_def snd_conv start_world_fresh)

end
