(* ===== verification/Client.thy ===== *)
theory Client
  imports Runtime Atomic Relay
begin

text \<open>
  The client (\<open>src/src/Client.ts\<close>): what \<open>createJobs\<close> checks and every operation it
  gives back. An operation is given the atomic scope its caller runs in, where the
  code asks for it, and acts on a driver's state beside the store of scopes.
\<close>

section \<open>Configuration\<close>

record 's client_config = "'s jobs_config" +
  cf_outbox :: "'s outbox option"

definition unusedDeadQueue :: "string \<Rightarrow> string list \<Rightarrow> thrown" where
  "unusedDeadQueue stray used =
     new_error C_Error
       (''jubs: createJobs was given the dead queue '' @ quoted stray @
        '', which no registered definition uses'' @ dash @ ''the queues its definitions use are '' @
        join '', '' (map quoted used))"

definition assertEveryDeadQueueIsUsed :: "'s client_config \<Rightarrow> thrown + unit" where
  "assertEveryDeadQueueIsUsed config =
     (case cf_definitions config of
        None \<Rightarrow> Inr ()
      | Some definitions \<Rightarrow>
          (case truthy_find (\<lambda>q. q \<notin> jd_queue ` set definitions) (or_else (cf_deadQueues config) []) of
             None \<Rightarrow> Inr ()
           | Some stray \<Rightarrow> Inl (unusedDeadQueue stray (uniq (map jd_queue definitions)))))"

definition createJobs :: "(string \<Rightarrow> bool) \<Rightarrow> 's client_config \<Rightarrow> thrown + 's client_config" where
  "createJobs known_zone config =
     bindE (assertEveryDeadQueueIsUsed config) (\<lambda>_.
     bindE (case cf_timezone config of
              None \<Rightarrow> Inr ()
            | Some z \<Rightarrow> if z = [] then Inr () else assertTimezone known_zone z)
       (\<lambda>_. Inr config))"

section \<open>Enqueuing\<close>

definition heldOrNamed :: "'s job_driver \<Rightarrow> string \<Rightarrow> held_enqueue \<Rightarrow> ctx \<Rightarrow> ('s world, string option) io" where
  "heldOrNamed drv queue held ctx =
     bind_io (holdOrDeliver drv held ctx) (\<lambda>stored.
       case stored of None \<Rightarrow> ret_io None | Some i \<Rightarrow> ret_io (Some (composeJobId queue i)))"

definition client_enqueue ::
    "'s client_config \<Rightarrow> job_definition \<Rightarrow> jval \<Rightarrow> jval \<Rightarrow> ctx \<Rightarrow> ('s world, string option) io" where
  "client_enqueue config d data awaits ctx =
     (if slotsOf d \<noteq> []
      then bind_io (lift_io (composeFlow d data awaits)) (\<lambda>node.
             heldOrNamed (cf_driver config) (jd_queue d) (HeldFlow node (jd_name d)) ctx)
      else bind_io (lift_io (validatePayload d data)) (\<lambda>validated.
           bind_io (lift_io (resolveDelivery d validated)) (\<lambda>dl.
             heldOrNamed (cf_driver config) (jd_queue d)
               (HeldJob \<lparr>rq_queue = jd_queue d, rq_envelope = writeEnvelope d data Direct,
                         rq_delivery = dl, rq_jobId = None\<rparr>) ctx)))"

definition outbox_save :: "'s client_config \<Rightarrow> envelope list \<Rightarrow> jval \<Rightarrow> ('s, unit) io" where
  "outbox_save config envelopes tx =
     (case cf_outbox config of None \<Rightarrow> ret_io () | Some outbox \<Rightarrow> ob_save outbox envelopes tx)"

definition txWithoutOutbox :: "thrown" where
  "txWithoutOutbox =
     new_error C_Error
       (''jubs: jobs.atomic was given a tx, and this client has no outbox configured'' @ dash @
        ''a tx exists to write the envelopes inside your own database transaction, and '' @
        ''nothing here can accept one. Give createJobs({ outbox }) an adapter over your '' @
        ''table, or call jobs.atomic(fn) without the tx: the block still holds every enqueue '' @
        ''until it resolves, but it holds them in memory, so a process that dies mid-block '' @ ''loses them.'')"

definition txInsideBlock :: "thrown" where
  "txInsideBlock =
     new_error C_Error
       (''jubs: jobs.atomic was given a tx inside an atomic block that is already open, and '' @
        ''the two settle in different ways'' @ dash @
        ''the outer block delivers what it holds, while this one writes it to the outbox, and '' @
        ''the inner block would have to be the one that decides. This inner block never ran, '' @
        ''and the block around it stands. Move the transaction and its block outside, so the '' @
        ''block with the tx is the only one open.'')"

definition relayWithoutOutbox :: "thrown" where
  "relayWithoutOutbox =
     new_error C_Error
       (''jubs: jobs.startRelay() was called on a client with no outbox configured'' @ dash @
        ''the relay claims the envelopes an atomic block wrote inside your transaction, and '' @
        ''there is no table here to claim them from. Give createJobs({ outbox }) an adapter '' @
        ''over your table.'')"

definition client_atomic ::
    "'s client_config \<Rightarrow> (ctx \<Rightarrow> ('s world, 'a) io) \<Rightarrow> jval option \<Rightarrow> ctx \<Rightarrow> ('s world, 'a) io" where
  "client_atomic config run tx ctx w =
     (case tx of
        None \<Rightarrow> runAtomicBlock (cf_driver config) (outbox_save config) run None ctx w
      | Some t \<Rightarrow>
          (case cf_outbox config of
             None \<Rightarrow> (Inl txWithoutOutbox, w)
           | Some outbox \<Rightarrow>
               if inAtomicBlock ctx w
               then (Inl txInsideBlock, w)
               else runAtomicBlock (cf_driver config) (outbox_save config) run (Some t) ctx w))"

definition client_startRelay ::
    "'s client_config \<Rightarrow> jnum option \<Rightarrow> (left_behind_event \<Rightarrow> ('s, unit) io) option \<Rightarrow> thrown + 's relay_config" where
  "client_startRelay config limit hook =
     (case cf_outbox config of
        None \<Rightarrow> Inl relayWithoutOutbox
      | Some outbox \<Rightarrow>
          Inr \<lparr>rl_outbox = outbox, rl_driver = cf_driver config, rl_definitions = cf_definitions config,
               rl_limit = limit, rl_onLeftBehind = hook\<rparr>)"

section \<open>One job by its id\<close>

definition client_get :: "'s client_config \<Rightarrow> string \<Rightarrow> ('s, job_snapshot option) io" where
  "client_get config i =
     bind_io (lift_io (readLiveJobId i)) (\<lambda>live.
       case live of
         None \<Rightarrow> ret_io None
       | Some (queue, storedId) \<Rightarrow>
           bind_io (drv_get (cf_driver config) queue storedId) (\<lambda>found.
             case found of
               None \<Rightarrow> ret_io None
             | Some snap \<Rightarrow> ret_io (Some (snap\<lparr>js_id := composeJobId queue (js_id snap)\<rparr>))))"

definition client_retry :: "'s client_config \<Rightarrow> string \<Rightarrow> ('s, retry_result) io" where
  "client_retry config i =
     bind_io (lift_io (readLiveJobId i)) (\<lambda>live.
       case live of None \<Rightarrow> ret_io RetryUnknownJob
       | Some (queue, storedId) \<Rightarrow> drv_retry (cf_driver config) queue storedId)"

definition client_cancel :: "'s client_config \<Rightarrow> string \<Rightarrow> ('s, cancel_result) io" where
  "client_cancel config i =
     bind_io (lift_io (readLiveJobId i)) (\<lambda>live.
       case live of None \<Rightarrow> ret_io CancelUnknownJob
       | Some (queue, storedId) \<Rightarrow> drv_cancel (cf_driver config) queue storedId)"

section \<open>Queues and runtimes\<close>

definition client_pause :: "'s client_config \<Rightarrow> string \<Rightarrow> ('s, unit) io" where
  "client_pause config queue = drv_pause (cf_driver config) queue"

definition client_resume :: "'s client_config \<Rightarrow> string \<Rightarrow> ('s, unit) io" where
  "client_resume config queue = drv_resume (cf_driver config) queue"

text \<open>A runtime sees no scope of the block it was started in.\<close>

definition client_start ::
    "'s client_config \<Rightarrow> (consume_request \<Rightarrow> ('s, 'c) io) \<Rightarrow> ('c \<Rightarrow> ('s, unit) io) \<Rightarrow>
      's job_handler list \<Rightarrow> (string \<times> queue_tuning) list \<Rightarrow> ('s, 'c list) io" where
  "client_start config consume close handlers tuning =
     outsideAtomicBlock (\<lambda>ctx. startRuntime (jobs_config.truncate config) consume close handlers tuning)"

section \<open>Idempotency keys\<close>

datatype forget_result = Reached forget_outcome | NotGuarded

definition forgetKey :: "'s job_driver \<Rightarrow> job_definition \<Rightarrow> jval \<Rightarrow> ('s, forget_result) io" where
  "forgetKey drv d validated =
     (case idempotencyKeyFor d validated of
        None \<Rightarrow> ret_io NotGuarded
      | Some key \<Rightarrow>
          bind_io (ids_forget (drv_idempotency drv) key) (\<lambda>out. ret_io (Reached out)))"

definition client_forget :: "'s client_config \<Rightarrow> job_definition \<Rightarrow> jval \<Rightarrow> ('s, forget_result) io" where
  "client_forget config d data =
     bind_io (lift_io (validatePayload d data)) (\<lambda>validated. forgetKey (cf_driver config) d validated)"

section \<open>The dead queue\<close>

record dead_job = dead_entry +
  dj_id :: string

definition client_dead_list :: "'s client_config \<Rightarrow> string \<Rightarrow> ('s, dead_job list) io" where
  "client_dead_list config queue =
     bind_io (drv_dead_list (cf_driver config) queue) (\<lambda>buried.
       ret_io (map (\<lambda>(i, entry). dead_entry.extend entry \<lparr>dj_id = composeJobId (deadQueueName queue) i\<rparr>) buried))"

definition noDeadJob :: "string \<Rightarrow> thrown" where
  "noDeadJob i = new_error C_Error
       (''jubs: no dead job '' @ quoted i @ '' is kept'' @ dash @ ''it was replayed or discarded already'')"

definition flowChild :: "string \<Rightarrow> dead_entry \<Rightarrow> thrown" where
  "flowChild i entry =
     new_error C_Error
       (''jubs: the dead job '' @ quoted i @ '' is part of a flow, and replaying it would enqueue '' @
        quoted (env_name (de_envelope entry)) @ '' with no children at all'' @ dash @
        ''it would run over an empty result set and complete green. Put the flow back '' @
        ''together instead: jobs.retry(id) on each child that failed, which returns it to its '' @
        ''parent's dependencies, then jobs.retry('' @ quoted (de_jobId entry) @
        '') on the parent. The ids of the children that failed are named in this entry's '' @
        ''error. Both dead records stay where they are'' @ dash @ ''drop them with jobs.dead.discard(id).'')"

definition unknownName :: "string \<Rightarrow> dead_entry \<Rightarrow> thrown" where
  "unknownName i entry =
     new_error C_Error
       (''jubs: the dead job '' @ quoted i @ '' runs '' @ quoted (env_name (de_envelope entry)) @
        '', which this client does not know'' @ dash @
        ''register its definition in createJobs({ definitions }) to replay it'')"

definition waitsOnChildren :: "string \<Rightarrow> dead_entry \<Rightarrow> thrown" where
  "waitsOnChildren i entry =
     new_error C_Error
       (''jubs: the dead job '' @ quoted i @ '' runs '' @ quoted (env_name (de_envelope entry)) @
        '', which waits on children, and replaying it would enqueue that job alone, with no '' @
        ''children at all'' @ dash @
        ''the first delivery would find its slots short and bury it again with the reason '' @
        ''children_short. Enqueue the flow again with jobs.enqueue(definition, data, awaits), '' @
        ''which builds the whole flow. This dead record stays where it is'' @ dash @
        ''drop it with jobs.dead.discard(id).'')"

text \<open>What a replay is refused for once its record is read.\<close>

definition replayable :: "'s client_config \<Rightarrow> string \<Rightarrow> dead_entry \<Rightarrow> thrown + job_definition" where
  "replayable config i entry =
     (if env_origin (de_envelope entry) = Flow
      then Inl (flowChild i entry)
      else (case find (\<lambda>d. jd_name d = env_name (de_envelope entry)) (or_else (cf_definitions config) []) of
        None \<Rightarrow> Inl (unknownName i entry)
      | Some d \<Rightarrow>
          if slotsOf d \<noteq> []
          then Inl (waitsOnChildren i entry)
          else Inr d))"

definition heldKey :: "string \<Rightarrow> dead_entry \<Rightarrow> thrown" where
  "heldKey i entry = new_error C_Error
       (''jubs: the dead job '' @ quoted i @ '' runs '' @ quoted (env_name (de_envelope entry)) @
        '', whose idempotency key is held by a delivery running right now'' @ dash @
        ''the body that outlived this job's last attempt is still going, and it completes '' @
        ''that key with its own result when it returns. Replaying now would enqueue a job '' @
        ''that meets the held key and is rescheduled, and the delivery after that would hand '' @
        ''back the kept result without ever calling the handler: green, with nothing run. '' @
        ''This dead record stays where it is'' @ dash @ ''replay it again once that body has ended.'')"

definition replayInsideBlock :: "string \<Rightarrow> thrown" where
  "replayInsideBlock i =
     new_error C_Error
       (''jubs: jobs.dead.replay('' @ quoted i @
        '') was called inside an atomic block, and a replay is not one enqueue'' @ dash @
        ''it forgets the payload's idempotency key, enqueues the job and drops the dead '' @
        ''record, and those three never become one act. Holding only the last two would let a '' @
        ''block that then failed leave the key forgotten with nothing enqueued, and the '' @
        ''record listed for a second replay of the same job. Replay outside the block.'')"

definition client_replay :: "'s client_config \<Rightarrow> string \<Rightarrow> ctx \<Rightarrow> ('s world, string) io" where
  "client_replay config i ctx w =
     (if inAtomicBlock ctx w
      then (Inl (replayInsideBlock i), w)
      else on_state
        (bind_io (lift_io (readDeadJobId i)) (\<lambda>(queue, storedId).
         bind_io (drv_dead_read (cf_driver config) queue storedId) (\<lambda>found.
           case found of
             None \<Rightarrow> throw_io (noDeadJob i)
           | Some entry \<Rightarrow>
               bind_io (lift_io (replayable config i entry)) (\<lambda>d.
               bind_io (lift_io (migrateEnvelope d (de_envelope entry))) (\<lambda>migrated.
               bind_io (lift_io (validatePayload d migrated)) (\<lambda>validated.
               bind_io (forgetKey (cf_driver config) d validated) (\<lambda>out.
                 if out = Reached Running then throw_io (heldKey i entry)
                 else
                   bind_io (lift_io (resolveDeliveryWithoutUniqueness d validated)) (\<lambda>dl.
                   bind_io (drv_enqueue (cf_driver config)
                       \<lparr>rq_queue = jd_queue d, rq_envelope = de_envelope entry, rq_delivery = dl, rq_jobId = None\<rparr>)
                     (\<lambda>enqueued.
                       bind_io (drv_dead_remove (cf_driver config) queue storedId) (\<lambda>_.
                         ret_io (composeJobId (jd_queue d) enqueued)))))))))))
        w)"

definition client_discard :: "'s client_config \<Rightarrow> string \<Rightarrow> ('s, unit) io" where
  "client_discard config i =
     bind_io (lift_io (readDeadJobId i)) (\<lambda>(queue, storedId).
     bind_io (drv_dead_remove (cf_driver config) queue storedId) (\<lambda>dropped.
       if dropped then ret_io () else throw_io (noDeadJob i)))"

end
