(* ===== verification/ClientGuarantees.thy ===== *)
theory ClientGuarantees
  imports AtomicGuarantees Client
begin

text \<open>
  What the client guarantees over the memory driver: an id it gives back finds the job
  it enqueued, a dead job is replayed exactly once and never beside a body that still
  runs under its key, and no operation on a live job ever reaches a dead queue.
\<close>

section \<open>Ids\<close>

lemma client_enqueue_memory:
  assumes "cf_driver config = memoryDriver" and "slotsOf d = []"
    and "client_enqueue config d data awaits None w = (Inr (Some i), w')"
  shows "\<exists>rq j. rq_queue rq = jd_queue d \<and> rq_envelope rq = writeEnvelope d data Direct \<and> rq_jobId rq = None \<and>
    memory_enqueue rq (wd_state w) = (Inr j, wd_state w') \<and> i = composeJobId (jd_queue d) j"
proof -
  from assms obtain dl j where
    "memory_enqueue \<lparr>rq_queue = jd_queue d, rq_envelope = writeEnvelope d data Direct, rq_delivery = dl, rq_jobId = None\<rparr>
      (wd_state w) = (Inr j, wd_state w')" "i = composeJobId (jd_queue d) j"
    by (auto simp: client_enqueue_def heldOrNamed_def holdOrDeliver_def on_state_def bind_io_def lift_io_def ret_io_def
        throw_io_def memoryDriver_def split: sum.splits prod.splits)
  then show ?thesis
    by (intro exI [of _ "\<lparr>rq_queue = jd_queue d, rq_envelope = writeEnvelope d data Direct, rq_delivery = dl, rq_jobId = None\<rparr>"]
        exI [of _ j]) simp
qed

lemma memory_enqueue_new:
  assumes "memory_enqueue rq s = (Inr j, s')" and "rq_jobId rq = None"
  shows "j = show_nat (length (mem_recorded s) + 1) \<and>
    mem_recorded s' = mem_recorded s @ [mem_fresh s] \<and> mem_pending s' = mem_pending s @ [mem_fresh s] \<and>
    mem_jobs s' = (mem_jobs s)(mem_fresh s := mem_jobs s' (mem_fresh s)) \<and>
    mj_id (mem_jobs s' (mem_fresh s)) = j \<and> mj_queue (mem_jobs s' (mem_fresh s)) = rq_queue rq \<and>
    mj_envelope (mem_jobs s' (mem_fresh s)) = stored_envelope (rq_envelope rq) \<and>
    mj_state (mem_jobs s' (mem_fresh s)) = Waiting \<and> mem_buried s' = mem_buried s \<and>
    mem_leased s' = mem_leased s \<and> mem_kept s' = mem_kept s"
  using assms by (auto simp: memory_enqueue_def given_id_def Let_def split: option.splits)

text \<open>
  A job enqueued outside a block on a queue that ids can name is found under the id
  the enqueue gave back, waiting, with the payload it was enqueued with, when no job of
  that queue answered to that id before.
\<close>

theorem enqueued_job_is_found:
  assumes "cf_driver config = memoryDriver" and "slotsOf d = []" and "memory_inv (wd_state w)"
    and "CHR '':'' \<notin> set (jd_queue d)" and "jd_queue d \<noteq> []" and "liveQueueName (jd_queue d) = None"
    and "client_enqueue config d data awaits None w = (Inr (Some i), w')"
    and "\<forall>r \<in> set (mem_recorded (wd_state w)).
      composeJobId (mj_queue (mem_jobs (wd_state w) r)) (mj_id (mem_jobs (wd_state w) r)) \<noteq> i"
  shows "\<exists>snap. client_get config i (wd_state w') = (Inr (Some snap), wd_state w') \<and>
    js_id snap = i \<and> js_queue snap = jd_queue d \<and> js_name snap = jd_name d \<and> js_state snap = Waiting \<and>
    js_envelope snap = Some (stored_envelope (writeEnvelope d data Direct))"
proof -
  let ?s = "wd_state w" and ?s' = "wd_state w'"
  from client_enqueue_memory [OF assms(1,2,7)] obtain rq j where
    rq: "rq_queue rq = jd_queue d" "rq_envelope rq = writeEnvelope d data Direct" "rq_jobId rq = None"
      "memory_enqueue rq ?s = (Inr j, ?s')" and i: "i = composeJobId (jd_queue d) j" by blast
  note new = memory_enqueue_new [OF rq(4,3)]
  have old: "r < mem_fresh ?s" if "r \<in> set (mem_recorded ?s)" for r
    using assms(3) that by (auto simp: memory_inv_def line_inv_def)
  have "find (\<lambda>r. mj_queue (mem_jobs ?s' r) = jd_queue d \<and> mj_id (mem_jobs ?s' r) = j) (mem_recorded ?s) = None"
    using old assms(8) new unfolding find_None_iff i by (metis fun_upd_other less_irrefl)
  then have "jobAt ?s' (jd_queue d) j = Some (mem_fresh ?s)"
    using new rq(1) by (simp add: jobAt_def find_append)
  moreover have "readLiveJobId i = Inr (Some (jd_queue d, j))"
    using assms(4-6) i new show_nat_neq_Nil by (auto simp: readLiveJobId_Some_iff)
  moreover have "drv_get (cf_driver config) = memory_get" by (simp add: assms(1) memoryDriver_def)
  moreover have "env_name (writeEnvelope d data Direct) = jd_name d" by simp
  ultimately show ?thesis
    using new rq(1,2) by (simp add: client_get_def memory_get_def Let_def bind_io_def i)
qed

definition memory_client :: "memory client_config" where
  "memory_client = \<lparr>cf_driver = memoryDriver, cf_definitions = Some [mail_job], cf_deadQueues = Some [''post''],
     cf_timezone = None,
     cf_hooks = \<lparr>hk_onStart = None, hk_onSuccess = None, hk_onAttemptFailed = None, hk_onDead = None\<rparr>,
     cf_outbox = None\<rparr>"

theorem enqueued_job_is_found_witness:
  "\<exists>i w' snap. client_enqueue memory_client mail_job (JStr ''hi'') JUndefined None start_world = (Inr (Some i), w') \<and>
    client_get memory_client i (wd_state w') = (Inr (Some snap), wd_state w') \<and> js_id snap = i \<and> js_state snap = Waiting"
proof -
  have queue: "jd_queue mail_job = ''post''" by (simp add: mail_job_def)
  have driver: "cf_driver memory_client = memoryDriver" by (simp add: memory_client_def)
  have accepted: "validatePayload mail_job (JStr ''hi'') = Inr (JStr ''hi'')"
    "resolveDelivery mail_job (JStr ''hi'') = Inr DELIVERY_DEFAULTS"
    by (simp_all add: mail_job_def validatePayload_def any_payload_def resolveDelivery_def resolve_def
        delivery_defaults_for_def)
  obtain i w' where sent: "client_enqueue memory_client mail_job (JStr ''hi'') JUndefined None start_world = (Inr (Some i), w')"
    by (simp add: client_enqueue_def mail_slots accepted heldOrNamed_def holdOrDeliver_def on_state_def driver
        bind_io_def memoryDriver_def memory_enqueue_def rejected_option_def DELIVERY_DEFAULTS_def given_id_def Let_def)
  have "memory_inv (wd_state start_world)" "\<forall>r \<in> set (mem_recorded (wd_state start_world)).
      composeJobId (mj_queue (mem_jobs (wd_state start_world) r)) (mj_id (mem_jobs (wd_state start_world) r)) \<noteq> i"
    using memory_start_inv by (simp_all add: start_world_def memoryDriver_start_def)
  moreover have "liveQueueName ''post'' = None" by code_simp
  ultimately obtain snap where "client_get memory_client i (wd_state w') = (Inr (Some snap), wd_state w')"
    "js_id snap = i" "js_state snap = Waiting"
    using enqueued_job_is_found [OF driver mail_slots _ _ _ _ sent] by (auto simp: queue)
  with sent show ?thesis by blast
qed

text \<open>
  The id of a dead job names no live one: reading, retrying or cancelling it
  answers that no such job is known, and no driver is asked anything.
\<close>

theorem dead_id_is_no_live_job:
  assumes "readDeadJobId i = Inr (queue, storedId)"
  shows "client_get config i s = (Inr None, s) \<and> client_retry config i s = (Inr RetryUnknownJob, s) \<and>
    client_cancel config i s = (Inr CancelUnknownJob, s)"
proof -
  have "readLiveJobId i = Inr None" using assms by (auto simp: readLiveJobId_None_iff)
  then show ?thesis by (simp add: client_get_def client_retry_def client_cancel_def bind_io_def)
qed

theorem dead_id_is_no_live_job_witness:
  "client_cancel memory_client ''post.dead:1'' memoryDriver_start = (Inr CancelUnknownJob, memoryDriver_start)"
proof -
  have "readDeadJobId ''post.dead:1'' = Inr (''post'', ''1'')" by code_simp
  from dead_id_is_no_live_job [OF this, of memory_client memoryDriver_start] show ?thesis by simp
qed

section \<open>Replays\<close>

lemma records_frame: "mem_buried s' = mem_buried s \<Longrightarrow> records s' = records s \<and> dead_inv s' = dead_inv s"
  by (simp add: fun_eq_iff records_def dead_inv_def)

lemma memory_dead_remove_frame:
  "memory_dead_remove q i s = (r, s') \<Longrightarrow>
    mem_recorded s' = mem_recorded s \<and> mem_pending s' = mem_pending s \<and> mem_jobs s' = mem_jobs s"
  by (auto simp: memory_dead_remove_def split: option.splits)

lemma forgetKey_memory:
  assumes "forgetKey memoryDriver d v s = (out, s1)"
  shows "mem_buried s1 = mem_buried s \<and> mem_recorded s1 = mem_recorded s \<and> mem_pending s1 = mem_pending s \<and>
    mem_jobs s1 = mem_jobs s \<and> mem_fresh s1 = mem_fresh s \<and> mem_leased s1 = mem_leased s \<and>
    (out = Inr (Reached Running) \<longrightarrow> s1 = s) \<and>
    (\<forall>key. idempotencyKeyFor d v = Some key \<longrightarrow> out \<noteq> Inr (Reached Running) \<longrightarrow>
       mem_leased s key = None \<and> mem_kept s1 key = None)"
  using assms
  by (auto simp: forgetKey_def bind_io_def memoryDriver_def memory_store_defs split: option.splits if_splits)

text \<open>What a replay does once its record was found: the rest of \<open>client_replay\<close>.\<close>

definition replay_request :: "job_definition \<Rightarrow> dead_entry \<Rightarrow> delivery \<Rightarrow> enqueue_request" where
  "replay_request d entry dl =
     \<lparr>rq_queue = jd_queue d, rq_envelope = de_envelope entry, rq_delivery = dl, rq_jobId = None\<rparr>"

lemma replayed:
  assumes "cf_driver config = memoryDriver" and "readDeadJobId i = Inr (queue, sid)"
    and "client_replay config i None w = (Inr j, w')"
  shows "\<exists>entry d v out s1 dl n s2 b.
    map_of (records (wd_state w) queue) sid = Some entry \<and> replayable config i entry = Inr d \<and>
    forgetKey memoryDriver d v (wd_state w) = (Inr out, s1) \<and> out \<noteq> Reached Running \<and>
    memory_enqueue (replay_request d entry dl) s1 = (Inr n, s2) \<and>
    memory_dead_remove queue sid s2 = (Inr b, wd_state w') \<and> j = composeJobId (jd_queue d) n"
proof -
  have drv: "drv_dead_read (cf_driver config) = memory_dead_read" "drv_enqueue (cf_driver config) = memory_enqueue"
    "drv_dead_remove (cf_driver config) = memory_dead_remove"
    by (simp_all add: assms(1) memoryDriver_def)
  from assms(2,3) obtain entry d m v out s1 dl n s2 b s' where
    "map_of (records (wd_state w) queue) sid = Some entry" "replayable config i entry = Inr d"
    "migrateEnvelope d (de_envelope entry) = Inr m" "validatePayload d m = Inr v"
    "forgetKey (cf_driver config) d v (wd_state w) = (Inr out, s1)" "out \<noteq> Reached Running"
    "memory_enqueue (replay_request d entry dl) s1 = (Inr n, s2)"
    "memory_dead_remove queue sid s2 = (Inr b, s')" "w' = w\<lparr>wd_state := s'\<rparr>" "j = composeJobId (jd_queue d) n"
    by (auto simp: client_replay_def drv on_state_def bind_io_eq_Inr lift_io_eq memory_dead_reads replay_request_def
        throw_io_def simp del: bind_lift_io split: prod.splits option.splits if_splits)
  then show ?thesis unfolding assms(1) by fastforce
qed

lemma replay_refused:
  assumes "cf_driver config = memoryDriver" and "readDeadJobId i = Inr (queue, sid)"
    and "client_replay config i None w = (Inl e, w')"
  shows "records (wd_state w') = records (wd_state w) \<and> mem_recorded (wd_state w') = mem_recorded (wd_state w) \<and>
    mem_pending (wd_state w') = mem_pending (wd_state w) \<and> mem_jobs (wd_state w') = mem_jobs (wd_state w)"
proof -
  have drv: "drv_dead_read (cf_driver config) = memory_dead_read" "drv_enqueue (cf_driver config) = memory_enqueue"
    "drv_dead_remove (cf_driver config) = memory_dead_remove"
    by (simp_all add: assms(1) memoryDriver_def)
  have enqueue: "memory_enqueue rq s = (Inl x, s') \<Longrightarrow> s' = s" for rq s x s'
    by (auto simp: memory_enqueue_def Let_def split: option.splits)
  have remove: "memory_dead_remove q k s \<noteq> (Inl x, s')" for q k s x s'
    by (auto simp: memory_dead_remove_def split: option.splits)
  from assms(2,3) consider "wd_state w' = wd_state w"
    | d v out where "forgetKey (cf_driver config) d v (wd_state w) = (out, wd_state w')"
    by (auto simp: client_replay_def drv on_state_def bind_io_eq_Inl bind_io_eq_Inr lift_io_eq memory_dead_reads
        throw_io_def remove simp del: bind_lift_io split: prod.splits option.splits if_splits dest!: enqueue)
  then show ?thesis
  proof cases
    case 2
    then show ?thesis using forgetKey_memory records_frame unfolding assms(1) by metis
  qed simp
qed

text \<open>
  C5: over the memory driver, a replay moves a dead job and never copies it: when it
  answers, one job more is recorded and pending, carrying the envelope of the record, on
  the queue of its definition and under the id it answered, every other job is as it was,
  and that record alone is gone from its dead queue; when it is refused, every record and
  every job is as it was. No operation of that driver fails between the two halves.
\<close>

theorem replay_moves_the_record:
  assumes "cf_driver config = memoryDriver" and "dead_inv (wd_state w)" and "readDeadJobId i = Inr (queue, sid)"
    and "client_replay config i None w = (out, w')"
  shows "case out of
      Inr j \<Rightarrow> \<exists>entry d job. map_of (records (wd_state w) queue) sid = Some entry \<and> replayable config i entry = Inr d \<and>
        mem_recorded (wd_state w') = mem_recorded (wd_state w) @ [mem_fresh (wd_state w)] \<and>
        mem_pending (wd_state w') = mem_pending (wd_state w) @ [mem_fresh (wd_state w)] \<and>
        mem_jobs (wd_state w') = (mem_jobs (wd_state w))(mem_fresh (wd_state w) := job) \<and> j = composeJobId (jd_queue d) (mj_id job) \<and>
        mj_queue job = jd_queue d \<and> mj_envelope job = stored_envelope (de_envelope entry) \<and>
        records (wd_state w') =
          (records (wd_state w))(queue := filter (\<lambda>e. fst e \<noteq> sid) (records (wd_state w) queue))
    | Inl e \<Rightarrow> records (wd_state w') = records (wd_state w) \<and> mem_recorded (wd_state w') = mem_recorded (wd_state w) \<and>
        mem_pending (wd_state w') = mem_pending (wd_state w) \<and> mem_jobs (wd_state w') = mem_jobs (wd_state w)"
proof (cases out)
  case (Inl e)
  with replay_refused [OF assms(1,3)] assms(4) show ?thesis by simp
next
  case (Inr j)
  let ?s = "wd_state w" and ?s' = "wd_state w'"
  from assms(4) Inr have "client_replay config i None w = (Inr j, w')" by simp
  from replayed [OF assms(1,3) this] obtain entry d v out s1 dl n s2 b where
    r: "map_of (records ?s queue) sid = Some entry" "replayable config i entry = Inr d"
      "forgetKey memoryDriver d v ?s = (Inr out, s1)"
      "memory_enqueue (replay_request d entry dl) s1 = (Inr n, s2)"
      "memory_dead_remove queue sid s2 = (Inr b, ?s')" "j = composeJobId (jd_queue d) n"
    by blast
  note forgot = forgetKey_memory [OF r(3)]
  have "rq_jobId (replay_request d entry dl) = None" by (simp add: replay_request_def)
  note new = memory_enqueue_new [OF r(4) this]
  have buried: "records s2 = records ?s" "dead_inv s2"
    using forgot new assms(2) records_frame [of s2 ?s] by auto
  from memory_dead_remove_law [OF buried(2), of queue sid] r(5) buried(1)
  have gone: "records ?s' = (records ?s)(queue := filter (\<lambda>e. fst e \<noteq> sid) (records ?s queue))" by auto
  have same: "mem_recorded ?s' = mem_recorded s2" "mem_pending ?s' = mem_pending s2" "mem_jobs ?s' = mem_jobs s2"
    using memory_dead_remove_frame [OF r(5)] by simp_all
  let ?job = "mem_jobs s2 (mem_fresh ?s)"
  have jobs: "mem_jobs ?s' = (mem_jobs ?s)(mem_fresh ?s := ?job)"
    using new forgot same by metis
  have "mem_recorded ?s' = mem_recorded ?s @ [mem_fresh ?s]" "mem_pending ?s' = mem_pending ?s @ [mem_fresh ?s]"
    "j = composeJobId (jd_queue d) (mj_id ?job)" "mj_queue ?job = jd_queue d"
    "mj_envelope ?job = stored_envelope (de_envelope entry)"
    using r(6) new forgot same by (simp_all add: replay_request_def)
  with Inr r(1,2) jobs gone show ?thesis by (simp only: sum.case) blast
qed

definition buried_mail :: dead_entry where
  "buried_mail = \<lparr>de_jobId = ''post:7'', de_envelope = mail_envelope,
     de_error = serializeError (new_error C_Error ''boom''), de_burial = BuryFor AttemptsExhausted\<rparr>"

definition dead_world :: "memory world" where
  "dead_world = start_world\<lparr>wd_state := memoryDriver_start\<lparr>mem_buried :=
     [''post'' \<mapsto> \<lparr>mq_entries = [(''1'', buried_mail)], mq_deaths = 1\<rparr>]\<rparr>\<rparr>"

lemma dead_world_facts:
  "records (wd_state dead_world) ''post'' = [(''1'', buried_mail)]" "dead_inv (wd_state dead_world)"
  "mem_leased (wd_state dead_world) = Map.empty" "mem_kept (wd_state dead_world) = Map.empty"
  "mem_pending (wd_state dead_world) = []" "readDeadJobId ''post.dead:1'' = Inr (''post'', ''1'')"
  "mem_buried (wd_state dead_world) ''post'' = Some \<lparr>mq_entries = [(''1'', buried_mail)], mq_deaths = 1\<rparr>"
proof -
  show "readDeadJobId ''post.dead:1'' = Inr (''post'', ''1'')" by code_simp
  have "show_nat (Suc 0) = ''1''" by code_simp
  then show "dead_inv (wd_state dead_world)" by (simp add: dead_world_def dead_inv_def)
qed (simp_all add: dead_world_def records_def memoryDriver_start_def)

lemma mail_replayable: "replayable memory_client i buried_mail = Inr mail_job"
  by (simp add: replayable_def buried_mail_def mail_envelope_def memory_client_def mail_slots) (simp add: mail_job_def)

lemma mail_replay_payload:
  "migrateEnvelope mail_job (de_envelope buried_mail) = Inr (JStr ''hi'')"
  "validatePayload mail_job (JStr ''hi'') = Inr (JStr ''hi'')"
  "resolveDeliveryWithoutUniqueness mail_job (JStr ''hi'') = Inr DELIVERY_DEFAULTS"
  "idempotencyKeyFor mail_job (JStr ''hi'') = Some ''mail:k''"
  using migrateEnvelope_current [of mail_envelope mail_job]
  by (simp_all add: buried_mail_def mail_envelope_def mail_job_def payloadVersion_def DEFAULT_PAYLOAD_VERSION_def
      validatePayload_def any_payload_def resolveDeliveryWithoutUniqueness_def resolve_def delivery_defaults_for_def
      idempotencyKeyFor_def)

theorem replay_moves_the_record_witness:
  "\<exists>j w'. client_replay memory_client ''post.dead:1'' None dead_world = (Inr j, w') \<and>
    records (wd_state w') ''post'' = [] \<and> length (mem_pending (wd_state w')) = 1"
proof -
  have driver: "cf_driver memory_client = memoryDriver" by (simp add: memory_client_def)
  have drv: "drv_dead_read memoryDriver = memory_dead_read" "drv_enqueue memoryDriver = memory_enqueue"
    "drv_dead_remove memoryDriver = memory_dead_remove" "drv_idempotency memoryDriver = memory_idempotency"
    by (simp_all add: memoryDriver_def)
  obtain j w' where ran: "client_replay memory_client ''post.dead:1'' None dead_world = (Inr j, w')"
    by (simp add: client_replay_def dead_world_facts driver drv on_state_def memory_dead_reads mail_replayable
        mail_replay_payload forgetKey_def memory_store_defs bind_io_def memory_enqueue_def rejected_option_def
        DELIVERY_DEFAULTS_def given_id_def Let_def memory_dead_remove_def)
  from replay_moves_the_record [OF driver dead_world_facts(2,6) ran] ran show ?thesis
    by (auto simp: dead_world_facts)
qed

text \<open>
  A dead job whose key a delivery still holds is not replayed: nothing is forgotten,
  enqueued or removed, and the refusal names the body that still runs.
\<close>

theorem replay_waits_for_a_running_body:
  assumes "cf_driver config = memoryDriver" and "readDeadJobId i = Inr (queue, sid)"
    and "map_of (records (wd_state w) queue) sid = Some entry" and "replayable config i entry = Inr d"
    and "migrateEnvelope d (de_envelope entry) = Inr m" and "validatePayload d m = Inr v"
    and "idempotencyKeyFor d v = Some key" and "mem_leased (wd_state w) key = Some t"
  shows "client_replay config i None w = (Inl (heldKey i entry), w)"
proof -
  have drv: "drv_dead_read (cf_driver config) = memory_dead_read" "drv_idempotency (cf_driver config) = memory_idempotency"
    by (simp_all add: assms(1) memoryDriver_def)
  show ?thesis
    using assms(2-8)
    by (simp add: client_replay_def drv on_state_def memory_dead_reads forgetKey_def memory_store_defs bind_io_def)
qed

theorem replay_waits_for_a_running_body_witness:
  "\<exists>w. mem_leased (wd_state w) ''mail:k'' = Some ''u'' \<and>
    client_replay memory_client ''post.dead:1'' None w = (Inl (heldKey ''post.dead:1'' buried_mail), w)"
proof -
  let ?w = "dead_world\<lparr>wd_state := (wd_state dead_world)\<lparr>mem_leased := [''mail:k'' \<mapsto> ''u'']\<rparr>\<rparr>"
  have "records (wd_state ?w) ''post'' = [(''1'', buried_mail)]"
    using dead_world_facts(1) by (simp add: records_def)
  moreover have "cf_driver memory_client = memoryDriver" by (simp add: memory_client_def)
  ultimately have "client_replay memory_client ''post.dead:1'' None ?w = (Inl (heldKey ''post.dead:1'' buried_mail), ?w)"
    using mail_replay_payload
    by (intro replay_waits_for_a_running_body [OF _ dead_world_facts(6) _ mail_replayable, where t = "''u''"]) simp_all
  moreover have "mem_leased (wd_state ?w) ''mail:k'' = Some ''u''" by simp
  ultimately show ?thesis by blast
qed

end
