(* ===== verification/EndToEnd.thy ===== *)
theory EndToEnd
  imports ClientGuarantees LifecycleGuarantees
begin

text \<open>
  A job from the client that enqueues it to the handler that runs it, through the
  memory driver: the client (\<open>Client\<close>) stores it, the next run of the driver
  (\<open>MemoryDriver\<close>) hands it to the consumer of its queue, and the runtime (\<open>Runtime\<close>)
  reads it back, validates it and gives it to the handler of its definition.
\<close>

section \<open>What is stored is what is delivered\<close>

lemma memory_enqueue_frame:
  "memory_enqueue rq s = (r, s') \<Longrightarrow> mem_paused s' = mem_paused s \<and> mem_consumers s' = mem_consumers s"
  by (auto simp: memory_enqueue_def Let_def split: option.splits)

lemma memory_enqueue_unfailed:
  "memory_enqueue rq s = (Inr j, s') \<Longrightarrow> rq_jobId rq = None \<Longrightarrow>
    mj_failure (mem_jobs s' (mem_fresh s)) = None \<and> mj_attempts (mem_jobs s' (mem_fresh s)) = 0"
  by (auto simp: memory_enqueue_def given_id_def Let_def split: option.splits)

text \<open>A job enqueued where nothing else can run is the one the next run begins.\<close>

lemma enqueued_runs_next:
  assumes "memory_enqueue rq s = (Inr j, s')" and "rq_jobId rq = None" and "line_inv s"
    and "runnable s = None" and "rq_queue rq \<notin> mem_paused s" and "mem_consumers s (rq_queue rq) = Some run"
  shows "\<exists>delivery s1. begin_run s' = Inr (mem_fresh s, run, delivery, s1) \<and>
    rd_id delivery = j \<and> jdv_attempt delivery = 1 \<and>
    jdv_envelope delivery = json (envelope_object (stored_envelope (rq_envelope rq))) \<and>
    mem_recorded s1 = mem_recorded s @ [mem_fresh s] \<and>
    mem_jobs s1 = (mem_jobs s')(mem_fresh s := (mem_jobs s' (mem_fresh s))\<lparr>mj_state := Active,
      mj_attemptsStarted := mj_attemptsStarted (mem_jobs s' (mem_fresh s)) + 1\<rparr>)"
proof -
  note new = memory_enqueue_new [OF assms(1,2)] and frame = memory_enqueue_frame [OF assms(1)]
    and unfailed = memory_enqueue_unfailed [OF assms(1,2)]
  have "r < mem_fresh s" if "r \<in> set (mem_pending s)" for r
    using assms(3) that by (auto simp: line_inv_def)
  then have "find (\<lambda>r. mj_queue (mem_jobs s' r) \<notin> mem_paused s) (mem_pending s) = None"
    using assms(4) new unfolding runnable_def find_None_iff by (metis fun_upd_other less_irrefl)
  then have "runnable s' = Some (mem_fresh s)"
    using new frame assms(5) by (simp add: runnable_def find_append)
  then show ?thesis
    using new frame unfailed assms(6) by (simp add: begin_run_def Let_def)
qed

section \<open>One delivery of a plain definition\<close>

text \<open>
  A delivery of a definition that waits on nothing and guards nothing, without hooks, is
  its envelope read back, its payload validated, and its body.
\<close>

lemma plain_delivery:
  assumes "cf_hooks config = no_hooks" and "slotsOf d = []" and "jd_idempotencyKey d = None"
    and "is_finite (payloadVersion d)" and "jd_name d \<noteq> []"
    and "map_of byName (jd_name d) = Some h" and "jh_definition h = d"
    and "jdv_envelope delivery = json (envelope_object (stored_envelope (writeEnvelope d data Direct)))"
    and "validatePayload d (stored_value data) = Inr v"
    and "run_body d (jh_body h v \<lparr>cx_id = composeJobId queue (rd_id delivery), cx_attempt = jdv_attempt delivery,
           cx_maxAttempts = jdv_maxAttempts delivery, cx_origin = Direct, cx_children = []\<rparr>) (\<lambda>s. s) s = Some (out, rest, s')"
  shows "\<exists>env event. runOn config uuid byName queue delivery s = Some (out, rest,
    case out of Inr r \<Rightarrow> s' | Inl e \<Rightarrow> if unreported e then s' else report config env event delivery e s')"
proof -
  let ?env = "stored_envelope (writeEnvelope d data Direct)"
  let ?event = "event_of queue ?env delivery"
  have "stored_envelope ?env = ?env" by (simp add: stored_envelope_def)
  with readEnvelope_stored [of ?env] assms(4,5,8) have read: "envelopeOf delivery = Inr ?env"
    by (simp add: envelopeOf_def)
  have version: "num_le (payloadVersion d) (payloadVersion d)" "\<not> num_lt (payloadVersion d) (payloadVersion d)"
    using assms(4) by (cases "payloadVersion d"; simp)+
  then have "migrateEnvelope d ?env = Inr (stored_value data)" "assertVersionIsKnown d ?env = Inr ()"
    using migrateEnvelope_current [of ?env d] by (simp_all add: assertVersionIsKnown_def)
  then have "dispatch config uuid byName ?env ?event delivery s = Some (out, rest, s')"
    using assms(1-3,6,7,9,10)
    by (cases out)
      (simp_all add: dispatch_def prepare_def childrenFor_def run_prepared_def idempotencyKeyFor_def notify_def no_hooks_def
        bind_io_def catch_io_def event_of_def)
  with read show ?thesis
    by (intro exI [of _ ?env] exI [of _ ?event]) (auto simp: runOn_def Let_def split: sum.split)
qed

lemma report_keeps_jobs:
  assumes "cf_hooks config = no_hooks" and "cf_driver config = memoryDriver"
  shows "mem_jobs (report config env event delivery e s) = mem_jobs s"
    and "mem_recorded (report config env event delivery e s) = mem_recorded s"
  using assms
  by (auto simp: report_def notify_def no_hooks_def memoryDriver_def memory_bury_def deadQueueFor_def Let_def
      split: option.splits)

section \<open>From the client to the handler\<close>

text \<open>The table of consumers holds the deliveries of a runtime for a queue.\<close>

definition consumes_with ::
    "(nat \<Rightarrow> job_delivery \<Rightarrow> (memory, jval) io) \<Rightarrow> nat \<Rightarrow> (job_delivery \<Rightarrow> memory \<Rightarrow> memory settled) \<Rightarrow> bool" where
  "consumes_with runs run through \<longleftrightarrow>
     (\<forall>delivery s out rest s'. through delivery s = Some (out, rest, s') \<longrightarrow> runs run delivery s = (out, s'))"

text \<open>What the job of a run reads as once the run settled, for one no other answers to.\<close>

lemma settled_snapshot:
  assumes "mem_recorded s = old @ [n]" and "mj_id (mem_jobs s n) = j" and "mj_queue (mem_jobs s n) = q"
    and "\<forall>r \<in> set old. \<not> (mj_queue (mem_jobs s r) = q \<and> mj_id (mem_jobs s r) = j)" and "n \<notin> set old"
    and "settle_run n out s = (result, s')" and "\<And>e. out = Inl e \<Longrightarrow> \<not> instance_of e C_LeaseHeldError"
    and "mj_attempts (mem_jobs s n) = 0" and "mj_failure (mem_jobs s n) = None"
  shows "result = (case out of Inr r \<Rightarrow> Inr () | Inl e \<Rightarrow> Inl e) \<and>
    (\<exists>snap. memory_get q j s' = (Inr (Some snap), s') \<and> js_id snap = j \<and> js_attempts snap = 1 \<and>
      js_state snap = (case out of Inr r \<Rightarrow> Completed | Inl e \<Rightarrow> Failed) \<and>
      js_failure snap = (case out of Inr r \<Rightarrow> None | Inl e \<Rightarrow> Some (message_of e)))"
proof -
  have find_old: "find (\<lambda>r. mj_queue (mem_jobs s' r) = q \<and> mj_id (mem_jobs s' r) = j) old = None"
    using assms(4-7) unfolding find_None_iff
    by (cases out) (auto simp: settle_run_def split: if_splits)
  have "jobAt s' q j = Some n"
    using assms(1-3,6,7) find_old
    by (cases out) (auto simp: settle_run_def jobAt_def find_append split: if_splits)
  with assms(2,3,6-9) show ?thesis
    by (cases out) (auto simp: settle_run_def memory_get_def Let_def split: if_splits)
qed

text \<open>
  C8: over the memory driver without hooks, a job that waits on nothing and declares no
  idempotency key, enqueued through the client where nothing else can run and no recorded
  job answers to its id, on a queue that is not paused and has a consumer, is run next by
  that consumer, as long as its body leaves the recorded jobs alone and does not fail on a
  held key: the handler of its definition is given the payload as its
  schema reads it back from storage, the id the client was given, the first attempt and
  no children; and what the handler returns or throws is what the client then reads of
  the job: completed, or failed with the message.
\<close>

theorem enqueued_job_runs_its_handler:
  assumes client: "cf_driver config = memoryDriver" "cf_hooks config = no_hooks"
    and plain: "slotsOf d = []" "jd_idempotencyKey d = None" "is_finite (payloadVersion d)" "jd_name d \<noteq> []"
    and named: "CHR '':'' \<notin> set (jd_queue d)" "jd_queue d \<noteq> []" "liveQueueName (jd_queue d) = None"
    and idle: "memory_inv (wd_state w)" "runnable (wd_state w) = None" "jd_queue d \<notin> mem_paused (wd_state w)"
      "\<forall>r \<in> set (mem_recorded (wd_state w)).
         composeJobId (mj_queue (mem_jobs (wd_state w) r)) (mj_id (mem_jobs (wd_state w) r)) \<noteq> i"
    and consumer: "mem_consumers (wd_state w) (jd_queue d) = Some run"
      "consumes_with runs run (runOn (jobs_config.truncate config) uuid byName (jd_queue d))"
    and handled: "map_of byName (jd_name d) = Some h" "jh_definition h = d"
    and sent: "client_enqueue config d data awaits None w = (Inr (Some i), w')"
    and read: "validatePayload d (stored_value data) = Inr v"
    and body: "\<And>cx s. cx_id cx = i \<Longrightarrow> cx_attempt cx = 1 \<Longrightarrow> cx_origin cx = Direct \<Longrightarrow> cx_children cx = [] \<Longrightarrow>
      run_body d (jh_body h v cx) (\<lambda>s. s) s = Some (out, rest, f s)"
    and spares: "\<And>s. mem_jobs (f s) = mem_jobs s \<and> mem_recorded (f s) = mem_recorded s"
      "\<And>e. out = Inl e \<Longrightarrow> \<not> instance_of e C_LeaseHeldError"
  shows "\<exists>s' snap. runNext runs (wd_state w') = ((case out of Inr r \<Rightarrow> Inr () | Inl e \<Rightarrow> Inl e), s') \<and>
    client_get config i s' = (Inr (Some snap), s') \<and> js_id snap = i \<and> js_attempts snap = 1 \<and>
    js_state snap = (case out of Inr r \<Rightarrow> Completed | Inl e \<Rightarrow> Failed) \<and>
    js_failure snap = (case out of Inr r \<Rightarrow> None | Inl e \<Rightarrow> Some (message_of e))"
proof -
  let ?s = "wd_state w" and ?q = "jd_queue d" and ?n = "mem_fresh (wd_state w)"
  from client_enqueue_memory [OF client(1) plain(1) sent] obtain rq j where
    rq: "rq_queue rq = ?q" "rq_envelope rq = writeEnvelope d data Direct" "rq_jobId rq = None"
      "memory_enqueue rq ?s = (Inr j, wd_state w')" and i: "i = composeJobId ?q j" by blast
  note new = memory_enqueue_new [OF rq(4,3)] and unfailed = memory_enqueue_unfailed [OF rq(4,3)]
  have line: "line_inv ?s" using idle(1) by (simp add: memory_inv_def)
  obtain delivery s1 where begun: "begin_run (wd_state w') = Inr (?n, run, delivery, s1)"
    and dv: "rd_id delivery = j" "jdv_attempt delivery = 1"
      "jdv_envelope delivery = json (envelope_object (stored_envelope (writeEnvelope d data Direct)))"
    and s1: "mem_recorded s1 = mem_recorded ?s @ [?n]"
      "mem_jobs s1 = (mem_jobs (wd_state w'))(?n := (mem_jobs (wd_state w') ?n)\<lparr>mj_state := Active,
         mj_attemptsStarted := mj_attemptsStarted (mem_jobs (wd_state w') ?n) + 1\<rparr>)"
    using enqueued_runs_next [OF rq(4,3) line idle(2), unfolded rq(1,2), OF idle(3) consumer(1)] by blast
  let ?config = "jobs_config.truncate config"
  have config: "cf_hooks ?config = no_hooks" "cf_driver ?config = memoryDriver"
    by (simp_all add: client jobs_config.defs)
  have ran: "run_body d (jh_body h v \<lparr>cx_id = composeJobId ?q (rd_id delivery), cx_attempt = jdv_attempt delivery,
      cx_maxAttempts = jdv_maxAttempts delivery, cx_origin = Direct, cx_children = []\<rparr>) (\<lambda>s. s) s1 = Some (out, rest, f s1)"
    by (rule body) (simp_all add: dv i)
  obtain env event where "runOn ?config uuid byName ?q delivery s1 = Some (out, rest,
      case out of Inr r \<Rightarrow> f s1 | Inl e \<Rightarrow> if unreported e then f s1 else report ?config env event delivery e (f s1))"
    using plain_delivery [OF config(1) plain(1-4) handled dv(3) read ran] by blast
  then obtain s2 where "runs run delivery s1 = (out, s2)" and s2: "mem_jobs s2 = mem_jobs s1" "mem_recorded s2 = mem_recorded s1"
    using consumer(2) spares(1) report_keeps_jobs [OF config]
    unfolding consumes_with_def by (cases out) (auto split: if_splits)
  then obtain result s' where settled: "settle_run ?n out s2 = (result, s')"
    and run: "runNext runs (wd_state w') = (result, s')"
    using begun by (cases "settle_run ?n out s2") (simp add: runNext_def)
  have old: "r < ?n" if "r \<in> set (mem_recorded ?s)" for r
    using line that by (auto simp: line_inv_def)
  have "mem_recorded s2 = mem_recorded ?s @ [?n]" "mj_id (mem_jobs s2 ?n) = j" "mj_queue (mem_jobs s2 ?n) = ?q"
    "mj_attempts (mem_jobs s2 ?n) = 0" "mj_failure (mem_jobs s2 ?n) = None"
    using new unfailed rq(1) by (simp_all add: s2 s1)
  moreover have "\<forall>r \<in> set (mem_recorded ?s). \<not> (mj_queue (mem_jobs s2 r) = ?q \<and> mj_id (mem_jobs s2 r) = j)"
    using idle(4) old new unfolding i s2 s1(2) by (metis fun_upd_other less_irrefl)
  moreover have "?n \<notin> set (mem_recorded ?s)" using old by blast
  ultimately obtain snap where snap: "result = (case out of Inr r \<Rightarrow> Inr () | Inl e \<Rightarrow> Inl e)"
    "memory_get ?q j s' = (Inr (Some snap), s')" "js_id snap = j" "js_attempts snap = 1"
    "js_state snap = (case out of Inr r \<Rightarrow> Completed | Inl e \<Rightarrow> Failed)"
    "js_failure snap = (case out of Inr r \<Rightarrow> None | Inl e \<Rightarrow> Some (message_of e))"
    using settled_snapshot [OF _ _ _ _ _ settled spares(2)] by blast
  have "readLiveJobId i = Inr (Some (?q, j))"
    using named i new show_nat_neq_Nil by (auto simp: readLiveJobId_Some_iff)
  with snap(2) have "client_get config i s' = (Inr (Some (snap\<lparr>js_id := composeJobId ?q (js_id snap)\<rparr>)), s')"
    by (simp add: client_get_def client(1) memoryDriver_def bind_io_def)
  with run snap i show ?thesis by (intro exI [of _ s'] exI [of _ "snap\<lparr>js_id := composeJobId ?q (js_id snap)\<rparr>"]) simp
qed

section \<open>A note enqueued and run\<close>

definition note_job :: job_definition where
  "note_job = JobDefinition ''note'' ''post'' any_payload None None None None None None None None"

definition note_handler :: "memory job_handler" where
  "note_handler = handler note_job [BodyReturns (JStr ''done'')]"

definition note_world :: "memory world" where
  "note_world = start_world\<lparr>wd_state := memoryDriver_start\<lparr>mem_consumers := [''post'' \<mapsto> 0]\<rparr>\<rparr>"

definition note_runs :: "nat \<Rightarrow> job_delivery \<Rightarrow> (memory, jval) io" where
  "note_runs n delivery s =
     (case runOn (jobs_config.truncate memory_client) ''u'' [(''note'', note_handler)] ''post'' delivery s of
        Some (out, rest, s') \<Rightarrow> (out, s') | None \<Rightarrow> (Inr JUndefined, s))"

lemma note_facts:
  "jd_name note_job = ''note''" "jd_queue note_job = ''post''" "slotsOf note_job = []" "jd_idempotencyKey note_job = None"
  "payloadVersion note_job = JFin 1" "validatePayload note_job v = Inr v"
  "resolveDelivery note_job v = Inr DELIVERY_DEFAULTS"
  by (simp_all add: note_job_def slotsOf_def awaits_of_def payloadVersion_def DEFAULT_PAYLOAD_VERSION_def
      validatePayload_def any_payload_def resolveDelivery_def resolve_def delivery_defaults_for_def)

lemma note_returns:
  "run_body note_job (jh_body note_handler v cx) (\<lambda>s. s) s = Some (Inr (JStr ''done''), [], s)"
  by (simp add: note_handler_def handler_def run_body_def finish_body_def validateResult_def note_job_def)

theorem enqueued_job_runs_its_handler_witness:
  "\<exists>w' s' snap. client_enqueue memory_client note_job (JStr ''hi'') JUndefined None note_world = (Inr (Some ''post:1''), w') \<and>
    runNext note_runs (wd_state w') = (Inr (), s') \<and>
    client_get memory_client ''post:1'' s' = (Inr (Some snap), s') \<and> js_state snap = Completed"
proof -
  have driver: "cf_driver memory_client = memoryDriver" "cf_hooks memory_client = no_hooks"
    by (simp_all add: memory_client_def no_hooks_def)
  have "show_nat (Suc 0) = ''1''" by code_simp
  then obtain w' where sent: "client_enqueue memory_client note_job (JStr ''hi'') JUndefined None note_world =
      (Inr (Some ''post:1''), w')"
    by (simp add: client_enqueue_def note_facts heldOrNamed_def holdOrDeliver_def on_state_def driver bind_io_def note_world_def
        start_world_def memoryDriver_start_def memoryDriver_def memory_enqueue_def rejected_option_def DELIVERY_DEFAULTS_def
        given_id_def Let_def composeJobId_def)
  have live: "liveQueueName (jd_queue note_job) = None" unfolding note_facts by code_simp
  have idle: "memory_inv (wd_state note_world)" "runnable (wd_state note_world) = None"
    "jd_queue note_job \<notin> mem_paused (wd_state note_world)" "mem_consumers (wd_state note_world) (jd_queue note_job) = Some 0"
    "\<forall>r \<in> set (mem_recorded (wd_state note_world)).
       composeJobId (mj_queue (mem_jobs (wd_state note_world) r)) (mj_id (mem_jobs (wd_state note_world) r)) \<noteq> ''post:1''"
    by (simp_all add: note_world_def memory_inv_def line_inv_def lease_inv_def runnable_def memoryDriver_start_def note_facts)
  have runs: "consumes_with note_runs 0
      (runOn (jobs_config.truncate memory_client) ''u'' [(''note'', note_handler)] (jd_queue note_job))"
    by (simp add: consumes_with_def note_runs_def note_facts)
  have handled: "map_of [(''note'', note_handler)] (jd_name note_job) = Some note_handler" "jh_definition note_handler = note_job"
    by (simp_all add: note_facts note_handler_def handler_def)
  have plain: "is_finite (payloadVersion note_job)" "jd_name note_job \<noteq> []" "CHR '':'' \<notin> set (jd_queue note_job)"
    "jd_queue note_job \<noteq> []"
    by (simp_all add: note_facts)
  from enqueued_job_runs_its_handler [OF driver note_facts(3,4) plain live idle(1-3,5,4) runs handled sent note_facts(6)
      note_returns] sent
  show ?thesis by auto
qed

end
