(* ===== verification/RedisGuarantees.thy ===== *)
theory RedisGuarantees
  imports Samples QueueTable
begin

text \<open>
  What the Redis driver guarantees over BullMQ, under the documented behaviour of the
  calls it makes: a start leaves exactly the declared schedulers of this library on a
  queue, and a delivery that asked to come back is moved and not failed.
\<close>

section \<open>Schedules\<close>

text \<open>
  What BullMQ documents of its schedulers: a queue keeps one per key, a list names
  them, a removal drops one and an upsert puts one in.
\<close>

definition keeps_schedulers :: "'b bullmq \<Rightarrow> ('b \<Rightarrow> string \<Rightarrow> string set) \<Rightarrow> bool" where
  "keeps_schedulers bull table \<longleftrightarrow>
     (\<forall>q b ks b'. bq_getJobSchedulers bull q b = (Inr ks, b') \<longrightarrow> table b' = table b \<and> set ks = table b q) \<and>
     (\<forall>q k b b'. bq_removeJobScheduler bull q k b = (Inr (), b') \<longrightarrow> table b' = (table b)(q := table b q - {k})) \<and>
     (\<forall>q k rep env opts b b'. bq_upsertJobScheduler bull q k rep env opts b = (Inr (), b') \<longrightarrow>
        table b' = (table b)(q := insert k (table b q)))"

lemma on_bull_eq:
  "on_bull m w = (r, w1) \<longleftrightarrow> (\<exists>b. m (rw_bull w) = (r, b) \<and> w1 = w\<lparr>rw_bull := b\<rparr>)"
  by (auto simp: on_bull_def split: prod.splits)

lemma redis_upsert_Inr:
  "redis_upsert bull q u w = (Inr x, w1) \<Longrightarrow>
    \<exists>b. bq_upsertJobScheduler bull q (schedulerId (env_name (su_envelope u))) (toRepeatOptions u)
      (su_envelope u) (toTemplateOptions (su_delivery u)) (rw_bull w) = (Inr (), b) \<and> w1 = w\<lparr>rw_bull := b\<rparr>"
  by (auto simp: redis_upsert_def catch_io_def throw_io_def on_bull_eq simp del: toRepeatOptions.simps
      split: sum.splits prod.splits)

lemma removed_schedulers:
  assumes "keeps_schedulers bull table"
    and "all_io (\<lambda>k. on_bull (bq_removeJobScheduler bull q k)) keys w = (Inr (), w')"
  shows "table (rw_bull w') = (table (rw_bull w))(q := table (rw_bull w) q - set keys) \<and> rw_redis w' = rw_redis w"
  using assms(2)
proof (induction keys arbitrary: w)
  case (Cons k keys)
  obtain b where one: "bq_removeJobScheduler bull q k (rw_bull w) = (Inr (), b)"
    and rest: "all_io (\<lambda>k. on_bull (bq_removeJobScheduler bull q k)) keys (w\<lparr>rw_bull := b\<rparr>) = (Inr (), w')"
    using Cons.prems by (auto simp: on_bull_eq split: sum.splits prod.splits)
  have "table b = (table (rw_bull w))(q := table (rw_bull w) q - {k})"
    using assms(1) one unfolding keeps_schedulers_def by blast
  with Cons.IH [OF rest] show ?case by (auto simp: fun_eq_iff)
qed simp

lemma upserted_schedulers:
  assumes "keeps_schedulers bull table" and "each_io (redis_upsert bull q) declared w = (Inr (), w')"
  shows "table (rw_bull w') =
      (table (rw_bull w))(q := table (rw_bull w) q \<union> (\<lambda>u. schedulerId (env_name (su_envelope u))) ` set declared) \<and>
    rw_redis w' = rw_redis w"
  using assms(2)
proof (induction declared arbitrary: w)
  case (Cons u declared)
  obtain b where one: "bq_upsertJobScheduler bull q (schedulerId (env_name (su_envelope u))) (toRepeatOptions u)
      (su_envelope u) (toTemplateOptions (su_delivery u)) (rw_bull w) = (Inr (), b)"
    and rest: "each_io (redis_upsert bull q) declared (w\<lparr>rw_bull := b\<rparr>) = (Inr (), w')"
    using Cons.prems
    by (auto simp del: toRepeatOptions.simps split: sum.splits prod.splits dest!: redis_upsert_Inr)
  have "table b = (table (rw_bull w))(q := insert (schedulerId (env_name (su_envelope u))) (table (rw_bull w) q))"
    using assms(1) one unfolding keeps_schedulers_def by blast
  with Cons.IH [OF rest] show ?case by (auto simp: fun_eq_iff)
qed simp

text \<open>
  C18: reconciling the schedules of a queue leaves, of the schedulers this library owns,
  exactly the ones of the declared definitions, removes no scheduler of anyone else,
  and touches no other queue.
\<close>

theorem reconciled_schedulers_are_the_declared:
  assumes "keeps_schedulers bull table"
    and "redis_reconcileSchedules bull connection q declared w = (Inr (), w')"
  shows "table (rw_bull w') = (table (rw_bull w))(q :=
      {k \<in> table (rw_bull w) q. \<not> starts_with SCHEDULER_PREFIX k} \<union>
      (\<lambda>u. schedulerId (env_name (su_envelope u))) ` set declared)"
proof -
  let ?ids = "(\<lambda>u. schedulerId (env_name (su_envelope u))) ` set declared"
  from assms(2) obtain ks b w2 where
    listed: "bq_getJobSchedulers bull q (rw_bull w) = (Inr ks, b)"
    and removed: "all_io (\<lambda>k. on_bull (bq_removeJobScheduler bull q k)) (stale_keys ks declared) (w\<lparr>rw_bull := b\<rparr>) = (Inr (), w2)"
    and upserted: "each_io (redis_upsert bull q) declared w2 = (Inr (), w')"
    by (auto simp: redis_reconcileSchedules_def bind_io_eq_Inr lift_io_eq on_bull_def simp del: bind_lift_io
        split: prod.splits)
  have "table b = table (rw_bull w)" "set ks = table (rw_bull w) q"
    using assms(1) listed unfolding keeps_schedulers_def by blast+
  moreover have "set (stale_keys ks declared) = {k \<in> set ks. starts_with SCHEDULER_PREFIX k \<and> k \<notin> ?ids}"
    by (auto simp: stale_keys_def)
  ultimately show ?thesis
    using removed_schedulers [OF assms(1) removed] upserted_schedulers [OF assms(1) upserted]
    by (auto simp: fun_eq_iff)
qed

lemma table_keeps_schedulers:
  "keeps_schedulers table_bull (\<lambda>t q. {k. (q, k) \<in> set (qb_schedulers t)})"
  by (auto simp: keeps_schedulers_def fun_eq_iff image_iff split: if_splits)

definition daily_mail :: schedule_upsert where
  "daily_mail = \<lparr>su_recurrence = Pattern ''0 9 * * *'', su_timezone = Some ''UTC'', su_envelope = mail_envelope,
     su_delivery = SCHEDULED_DEFAULTS\<rparr>"

definition scheduled_world :: "queue_table redis_world" where
  "scheduled_world = empty_world\<lparr>rw_bull := \<lparr>qb_jobs = [],
     qb_schedulers = [(''post'', schedulerId ''gone''), (''post'', ''other'')]\<rparr>\<rparr>"

theorem reconciled_schedulers_are_the_declared_witness:
  "\<exists>w'. redis_reconcileSchedules table_bull blocking_connection ''post'' [daily_mail] scheduled_world = (Inr (), w') \<and>
    {k. (''post'', k) \<in> set (qb_schedulers (rw_bull w'))} = {''other'', schedulerId ''mail''}"
proof -
  have removes: "\<exists>w'. all_io (\<lambda>key. on_bull (bq_removeJobScheduler table_bull q key)) keys w = (Inr (), w')" for q keys w
    by (induction keys arbitrary: w) (simp_all add: on_bull_def)
  have upserts: "\<exists>w'. redis_upsert table_bull q u w = (Inr (), w')" for q u w
    by (simp add: redis_upsert_def on_bull_def catch_io_def)
  obtain w' where ran: "redis_reconcileSchedules table_bull blocking_connection ''post'' [daily_mail] scheduled_world = (Inr (), w')"
  proof -
    let ?listed = "map snd (filter (\<lambda>e. fst e = ''post'') (qb_schedulers (rw_bull scheduled_world)))"
    obtain w1 where "all_io (\<lambda>key. on_bull (bq_removeJobScheduler table_bull ''post'' key))
        (stale_keys ?listed [daily_mail]) scheduled_world = (Inr (), w1)"
      using removes by blast
    moreover obtain w2 where "redis_upsert table_bull ''post'' daily_mail w1 = (Inr (), w2)" using upserts by blast
    ultimately have "redis_reconcileSchedules table_bull blocking_connection ''post'' [daily_mail] scheduled_world = (Inr (), w2)"
      by (simp add: redis_reconcileSchedules_def assertBlockingConnection_def blockingOptions_def blocking_connection_def
          bind_io_def on_bull_def)
    then show thesis by (rule that)
  qed
  have "starts_with SCHEDULER_PREFIX (schedulerId ''gone'')" "\<not> starts_with SCHEDULER_PREFIX ''other''"
    by (simp_all add: schedulerId_def SCHEDULER_PREFIX_def starts_with_def)
  then have "{k \<in> {k. (''post'', k) \<in> set (qb_schedulers (rw_bull scheduled_world))}. \<not> starts_with SCHEDULER_PREFIX k} =
      {''other''}"
    by (auto simp: scheduled_world_def)
  moreover have "env_name (su_envelope daily_mail) = ''mail''" by (simp add: daily_mail_def mail_envelope_def)
  ultimately have "{k. (''post'', k) \<in> set (qb_schedulers (rw_bull w'))} = {''other''} \<union> {schedulerId ''mail''}"
    using fun_cong [OF reconciled_schedulers_are_the_declared [OF table_keeps_schedulers ran], of "''post''"] by simp
  then show ?thesis using ran by auto
qed

section \<open>Deliveries that ask to come back\<close>

text \<open>
  C39: a delivery that met a held key, or that a shutdown cut short, is moved to be
  delivered again and its attempt is not spent: after the delay a held key backs off
  by, never below its floor nor above its ceiling, or after the one a shutdown asks.
\<close>

theorem postponed_delivery_is_moved:
  assumes "bj_id job = Some i" and "i \<noteq> []" and "token \<noteq> []"
    and "run \<lparr>rd_id = i, rd_attemptsStarted = bj_attemptsStarted job, jdv_attempt = bj_attemptsMade job + 1,
      jdv_maxAttempts = or_else (bj_attempts job) (JFin 1), jdv_envelope = bj_data job\<rparr> w = (Inl e, w1)"
    and "instance_of e C_LeaseHeldError \<or> instance_of e C_ShutdownAbortError"
  shows "\<exists>delay. worker_processor bull queue run job (Some token) now w =
      (case bq_moveToDelayed bull queue i (now + delay) token (rw_bull w1) of
         (Inr _, b) \<Rightarrow> (Inl (new_error C_DelayedError (message_of e)), w1\<lparr>rw_bull := b\<rparr>)
       | (Inl refused, b) \<Rightarrow> (Inl refused, w1\<lparr>rw_bull := b\<rparr>)) \<and>
    (if instance_of e C_LeaseHeldError then HELD_RETRY_FLOOR_MS \<le> delay \<and> delay \<le> HELD_RETRY_MS
     else delay = SHUTDOWN_REDELIVERY_MS)"
proof -
  let ?delay = "if instance_of e C_LeaseHeldError then heldRetryDelayMs (bj_attemptsStarted job) else SHUTDOWN_REDELIVERY_MS"
  have "worker_processor bull queue run job (Some token) now w =
      (case bq_moveToDelayed bull queue i (now + ?delay) token (rw_bull w1) of
         (Inr _, b) \<Rightarrow> (Inl (new_error C_DelayedError (message_of e)), w1\<lparr>rw_bull := b\<rparr>)
       | (Inl refused, b) \<Rightarrow> (Inl refused, w1\<lparr>rw_bull := b\<rparr>))"
    using assms
    by (simp add: worker_processor_def catch_io_def reschedule_def no_token_def bind_io_def on_bull_def Let_def
        split: prod.split sum.split)
  then show ?thesis
    using heldRetryDelayMs_bounds by (intro exI [of _ ?delay]) simp
qed

definition mail_delivery :: bull_job where
  "mail_delivery = \<lparr>bj_id = Some ''7'', bj_name = ''mail'', bj_data = json (envelope_object mail_envelope),
     bj_attemptsMade = 0, bj_attemptsStarted = 3, bj_attempts = Some (JFin 5), bj_failedReason = None\<rparr>"

definition held_run :: "job_delivery \<Rightarrow> (queue_table redis_world, jval) io" where
  "held_run d = throw_io (LeaseHeldError ''mail:k'')"

theorem postponed_delivery_is_moved_witness:
  "\<exists>e w'. worker_processor table_bull ''post'' held_run mail_delivery (Some ''t'') 1000 empty_world = (Inl e, w') \<and>
    instance_of e C_DelayedError"
proof -
  have job: "bj_id mail_delivery = Some ''7''" by (simp add: mail_delivery_def)
  have failed: "held_run d w = (Inl (LeaseHeldError ''mail:k''), w)" for d w by (simp add: held_run_def)
  from postponed_delivery_is_moved [OF job _ _ failed, where token = "''t''" and bull = table_bull and queue = "''post''"
      and now = 1000 and w = empty_world]
  show ?thesis by auto
qed

end
