(* ===== verification/RedisHandles.thy ===== *)
theory RedisHandles
  imports Drivers "HOL-Library.Multiset"
begin

text \<open>
  What \<open>redisDriver\<close> (\<open>src/src/RedisDriver.ts\<close>) opens over the connection it is given,
  and keeps: one \<open>Queue\<close> per name, one \<open>FlowProducer\<close>, and the client the scripts run on,
  which is opened the first time a script needs it. The constructors of BullMQ are
  parameters over a state of their own. Shown here: that nothing is opened twice, that a
  handle once given is the handle given ever after, and that every script is declared
  on the client before it is run.
\<close>

section \<open>The commands\<close>

definition SCRIPT_QUEUE :: string where
  "SCRIPT_QUEUE = ''jubs.scripts''"

datatype script =
  AcquireScript | RenewScript | CompleteScript | ReleaseScript | ForgetScript | TakeCancelledScript | ReadFlowScript

fun command_of :: "script \<Rightarrow> string" where
  "command_of AcquireScript = ''jubsIdempotencyAcquire''"
| "command_of RenewScript = ''jubsIdempotencyRenew''"
| "command_of CompleteScript = ''jubsIdempotencyComplete''"
| "command_of ReleaseScript = ''jubsIdempotencyRelease''"
| "command_of ForgetScript = ''jubsIdempotencyForget''"
| "command_of TakeCancelledScript = ''jubsTakeCancelled''"
| "command_of ReadFlowScript = ''jubsReadFlow''"

text \<open>The commands a client has, each with its number of keys and its script.\<close>

type_synonym script_client = "(string \<times> nat \<times> script) list"

definition defineCommand :: "string \<Rightarrow> nat \<Rightarrow> script \<Rightarrow> script_client \<Rightarrow> script_client" where
  "defineCommand name keys lua client = (name, keys, lua) # client"

section \<open>What BullMQ opens\<close>

text \<open>
  \<open>op_Queue\<close> is \<open>new Queue(name, { connection, skipMetasUpdate })\<close>, \<open>op_FlowProducer\<close>
  \<open>new FlowProducer({ connection })\<close>, and \<open>op_client\<close> waits for \<open>getBackend().client\<close>.
\<close>

record ('s, 'q, 'p) openers =
  op_Queue :: "string \<Rightarrow> bool \<Rightarrow> ('s, 'q) io"
  op_FlowProducer :: "('s, 'p) io"
  op_client :: "'q \<Rightarrow> ('s, unit) io"

record ('s, 'q, 'p) handles =
  hd_queues :: "(string \<times> 'q) list"
  hd_flows :: "'p option"
  hd_opening :: "(thrown + script_client) option"
  hd_outside :: 's

definition no_handles :: "'s \<Rightarrow> ('s, 'q, 'p) handles" where
  "no_handles s = \<lparr>hd_queues = [], hd_flows = None, hd_opening = None, hd_outside = s\<rparr>"

definition openScriptClient :: "('s, 'q, 'p) openers \<Rightarrow> ('s, script_client) io" where
  "openScriptClient op =
     bind_io (op_Queue op SCRIPT_QUEUE True) (\<lambda>handle.
     bind_io (op_client op handle) (\<lambda>_.
       ret_io (fold (\<lambda>lua. defineCommand (command_of lua) 1 lua)
         [AcquireScript, RenewScript, CompleteScript, ReleaseScript, ForgetScript, TakeCancelledScript, ReadFlowScript] [])))"

text \<open>\<open>opening ??= openScriptClient(connection)\<close>: the promise is kept, whatever it settles to.\<close>

definition scriptClient :: "('s, 'q, 'p) openers \<Rightarrow> (('s, 'q, 'p) handles, script_client) io" where
  "scriptClient op h =
     (case hd_opening h of
        Some opening \<Rightarrow> (opening, h)
      | None \<Rightarrow>
          (case openScriptClient op (hd_outside h) of
             (opening, s) \<Rightarrow> (opening, h\<lparr>hd_opening := Some opening, hd_outside := s\<rparr>)))"

definition queueFor :: "('s, 'q, 'p) openers \<Rightarrow> string \<Rightarrow> (('s, 'q, 'p) handles, 'q) io" where
  "queueFor op name h =
     (case map_of (hd_queues h) name of
        Some queue \<Rightarrow> (Inr queue, h)
      | None \<Rightarrow>
          (case op_Queue op name False (hd_outside h) of
             (Inl e, s) \<Rightarrow> (Inl e, h\<lparr>hd_outside := s\<rparr>)
           | (Inr queue, s) \<Rightarrow> (Inr queue, h\<lparr>hd_queues := hd_queues h @ [(name, queue)], hd_outside := s\<rparr>)))"

definition flowProducer :: "('s, 'q, 'p) openers \<Rightarrow> (('s, 'q, 'p) handles, 'p) io" where
  "flowProducer op h =
     (case hd_flows h of
        Some flows \<Rightarrow> (Inr flows, h)
      | None \<Rightarrow>
          (case op_FlowProducer op (hd_outside h) of
             (Inl e, s) \<Rightarrow> (Inl e, h\<lparr>hd_outside := s\<rparr>)
           | (Inr flows, s) \<Rightarrow> (Inr flows, h\<lparr>hd_flows := Some flows, hd_outside := s\<rparr>)))"

section \<open>However the driver is used\<close>

datatype handle_use = UseQueue string | UseFlows | UseScripts

fun use_handle :: "('s, 'q, 'p) openers \<Rightarrow> handle_use \<Rightarrow> ('s, 'q, 'p) handles \<Rightarrow> ('s, 'q, 'p) handles" where
  "use_handle op (UseQueue name) h = snd (queueFor op name h)"
| "use_handle op UseFlows h = snd (flowProducer op h)"
| "use_handle op UseScripts h = snd (scriptClient op h)"

text \<open>
  \<open>queues\<close> counts the handles BullMQ holds by the name of their queue, \<open>producers\<close> its
  flow producers. A constructor that throws leaves neither.
\<close>

definition counts_handles ::
    "('s, 'q, 'p) openers \<Rightarrow> ('s \<Rightarrow> string multiset) \<Rightarrow> ('s \<Rightarrow> nat) \<Rightarrow> bool" where
  "counts_handles op queues producers \<longleftrightarrow>
     (\<forall>name skip s. case op_Queue op name skip s of (out, s') \<Rightarrow>
        producers s' = producers s \<and>
        queues s' = (case out of Inr q \<Rightarrow> add_mset name (queues s) | Inl e \<Rightarrow> queues s)) \<and>
     (\<forall>s. case op_FlowProducer op s of (out, s') \<Rightarrow>
        queues s' = queues s \<and> producers s' = (case out of Inr p \<Rightarrow> Suc (producers s) | Inl e \<Rightarrow> producers s)) \<and>
     (\<forall>q s. case op_client op q s of (out, s') \<Rightarrow> queues s' = queues s \<and> producers s' = producers s)"

lemma counts_handles_Queue:
  assumes "counts_handles op queues producers" and "op_Queue op name skip s = (out, s')"
  shows "producers s' = producers s"
    and "queues s' = (case out of Inr q \<Rightarrow> add_mset name (queues s) | Inl e \<Rightarrow> queues s)"
  using assms unfolding counts_handles_def by (metis (mono_tags, lifting) case_prod_conv)+

lemma counts_handles_FlowProducer:
  assumes "counts_handles op queues producers" and "op_FlowProducer op s = (out, s')"
  shows "queues s' = queues s"
    and "producers s' = (case out of Inr p \<Rightarrow> Suc (producers s) | Inl e \<Rightarrow> producers s)"
  using assms unfolding counts_handles_def by (metis (mono_tags, lifting) case_prod_conv)+

lemma counts_handles_client:
  assumes "counts_handles op queues producers" and "op_client op q s = (out, s')"
  shows "queues s' = queues s" and "producers s' = producers s"
  using assms unfolding counts_handles_def by (metis (mono_tags, lifting) case_prod_conv)+

text \<open>
  What the driver keeps is what was opened: a name in the map is open once, and one that
  is not was never opened; the queue of the scripts is opened by the script client alone.
\<close>

definition handles_inv ::
    "('s \<Rightarrow> string multiset) \<Rightarrow> ('s \<Rightarrow> nat) \<Rightarrow> string multiset \<Rightarrow> nat \<Rightarrow> ('s, 'q, 'p) handles \<Rightarrow> bool" where
  "handles_inv queues producers before flows_before h \<longleftrightarrow>
     distinct (map fst (hd_queues h)) \<and>
     (\<exists>scripts. scripts \<le> (if hd_opening h = None then 0 else 1) \<and>
        queues (hd_outside h) = before + mset (map fst (hd_queues h)) + replicate_mset scripts SCRIPT_QUEUE) \<and>
     producers (hd_outside h) = flows_before + (if hd_flows h = None then 0 else 1)"

lemma handles_inv_queueFor:
  assumes "counts_handles op queues producers" and "handles_inv queues producers b f h"
  shows "handles_inv queues producers b f (snd (queueFor op name h))"
proof (cases "map_of (hd_queues h) name")
  case None
  obtain out s where opened: "op_Queue op name False (hd_outside h) = (out, s)" by fastforce
  from None have "name \<notin> fst ` set (hd_queues h)" by (simp add: map_of_eq_None_iff)
  then show ?thesis
    using None opened counts_handles_Queue [OF assms(1) opened] assms(2)
    by (cases out) (auto simp: queueFor_def handles_inv_def)
qed (use assms(2) in \<open>simp add: queueFor_def\<close>)

lemma handles_inv_flowProducer:
  assumes "counts_handles op queues producers" and "handles_inv queues producers b f h"
  shows "handles_inv queues producers b f (snd (flowProducer op h))"
proof (cases "hd_flows h")
  case None
  obtain out s where opened: "op_FlowProducer op (hd_outside h) = (out, s)" by fastforce
  show ?thesis
    using None opened counts_handles_FlowProducer [OF assms(1) opened] assms(2)
    by (cases out) (auto simp: flowProducer_def handles_inv_def)
qed (use assms(2) in \<open>simp add: flowProducer_def\<close>)

lemma openScriptClient_counts:
  assumes "counts_handles op queues producers" and "openScriptClient op s = (out, s')"
  shows "producers s' = producers s \<and> (\<exists>n \<le> 1. queues s' = queues s + replicate_mset n SCRIPT_QUEUE)"
proof -
  obtain handle s1 where opened: "op_Queue op SCRIPT_QUEUE True s = (handle, s1)" by fastforce
  note first = counts_handles_Queue [OF assms(1) opened]
  show ?thesis
  proof (cases handle)
    case (Inl e)
    with opened assms(2) first show ?thesis
      by (auto simp: openScriptClient_def intro!: exI [of _ 0])
  next
    case (Inr q)
    obtain ready s2 where waited: "op_client op q s1 = (ready, s2)" by fastforce
    with Inr opened assms(2) have "s' = s2"
      by (cases ready) (auto simp: openScriptClient_def)
    with first Inr counts_handles_client [OF assms(1) waited] show ?thesis
      by (auto intro!: exI [of _ 1])
  qed
qed

lemma handles_inv_scriptClient:
  assumes "counts_handles op queues producers" and "handles_inv queues producers b f h"
  shows "handles_inv queues producers b f (snd (scriptClient op h))"
proof (cases "hd_opening h")
  case None
  obtain out s where opened: "openScriptClient op (hd_outside h) = (out, s)" by fastforce
  from openScriptClient_counts [OF assms(1) opened] show ?thesis
    using None opened assms(2) by (auto simp: scriptClient_def handles_inv_def)
qed (use assms(2) in \<open>simp add: scriptClient_def\<close>)

lemma handles_inv_uses:
  assumes "counts_handles op queues producers" and "handles_inv queues producers b f h"
  shows "handles_inv queues producers b f (fold (use_handle op) uses h)"
  using assms(2)
proof (induction uses arbitrary: h)
  case (Cons u uses)
  have "handles_inv queues producers b f (use_handle op u h)"
    using Cons.prems assms(1)
    by (cases u) (simp_all add: handles_inv_queueFor handles_inv_flowProducer handles_inv_scriptClient)
  then show ?case by (simp add: Cons.IH)
qed simp

text \<open>A handle given once is the one given ever after.\<close>

lemma use_handle_keeps:
  "map_of (hd_queues h) name = Some q \<Longrightarrow> map_of (hd_queues (use_handle op u h)) name = Some q"
  by (cases u)
    (auto simp: queueFor_def flowProducer_def scriptClient_def split: option.splits prod.splits sum.splits)

lemma uses_keep:
  "map_of (hd_queues h) name = Some q \<Longrightarrow> map_of (hd_queues (fold (use_handle op) uses h)) name = Some q"
  by (induction uses arbitrary: h) (simp_all add: use_handle_keeps)

lemma queueFor_kept:
  "queueFor op name h = (Inr q, h') \<Longrightarrow> map_of (hd_queues h') name = Some q"
  by (auto simp: queueFor_def map_add_def split: option.splits prod.splits sum.splits)

text \<open>
  C33: however the driver is used, it opens one queue per name and one flow producer, and
  beside them at most the one queue its scripts are run through; and the handle of a
  queue, once given, is the handle given for that name ever after, opening nothing.
\<close>

theorem driver_opens_each_handle_once:
  assumes "counts_handles op queues producers" and "h = fold (use_handle op) uses (no_handles s)"
  shows "(\<forall>name. name \<noteq> SCRIPT_QUEUE \<longrightarrow> count (queues (hd_outside h)) name \<le> count (queues s) name + 1) \<and>
    count (queues (hd_outside h)) SCRIPT_QUEUE \<le> count (queues s) SCRIPT_QUEUE + 2 \<and>
    producers (hd_outside h) \<le> producers s + 1 \<and>
    (\<forall>name q h'. queueFor op name h = (Inr q, h') \<longrightarrow>
       (\<forall>later. queueFor op name (fold (use_handle op) later h') = (Inr q, fold (use_handle op) later h')))"
proof -
  have "handles_inv queues producers (queues s) (producers s) (no_handles s)"
    by (simp add: handles_inv_def no_handles_def)
  then have inv: "handles_inv queues producers (queues s) (producers s) h"
    using handles_inv_uses [OF assms(1)] assms(2) by blast
  then obtain scripts where scripts: "scripts \<le> 1"
    and open_queues: "queues (hd_outside h) = queues s + mset (map fst (hd_queues h)) + replicate_mset scripts SCRIPT_QUEUE"
    and flows: "producers (hd_outside h) \<le> producers s + 1"
    by (auto simp: handles_inv_def split: if_splits)
  have once: "count (mset (map fst (hd_queues h))) name \<le> 1" for name
    using inv by (simp add: handles_inv_def distinct_count_atmost_1 del: count_mset)
  moreover note add_mono [OF once [of SCRIPT_QUEUE] scripts]
  moreover have "queueFor op name (fold (use_handle op) later h') = (Inr q, fold (use_handle op) later h')"
    if "queueFor op name h = (Inr q, h')" for name q h' later
    using uses_keep [OF queueFor_kept [OF that]] by (simp add: queueFor_def)
  ultimately show ?thesis
    using scripts flows unfolding open_queues by (simp add: add_mono)
qed

text \<open>Every script is declared on the client, with one key, before a command of it is run.\<close>

theorem every_script_is_declared:
  assumes "openScriptClient op s = (Inr client, s')"
  shows "map_of client (command_of lua) = Some (1, lua)"
  using assms by (cases lua) (auto simp: openScriptClient_def bind_io_eq_Inr defineCommand_def)

text \<open>
  An opening that failed is kept as well: the promise \<open>opening\<close> is not cleared, so every
  script after it fails as the first did, whether or not Redis answers by then.
\<close>

theorem failed_opening_is_kept:
  assumes "hd_opening h = None" and "scriptClient op h = (Inl e, h')"
  shows "hd_opening h' = Some (Inl e)"
    and "scriptClient op (fold (use_handle op) uses h') = (Inl e, fold (use_handle op) uses h')"
proof -
  show kept: "hd_opening h' = Some (Inl e)"
    using assms by (auto simp: scriptClient_def split: prod.splits)
  have step: "hd_opening (use_handle op u g) = Some (Inl e)" if "hd_opening g = Some (Inl e)" for u g
    using that by (cases u)
      (auto simp: queueFor_def flowProducer_def scriptClient_def split: option.splits prod.splits sum.splits)
  have "hd_opening (fold (use_handle op) uses g) = Some (Inl e)" if "hd_opening g = Some (Inl e)" for g
    using that by (induction uses arbitrary: g) (simp_all add: step)
  with kept show "scriptClient op (fold (use_handle op) uses h') = (Inl e, fold (use_handle op) uses h')"
    by (simp add: scriptClient_def)
qed

section \<open>A connection that counts\<close>

record opened_log =
  ol_queues :: "string multiset"
  ol_producers :: nat

definition counting_openers :: "(opened_log, string, unit) openers" where
  "counting_openers =
     \<lparr>op_Queue = (\<lambda>name skip s. (Inr name, s\<lparr>ol_queues := add_mset name (ol_queues s)\<rparr>)),
      op_FlowProducer = (\<lambda>s. (Inr (), s\<lparr>ol_producers := Suc (ol_producers s)\<rparr>)),
      op_client = (\<lambda>q s. (Inr (), s))\<rparr>"

lemma counting_openers_count: "counts_handles counting_openers ol_queues ol_producers"
  by (simp add: counts_handles_def counting_openers_def)

theorem driver_opens_each_handle_once_witness:
  "count (ol_queues (hd_outside (fold (use_handle counting_openers)
      [UseQueue ''post'', UseScripts, UseQueue ''post'', UseFlows, UseScripts, UseFlows]
      (no_handles \<lparr>ol_queues = {#}, ol_producers = 0\<rparr>)))) ''post'' \<le> 1"
proof -
  let ?h = "fold (use_handle counting_openers)
      [UseQueue ''post'', UseScripts, UseQueue ''post'', UseFlows, UseScripts, UseFlows]
      (no_handles \<lparr>ol_queues = {#}, ol_producers = 0\<rparr>)"
  have "''post'' \<noteq> SCRIPT_QUEUE" by (simp add: SCRIPT_QUEUE_def)
  with driver_opens_each_handle_once [OF counting_openers_count refl, of
      "[UseQueue ''post'', UseScripts, UseQueue ''post'', UseFlows, UseScripts, UseFlows]"
      "\<lparr>ol_queues = {#}, ol_producers = 0\<rparr>"]
  have "count (ol_queues (hd_outside ?h)) ''post'' \<le> count {#} ''post'' + 1" by (metis opened_log.select_convs(1))
  then show ?thesis by simp
qed

end
