(* ===== verification/Workers.thy ===== *)
theory Workers
  imports Runtime QueueTable Samples
begin

text \<open>
  The workers of the Redis driver (\<open>consume\<close> of \<open>src/src/RedisDriver.ts\<close>) under the
  runtime that opens them (\<open>startRuntime\<close> of \<open>src/src/Runtime.ts\<close>). \<open>Worker\<close> is a class of
  BullMQ: its constructor, the promise that it is ready and its \<open>close\<close> are parameters.
  Shown here: that a connection no worker can block on starts nothing at all, and what a
  worker that never gets ready leaves behind.
\<close>

section \<open>Opening a worker\<close>

record ('b, 'w) bull_worker =
  bw_Worker :: "string \<Rightarrow> worker_options \<Rightarrow> ('b, 'w) io"
  bw_waitUntilReady :: "'w \<Rightarrow> ('b, unit) io"
  bw_close :: "'w \<Rightarrow> ('b, unit) io"

definition redis_consume ::
    "('b, 'w) bull_worker \<Rightarrow> connection_shape \<Rightarrow> consume_request \<Rightarrow> ('b redis_world, 'w) io" where
  "redis_consume workers connection request =
     bind_io (lift_io (assertBlockingConnection connection)) (\<lambda>_.
     bind_io (on_bull (bw_Worker workers (cq_queue request)
                (toWorkerOptions (cq_concurrency request) (cq_limiter request)))) (\<lambda>worker.
     bind_io (on_bull (bw_waitUntilReady workers worker)) (\<lambda>_. ret_io worker)))"

definition redis_consumer_close :: "('b, 'w) bull_worker \<Rightarrow> 'w \<Rightarrow> ('b redis_world, unit) io" where
  "redis_consumer_close workers worker = on_bull (bw_close workers worker)"

section \<open>A connection that cannot block\<close>

lemma reconcile_refused:
  assumes "assertBlockingConnection connection = Inl e" and "cf_driver config = redisDriver bull uuid connection"
  shows "reconcile_each (cf_driver config) ((queue, declared) # rest) w = (Inl e, w)"
  using assms by (simp add: redisDriver_def redis_reconcileSchedules_def bind_io_def)

lemma mapE_Cons_Inr:
  "mapE f (x # xs) = Inr ys \<Longrightarrow> \<exists>y rest. f x = Inr y \<and> ys = y # rest"
  by (auto split: sum.splits)

text \<open>
  C30: a runtime of the Redis driver over a connection a worker cannot block on does not
  start: \<open>start\<close> fails, and no scheduler is written or removed and no worker is opened,
  whatever handlers it was given, provided it was given one.
\<close>

theorem unfit_connection_starts_nothing:
  assumes "assertBlockingConnection connection = Inl e" and "cf_driver config = redisDriver bull uuid connection"
    and "handlers \<noteq> []"
  shows "\<exists>refused. startRuntime config (redis_consume workers connection) (redis_consumer_close workers)
    handlers tuning w = (Inl refused, w)"
proof (cases "start_checks config handlers (map fst tuning)")
  case (Inl refused)
  then show ?thesis by (simp add: startRuntime_def)
next
  case (Inr checked)
  then obtain byName queues where checked: "start_checks config handlers (map fst tuning) = Inr (byName, queues)"
    by (cases checked) auto
  then have "queues = uniq (map (\<lambda>h. jd_queue (jh_definition h)) handlers)"
    by (auto simp: start_checks_def bindE_Inr_iff Let_def)
  with assms(3) have "queues \<noteq> []" by (metis map_is_Nil_conv set_empty set_uniq)
  then obtain q qs where queues: "queues = q # qs" by (cases queues) auto
  let ?each = "\<lambda>q. bindE (declaredSchedules config handlers q) (\<lambda>declared. Inr (q, declared))"
  have "\<exists>refused. reconcileEveryQueue config handlers queues w = (Inl refused, w)"
  proof (cases "mapE ?each queues")
    case (Inr upserts)
    then obtain declared rest where "upserts = (q, declared) # rest"
      using mapE_Cons_Inr [of ?each q qs upserts] queues by (auto simp: bindE_Inr_iff)
    with Inr reconcile_refused [OF assms(1,2)] show ?thesis by (simp add: reconcileEveryQueue_def)
  qed (simp add: reconcileEveryQueue_def)
  then obtain refused where "reconcileEveryQueue config handlers queues w = (Inl refused, w)" by blast
  with checked show ?thesis by (auto simp: startRuntime_def intro: bind_io_Inl)
qed

text \<open>A connection that retries, workers kept in the table by the length of its jobs.\<close>

definition retrying_connection :: connection_shape where
  "retrying_connection = ConnectionShape False (JNum (JFin 20)) None None"

definition table_workers :: "(queue_table, string) bull_worker" where
  "table_workers = \<lparr>bw_Worker = (\<lambda>q options t. (Inr q, t)), bw_waitUntilReady = (\<lambda>worker t. (Inr (), t)),
     bw_close = (\<lambda>worker t. (Inr (), t))\<rparr>"

definition retrying_config :: "queue_table redis_world jobs_config" where
  "retrying_config = \<lparr>cf_driver = redisDriver table_bull show_nat retrying_connection,
     cf_definitions = None, cf_deadQueues = None, cf_timezone = None,
     cf_hooks = \<lparr>hk_onStart = None, hk_onSuccess = None, hk_onAttemptFailed = None, hk_onDead = None\<rparr>\<rparr>"

theorem unfit_connection_starts_nothing_witness:
  "\<exists>refused. startRuntime retrying_config (redis_consume table_workers retrying_connection)
    (redis_consumer_close table_workers) [\<lparr>jh_definition = mail_job, jh_body = (\<lambda>data ctx. [])\<rparr>] [] empty_world =
      (Inl refused, empty_world)"
proof -
  have "num_truthy (JFin 20)" by code_simp
  then obtain e where "assertBlockingConnection retrying_connection = Inl e"
    by (simp add: assertBlockingConnection_def blockingOptions_def retrying_connection_def)
  then show ?thesis
    by (rule unfit_connection_starts_nothing) (simp_all add: retrying_config_def)
qed

section \<open>A worker that never gets ready\<close>

text \<open>
  A worker that was constructed and whose connection then fails is not closed: the start
  that opened it fails, closes the consumers that did open, and leaves this one running.
\<close>

theorem unready_worker_is_left_open:
  assumes "assertBlockingConnection connection = Inr ()"
    and "bw_Worker workers (cq_queue request) (toWorkerOptions (cq_concurrency request) (cq_limiter request))
      (rw_bull w) = (Inr worker, b)"
    and "bw_waitUntilReady workers worker b = (Inl e, b')"
  shows "openConsumers (redis_consume workers connection) (redis_consumer_close workers) [request] w =
    (Inl e, w\<lparr>rw_bull := b'\<rparr>)"
  using assms
  by (simp add: openConsumers_def redis_consume_def on_bull_def bind_io_def fulfilled_def rejected_def)

end
