(* ===== verification/FlowTypes.thy ===== *)
theory FlowTypes
  imports Flows Samples
begin

text \<open>
  What fills the slots of a flow: the types the compiler checks an enqueue against
  (\<open>SlotInput\<close>, \<open>SlotInputs\<close> and \<open>EnqueueAwaits\<close> of \<open>src/src/Definition.ts\<close>), and what it
  promises a handler of its children (\<open>Children\<close>), as predicates on values, and the rule \<open>composeFlow\<close> (\<open>src/src/Flow.ts\<close>) enforces at run time, stated
  without its steps. Shown here: that a flow composes exactly when every slot is filled
  by the rule, that an input of the declared type is refused for a payload and never for
  its shape, short of the shapes the types let through and the run time refuses, and that
  the children a handler is given are of the type it was promised.
\<close>

section \<open>The rule\<close>

text \<open>A payload its schema accepts, with a delivery that declares no uniqueness.\<close>

definition takes_payload :: "job_definition \<Rightarrow> jval \<Rightarrow> bool" where
  "takes_payload d data \<longleftrightarrow>
     (\<exists>validated dl. jd_payload d data = Value validated \<and> resolveDelivery d validated = Inr dl \<and> dl_unique dl = None)"

text \<open>
  A slot is filled with a payload alone, unless the job in it waits on children of its
  own: then with an object that holds the payload under \<open>data\<close> and what fills the slots of
  that job under \<open>awaits\<close>. A slot that waits on many
  is filled with an array of these, and one that waits on one with a value that is none.
\<close>

function well_filled :: "job_definition \<Rightarrow> jval \<Rightarrow> jval \<Rightarrow> bool"
  and slot_filled :: "slot \<Rightarrow> jval \<Rightarrow> bool"
  and child_filled :: "slot \<Rightarrow> jval \<Rightarrow> bool" where
  "well_filled d data awaits \<longleftrightarrow>
     takes_payload d data \<and> (slotsOf d \<noteq> [] \<longrightarrow> isRecord awaits) \<and>
     (\<forall>s \<in> set (slotsOf d). slot_filled s (get_prop awaits (sl_name s)))"
| "slot_filled s given \<longleftrightarrow>
     (if sl_many s then (case given of JArr many \<Rightarrow> \<forall>one \<in> set many. child_filled s one | _ \<Rightarrow> False)
      else given \<noteq> JUndefined \<and> \<not> is_array given \<and> child_filled s given)"
| "child_filled s given \<longleftrightarrow>
     (if slotsOf (sl_definition s) = [] then well_filled (sl_definition s) given JUndefined
      else isRecord given \<and> well_filled (sl_definition s) (get_prop given ''data'') (get_prop given ''awaits''))"
  by pat_completeness auto
termination
  by (relation "measure (\<lambda>x. case x of Inl (d, _) \<Rightarrow> 3 * size d
        | Inr (Inl (s, _)) \<Rightarrow> 3 * size (sl_definition s) + 2
        | Inr (Inr (s, _)) \<Rightarrow> 3 * size (sl_definition s) + 1)")
    (auto dest: size_slot_definition)

declare well_filled.simps [simp del] slot_filled.simps [simp del] child_filled.simps [simp del]

section \<open>A flow composes exactly when it is filled by the rule\<close>

lemma mapE_ok: "(\<exists>ys. mapE f xs = Inr ys) \<longleftrightarrow> (\<forall>x \<in> set xs. \<exists>y. f x = Inr y)"
  by (induction xs) (auto split: sum.splits)

lemma assertAwaitsInput_ok:
  "assertAwaitsInput d awaits = Inr filled \<longleftrightarrow>
    (if slotsOf d = [] then filled = JObj []
     else filled = awaits \<and> isRecord awaits \<and>
       (\<forall>s \<in> set (slotsOf d). get_prop awaits (sl_name s) \<noteq> JUndefined \<and>
          sl_many s = is_array (get_prop awaits (sl_name s))))"
  by (auto simp: assertAwaitsInput_def Let_def filter_empty_conv find_None_iff
      split: option.splits if_splits dest: find_Some_in)

lemma composes_iff_filled_aux:
  "(\<exists>node. composeFlow d data awaits = Inr node) \<longleftrightarrow> well_filled d data awaits"
  "get_prop awaits' (sl_name s) \<noteq> JUndefined \<Longrightarrow> sl_many s = is_array (get_prop awaits' (sl_name s)) \<Longrightarrow>
    (\<exists>nodes. composeSlot s awaits' = Inr nodes) \<longleftrightarrow> slot_filled s (get_prop awaits' (sl_name s))"
  "(\<exists>child. composeChild t given = Inr child) \<longleftrightarrow> child_filled t given"
proof (induction d data awaits and s awaits' and t given rule: composeFlow_composeSlot_composeChild.induct)
  case (1 d data awaits)
  show ?case
  proof (cases "\<exists>filled. assertAwaitsInput d awaits = Inr filled")
    case False
    then have refused: "assertAwaitsInput d awaits \<noteq> Inr awaits" "assertAwaitsInput d awaits \<noteq> Inr (JObj [])" by blast+
    then have some: "slotsOf d \<noteq> []" by (auto simp: assertAwaitsInput_ok)
    with refused(1) have
      "\<not> (isRecord awaits \<and> (\<forall>s \<in> set (slotsOf d). get_prop awaits (sl_name s) \<noteq> JUndefined \<and>
          sl_many s = is_array (get_prop awaits (sl_name s))))"
      by (simp add: assertAwaitsInput_ok)
    moreover have "slot_filled s given \<Longrightarrow> given \<noteq> JUndefined \<and> sl_many s = is_array given" for s given
      by (cases given) (auto simp: slot_filled.simps split: if_splits)
    ultimately have "\<not> well_filled d data awaits" using some by (auto simp: well_filled.simps [of d])
    moreover from False have "\<not> (\<exists>node. composeFlow d data awaits = Inr node)"
      by (auto simp: composeFlow.simps [of d] bindE_Inr_iff)
    ultimately show ?thesis by blast
  next
    case True
    then obtain filled where filled: "assertAwaitsInput d awaits = Inr filled" by blast
    then have slots: "filled = awaits" "isRecord awaits" "get_prop awaits (sl_name s) \<noteq> JUndefined"
      "sl_many s = is_array (get_prop awaits (sl_name s))" if "s \<in> set (slotsOf d)" for s
      using that by (auto simp: assertAwaitsInput_ok split: if_splits)
    have "(\<exists>node. composeFlow d data awaits = Inr node) \<longleftrightarrow>
        takes_payload d data \<and> (\<exists>nodes. mapE (\<lambda>s. composeSlot s filled) (slotsOf d) = Inr nodes)"
      using filled by (auto simp: composeFlow.simps [of d] bindE_Inr_iff takes_payload_def validatePayload_Inr_iff)
    also have "\<dots> \<longleftrightarrow> takes_payload d data \<and> (\<forall>s \<in> set (slotsOf d). \<exists>nodes. composeSlot s awaits = Inr nodes)"
      unfolding mapE_ok using slots(1) by auto
    finally have composes: "(\<exists>node. composeFlow d data awaits = Inr node) \<longleftrightarrow>
        takes_payload d data \<and> (\<forall>s \<in> set (slotsOf d). \<exists>nodes. composeSlot s awaits = Inr nodes)" .
    show ?thesis
    proof (cases "takes_payload d data")
      case taken: True
      then obtain v dl where v: "validatePayload d data = Inr v" "resolveDelivery d v = Inr dl" "dl_unique dl = None"
        by (auto simp: takes_payload_def validatePayload_Inr_iff)
      have "(\<exists>nodes. composeSlot s awaits = Inr nodes) \<longleftrightarrow> slot_filled s (get_prop awaits (sl_name s))"
        if "s \<in> set (slotsOf d)" for s
        using "1.IH" [OF filled v(1,2) _ that] v(3) slots [OF that] by auto
      moreover have "slotsOf d \<noteq> [] \<longrightarrow> isRecord awaits"
        using slots(2) by (cases "slotsOf d") auto
      ultimately show ?thesis unfolding composes well_filled.simps [of d] using taken by auto
    qed (simp add: composes well_filled.simps [of d])
  qed
next
  case (2 s awaits)
  let ?given = "get_prop awaits (sl_name s)"
  show ?case
  proof (cases "sl_many s")
    case True
    with "2.prems" obtain many where many: "?given = JArr many" by (cases ?given) auto
    have "(\<exists>child. composeChild s one = Inr child) \<longleftrightarrow> child_filled s one" if "one \<in> set many" for one
      using "2.IH"(2) [OF refl _ many that] True by simp
    with True many show ?thesis
      by (simp add: composeSlot.simps slot_filled.simps mapE_ok del: mapE.simps)
  next
    case False
    have "(\<exists>nodes. composeSlot s awaits = Inr nodes) \<longleftrightarrow> (\<exists>child. composeChild s ?given = Inr child)"
      using False mapE_ok [of "composeChild s" "[?given]"] by (simp add: composeSlot.simps del: mapE.simps)
    also have "\<dots> \<longleftrightarrow> child_filled s ?given"
      using "2.IH"(1) [OF refl] False by simp
    finally show ?thesis using False "2.prems" by (simp add: slot_filled.simps)
  qed
next
  case (3 t given)
  let ?d = "sl_definition t"
  have composed: "(\<exists>child. composeChild t given = Inr child) \<longleftrightarrow>
      well_filled ?d (fst (childInput t given)) (snd (childInput t given))"
    using "3.IH" by (auto simp: composeChild.simps bindE_Inr_iff)
  have "\<not> well_filled ?d v JUndefined" if "slotsOf ?d \<noteq> []" for v
    using that by (simp add: well_filled.simps [of ?d])
  then show ?case
    unfolding composed child_filled.simps [of t] by (simp add: childInput_def)
qed

text \<open>
  C10: \<open>composeFlow\<close> returns a tree exactly when the flow is filled by the rule at every
  level: every payload accepted and no delivery unique, every slot filled, with an array
  where it waits on many and a single value where it waits on one, a child that waits on
  nothing given its payload alone and one that waits given an object whose \<open>data\<close> is its
  payload and whose \<open>awaits\<close> fills its slots.
\<close>

theorem flow_composes_iff_filled:
  "(\<exists>node. composeFlow d data awaits = Inr node) \<longleftrightarrow> well_filled d data awaits"
  by (rule composes_iff_filled_aux(1))

section \<open>The types\<close>

text \<open>
  \<open>pay d\<close> is the type \<open>PayloadOf\<close>: what the schema of a definition infers as its input.
  A definition that declares \<open>awaits\<close> is given \<open>{ data, awaits }\<close>, whatever it declares.
\<close>

lemma size_declaration [termination_simp]:
  assumes "jd_awaits d = Some aw" and "(name, decl) \<in> set aw"
  shows "size decl < size d"
proof -
  have "size decl \<le> size_list (size_prod (\<lambda>_. 0) size) aw"
    using assms(2) by (induction aw) auto
  also have "\<dots> < size d" using assms(1) by (cases d) simp
  finally show ?thesis .
qed

fun SlotInput :: "(job_definition \<Rightarrow> jval \<Rightarrow> bool) \<Rightarrow> job_definition \<Rightarrow> jval \<Rightarrow> bool"
  and SlotInputs :: "(job_definition \<Rightarrow> jval \<Rightarrow> bool) \<Rightarrow> slot_declaration \<Rightarrow> jval \<Rightarrow> bool" where
  "SlotInput pay d v \<longleftrightarrow>
     (case jd_awaits d of
        None \<Rightarrow> pay d v
      | Some aw \<Rightarrow> isRecord v \<and> pay d (get_prop v ''data'') \<and> isRecord (get_prop v ''awaits'') \<and>
          (\<forall>(name, decl) \<in> set aw. SlotInputs pay decl (get_prop (get_prop v ''awaits'') name)))"
| "SlotInputs pay (Many d) v \<longleftrightarrow> (case v of JArr many \<Rightarrow> \<forall>one \<in> set many. SlotInput pay d one | _ \<Rightarrow> False)"
| "SlotInputs pay (One d) v \<longleftrightarrow> SlotInput pay d v"

declare SlotInput.simps [simp del]

text \<open>The arguments an enqueue takes behind the payload: one, unless there is no slot to fill.\<close>

definition EnqueueAwaits :: "(job_definition \<Rightarrow> jval \<Rightarrow> bool) \<Rightarrow> job_definition \<Rightarrow> jval list \<Rightarrow> bool" where
  "EnqueueAwaits pay d arguments \<longleftrightarrow>
     (case jd_awaits d of
        None \<Rightarrow> arguments = []
      | Some [] \<Rightarrow> arguments = []
      | Some aw \<Rightarrow> (case arguments of
            [v] \<Rightarrow> isRecord v \<and> (\<forall>(name, decl) \<in> set aw. SlotInputs pay decl (get_prop v name))
          | _ \<Rightarrow> False))"

definition passed :: "jval list \<Rightarrow> jval" where
  "passed arguments = (case arguments of [] \<Rightarrow> JUndefined | v # _ \<Rightarrow> v)"

section \<open>An input of the type is refused for a payload only\<close>

text \<open>No definition of the tree declares an \<open>awaits\<close> with no slot in it.\<close>

function no_hollow :: "job_definition \<Rightarrow> bool" where
  "no_hollow d \<longleftrightarrow> jd_awaits d \<noteq> Some [] \<and> (\<forall>s \<in> set (slotsOf d). no_hollow (sl_definition s))"
  by pat_completeness auto
termination by (relation "measure size") (auto dest: size_slot_definition)

declare no_hollow.simps [simp del]

lemma slot_of_declaration:
  assumes "s \<in> set (slotsOf d)"
  obtains aw name decl where "jd_awaits d = Some aw" "(name, decl) \<in> set aw" "s = read_slot (name, decl)"
  using assms by (cases "jd_awaits d") (auto simp: slotsOf_def awaits_of_def)

text \<open>The definitions of a flow: its own, and those of its slots at every level.\<close>

inductive takes_part :: "job_definition \<Rightarrow> job_definition \<Rightarrow> bool" where
  itself: "takes_part d d"
| below: "s \<in> set (slotsOf d) \<Longrightarrow> takes_part (sl_definition s) d' \<Longrightarrow> takes_part d d'"

text \<open>
  The refusals that are about one payload, whatever flow it is in: its schema has issues
  with it, its delivery cannot be resolved, or declares uniqueness.
\<close>

definition refuses_payload :: "job_definition \<Rightarrow> jval \<Rightarrow> thrown \<Rightarrow> bool" where
  "refuses_payload d v e \<longleftrightarrow>
     (\<exists>issues. jd_payload d v = Issues issues \<and> e = PayloadError (jd_name d) issues) \<or>
     (\<exists>w. jd_payload d v = Value w \<and>
        (resolveDelivery d w = Inl e \<or> (\<exists>dl. resolveDelivery d w = Inr dl \<and> dl_unique dl \<noteq> None \<and> e = flowUnique d)))"

text \<open>No type of a payload admits \<open>undefined\<close> or an array.\<close>

definition single_payloads :: "(job_definition \<Rightarrow> jval \<Rightarrow> bool) \<Rightarrow> bool" where
  "single_payloads pay \<longleftrightarrow> (\<forall>d v. pay d v \<longrightarrow> v \<noteq> JUndefined \<and> \<not> is_array v)"

definition typed_awaits :: "(job_definition \<Rightarrow> jval \<Rightarrow> bool) \<Rightarrow> job_definition \<Rightarrow> jval \<Rightarrow> bool" where
  "typed_awaits pay d v \<longleftrightarrow>
     (slotsOf d \<noteq> [] \<longrightarrow> isRecord v) \<and>
     (\<forall>(name, decl) \<in> set (awaits_of d). SlotInputs pay decl (get_prop v name))"

lemma SlotInput_single:
  assumes "SlotInput pay d v" and "single_payloads pay"
  shows "v \<noteq> JUndefined \<and> \<not> is_array v"
proof (cases "jd_awaits d")
  case None
  with assms(1) have "pay d v" by (simp add: SlotInput.simps [of pay d])
  with assms(2) show ?thesis unfolding single_payloads_def by blast
next
  case (Some aw)
  with assms(1) have "isRecord v" by (simp add: SlotInput.simps [of pay d])
  then show ?thesis by (cases v) simp_all
qed

lemma typed_slot:
  assumes "typed_awaits pay d v" and "s \<in> set (slotsOf d)"
  obtains name decl where "s = read_slot (name, decl)" "SlotInputs pay decl (get_prop v (sl_name s))"
proof -
  from assms(2) obtain name decl where "(name, decl) \<in> set (awaits_of d)" and s: "s = read_slot (name, decl)"
    by (auto simp: slotsOf_def)
  moreover have "sl_name (read_slot (name, decl)) = name" by (cases decl) simp_all
  ultimately show thesis using assms(1) by (intro that [OF s]) (auto simp: typed_awaits_def)
qed

text \<open>What a slot is given by its type is no input of another shape.\<close>

lemma typed_input_accepted:
  assumes "typed_awaits pay d v" and "single_payloads pay"
  shows "\<exists>filled. assertAwaitsInput d v = Inr filled \<and> (slotsOf d \<noteq> [] \<longrightarrow> filled = v)"
proof -
  have "get_prop v (sl_name s) \<noteq> JUndefined \<and> sl_many s = is_array (get_prop v (sl_name s))" if s: "s \<in> set (slotsOf d)" for s
  proof -
    obtain name decl where "s = read_slot (name, decl)" "SlotInputs pay decl (get_prop v (sl_name s))"
      using typed_slot [OF assms(1) s] .
    with SlotInput_single [OF _ assms(2)] show ?thesis
      by (cases decl) (auto split: jval.splits)
  qed
  with assms(1) show ?thesis
    by (cases "slotsOf d = []") (simp_all add: assertAwaitsInput_ok typed_awaits_def)
qed

definition payload_refused :: "(job_definition \<Rightarrow> jval \<Rightarrow> bool) \<Rightarrow> job_definition \<Rightarrow> thrown \<Rightarrow> bool" where
  "payload_refused pay d e \<longleftrightarrow> (\<exists>d' v. takes_part d d' \<and> pay d' v \<and> refuses_payload d' v e)"

lemma payload_refused_below: "s \<in> set (slotsOf d) \<Longrightarrow> payload_refused pay (sl_definition s) e \<Longrightarrow> payload_refused pay d e"
  unfolding payload_refused_def by (blast intro: takes_part.below)

lemma mapE_Inl: "mapE f xs = Inl e \<Longrightarrow> \<exists>x \<in> set xs. f x = Inl e"
  by (induction xs) (auto split: sum.splits)

lemma composeFlow_Inl:
  assumes "composeFlow d data awaits = Inl e" and "assertAwaitsInput d awaits = Inr filled" and "pay d data"
  shows "payload_refused pay d e \<or>
    (\<exists>validated dl s. validatePayload d data = Inr validated \<and> resolveDelivery d validated = Inr dl \<and> dl_unique dl = None \<and>
      s \<in> set (slotsOf d) \<and> composeSlot s filled = Inl e)"
proof -
  have own: "refuses_payload d data e \<Longrightarrow> payload_refused pay d e"
    unfolding payload_refused_def using assms(3) takes_part.itself by blast
  show ?thesis
  proof (cases "jd_payload d data")
    case (Issues issues)
    with assms(1,2) own show ?thesis
      by (auto simp: composeFlow.simps [of d] validatePayload_def refuses_payload_def)
  next
    case (Value w)
    then have valid: "validatePayload d data = Inr w" by (simp add: validatePayload_Inr_iff)
    show ?thesis
    proof (cases "\<exists>dl. resolveDelivery d w = Inr dl \<and> dl_unique dl = None")
      case True
      then obtain dl where dl: "resolveDelivery d w = Inr dl" "dl_unique dl = None" by blast
      with assms(1,2) valid obtain s where "s \<in> set (slotsOf d)" "composeSlot s filled = Inl e"
        by (auto simp: composeFlow.simps [of d] bindE_Inl_iff dest: mapE_Inl split: sum.splits)
      with valid dl show ?thesis by blast
    next
      case False
      with assms(1,2) valid Value own show ?thesis
        by (cases "resolveDelivery d w") (auto simp: composeFlow.simps [of d] refuses_payload_def)
    qed
  qed
qed

lemma typed_flow_refused:
  "composeFlow d data awaits = Inl e \<Longrightarrow> pay d data \<Longrightarrow> typed_awaits pay d awaits \<Longrightarrow> no_hollow d \<Longrightarrow>
     single_payloads pay \<Longrightarrow> payload_refused pay d e"
  "composeSlot s awaits' = Inl e \<Longrightarrow> s = read_slot (name, decl) \<Longrightarrow> SlotInputs pay decl (get_prop awaits' (sl_name s)) \<Longrightarrow>
     no_hollow (sl_definition s) \<Longrightarrow> single_payloads pay \<Longrightarrow> payload_refused pay (sl_definition s) e"
  "composeChild t given = Inl e \<Longrightarrow> SlotInput pay (sl_definition t) given \<Longrightarrow> no_hollow (sl_definition t) \<Longrightarrow>
     single_payloads pay \<Longrightarrow> payload_refused pay (sl_definition t) e"
proof (induction d data awaits and s awaits' and t given arbitrary: e and e name decl and e
    rule: composeFlow_composeSlot_composeChild.induct)
  case (1 d data awaits)
  obtain filled where filled: "assertAwaitsInput d awaits = Inr filled" "slotsOf d \<noteq> [] \<longrightarrow> filled = awaits"
    using typed_input_accepted [OF "1.prems"(3,5)] by blast
  from composeFlow_Inl [where pay = pay, OF "1.prems"(1) filled(1) "1.prems"(2)] show ?case
  proof (elim disjE exE conjE)
    fix validated dl s
    assume at: "validatePayload d data = Inr validated" "resolveDelivery d validated = Inr dl" "dl_unique dl = None"
      and s: "s \<in> set (slotsOf d)" and refused: "composeSlot s filled = Inl e"
    from s filled(2) have "filled = awaits" by auto
    obtain name decl where decl: "s = read_slot (name, decl)" "SlotInputs pay decl (get_prop awaits (sl_name s))"
      using typed_slot [OF "1.prems"(3) s] .
    have "no_hollow (sl_definition s)" using "1.prems"(4) s by (simp add: no_hollow.simps [of d])
    then have "payload_refused pay (sl_definition s) e"
      using "1.IH" [OF filled(1) at(1,2) _ s] at(3) refused decl "1.prems"(5) \<open>filled = awaits\<close> by blast
    with s show "payload_refused pay d e" by (rule payload_refused_below)
  qed
next
  case (2 s awaits)
  show ?case
  proof (cases decl)
    case (Many d)
    with "2.prems"(2,3) obtain many where many: "get_prop awaits (sl_name s) = JArr many" "sl_many s"
      "\<forall>one \<in> set many. SlotInput pay (sl_definition s) one"
      by (auto split: jval.splits)
    with "2.prems"(1) obtain one where one: "one \<in> set many" "composeChild s one = Inl e"
      by (auto simp: composeSlot.simps [of s] dest: mapE_Inl)
    with many show ?thesis using "2.IH"(2) [OF refl _ many(1) one(1) one(2)] "2.prems"(4,5) by simp
  next
    case (One d)
    with "2.prems"(2,3) have one: "\<not> sl_many s" "SlotInput pay (sl_definition s) (get_prop awaits (sl_name s))"
      by simp_all
    with "2.prems"(1) have "composeChild s (get_prop awaits (sl_name s)) = Inl e"
      by (auto simp: composeSlot.simps [of s] split: sum.splits)
    then show ?thesis using "2.IH"(1) [OF refl one(1)] one(2) "2.prems"(4,5) by simp
  qed
next
  case (3 t given)
  let ?d = "sl_definition t"
  from "3.prems"(1) have refused: "composeFlow ?d (fst (childInput t given)) (snd (childInput t given)) = Inl e"
    by (auto simp: composeChild.simps bindE_Inl_iff)
  have "pay ?d (fst (childInput t given)) \<and> typed_awaits pay ?d (snd (childInput t given))"
  proof (cases "jd_awaits ?d")
    case None
    with "3.prems"(2) show ?thesis
      by (simp add: SlotInput.simps [of pay ?d] childInput_def typed_awaits_def slotsOf_def awaits_of_def)
  next
    case (Some aw)
    with "3.prems"(3) have "slotsOf ?d \<noteq> []" by (auto simp: no_hollow.simps [of ?d] slotsOf_def awaits_of_def)
    with "3.prems"(2) Some show ?thesis
      by (simp add: SlotInput.simps [of pay ?d] childInput_def typed_awaits_def awaits_of_def)
  qed
  with refused "3.IH" "3.prems"(3,4) show ?case by blast
qed

text \<open>
  C31: an enqueue of a flow that the declared types accept is never refused for its shape:
  it composes, or it is refused for a payload of the declared type of one definition of
  the flow, which the schema of that definition has issues with, or whose delivery cannot
  be resolved, or declares uniqueness. This is so where no definition of the flow declares
  an empty \<open>awaits\<close> and no type of a payload admits \<open>undefined\<close> or an array.
\<close>

theorem typed_enqueue_composes:
  assumes "pay d data" and "EnqueueAwaits pay d arguments" and "no_hollow d" and "single_payloads pay"
  shows "case composeFlow d data (passed arguments) of
      Inr node \<Rightarrow> True
    | Inl e \<Rightarrow> \<exists>d' v. takes_part d d' \<and> pay d' v \<and> refuses_payload d' v e"
proof -
  have "typed_awaits pay d (passed arguments)"
  proof (cases "jd_awaits d")
    case None
    then show ?thesis by (simp add: typed_awaits_def slotsOf_def awaits_of_def)
  next
    case (Some aw)
    with assms(3) have "aw \<noteq> []" by (auto simp: no_hollow.simps [of d])
    with assms(2) Some show ?thesis
      by (auto simp: EnqueueAwaits_def typed_awaits_def awaits_of_def passed_def split: list.splits)
  qed
  with typed_flow_refused(1) [OF _ assms(1) _ assms(3,4)] show ?thesis
    by (auto simp: payload_refused_def split: sum.split)
qed

definition text_payload :: "job_definition \<Rightarrow> jval \<Rightarrow> bool" where
  "text_payload d v \<longleftrightarrow> (d = mail_job \<or> d = digest_job) \<and> (\<exists>text. v = JStr text)"

lemma any_payload_taken: "\<not> refuses_payload mail_job v e" "\<not> refuses_payload digest_job v e"
  by (simp_all add: refuses_payload_def mail_job_def digest_job_def any_payload_def resolveDelivery_def
      resolve_def delivery_defaults_for_def DELIVERY_DEFAULTS_def)

theorem typed_enqueue_composes_witness:
  "\<exists>node. composeFlow digest_job (JStr ''d'')
    (passed [JObj [(''head'', JStr ''h''), (''rows'', JArr [JStr ''a'', JStr ''b''])]]) = Inr node"
proof -
  have "jd_awaits mail_job = None" by (simp add: mail_job_def)
  then have "EnqueueAwaits text_payload digest_job [JObj [(''head'', JStr ''h''), (''rows'', JArr [JStr ''a'', JStr ''b''])]]"
    by (simp add: EnqueueAwaits_def SlotInput.simps text_payload_def digest_job_def)
  moreover have "no_hollow digest_job"
    by (simp add: no_hollow.simps [of digest_job] no_hollow.simps [of mail_job] digest_slots mail_slots)
      (simp add: digest_job_def mail_job_def)
  moreover have "text_payload digest_job (JStr ''d'')" "single_payloads text_payload"
    by (auto simp: single_payloads_def text_payload_def)
  ultimately have "case composeFlow digest_job (JStr ''d'')
      (passed [JObj [(''head'', JStr ''h''), (''rows'', JArr [JStr ''a'', JStr ''b''])]]) of
      Inr node \<Rightarrow> True
    | Inl e \<Rightarrow> \<exists>d' v. takes_part digest_job d' \<and> text_payload d' v \<and> refuses_payload d' v e"
    by (intro typed_enqueue_composes) simp_all
  then show ?thesis
    using any_payload_taken by (auto simp: text_payload_def split: sum.splits)
qed

section \<open>What a handler is given\<close>

text \<open>
  \<open>out d\<close> is the output the result schema of \<open>d\<close> infers. The value of a child is of
  that type when its definition declares a result, and of any type when it does not.
\<close>

definition ResultOf :: "(job_definition \<Rightarrow> jval \<Rightarrow> bool) \<Rightarrow> job_definition \<Rightarrow> jval \<Rightarrow> bool" where
  "ResultOf out d v \<longleftrightarrow> (case jd_result d of None \<Rightarrow> True | Some result \<Rightarrow> out d v)"

fun slot_children :: "(job_definition \<Rightarrow> jval \<Rightarrow> bool) \<Rightarrow> slot_declaration \<Rightarrow> jval \<Rightarrow> bool" where
  "slot_children out (Many d) v \<longleftrightarrow> (case v of JArr results \<Rightarrow> \<forall>r \<in> set results. ResultOf out d r | _ \<Rightarrow> False)"
| "slot_children out (One d) v \<longleftrightarrow> ResultOf out d v"

definition Children :: "(job_definition \<Rightarrow> jval \<Rightarrow> bool) \<Rightarrow> job_definition \<Rightarrow> (string \<times> jval) list \<Rightarrow> bool" where
  "Children out d children \<longleftrightarrow>
     list_all2 (\<lambda>(name, decl) (slot, v). slot = name \<and> slot_children out decl v) (awaits_of d) children"

definition infers_outputs :: "(job_definition \<Rightarrow> jval \<Rightarrow> bool) \<Rightarrow> job_definition \<Rightarrow> bool" where
  "infers_outputs out d \<longleftrightarrow>
     (\<forall>result stored v. jd_result d = Some result \<and> result stored = Value v \<longrightarrow> out d v)"

lemma validated_result_typed:
  "validateResult d stored = Inr v \<Longrightarrow> infers_outputs out d \<Longrightarrow> ResultOf out d v"
  by (auto simp: validateResult_def ResultOf_def infers_outputs_def split: option.splits schema_result.splits)

lemma validated_results_typed:
  assumes "list_all2 (\<lambda>r v. validateResult d (cr_value r) = Inr v) results values" and "infers_outputs out d"
  shows "\<forall>v \<in> set values. ResultOf out d v"
  using assms(1) by (induction rule: list_all2_induct) (auto intro: validated_result_typed assms(2))

text \<open>The envelope of a composed flow records one child for a slot that waits on one.\<close>

lemma one_slot_expects_one:
  assumes "composeFlow d data awaits = Inr node" and "distinct (map sl_name (slotsOf d))"
    and "s \<in> set (slotsOf d)" and "\<not> sl_many s"
  shows "expectedIn (env_slots (fn_envelope node)) (sl_name s) = Some 1"
proof -
  from assms(1) obtain filled validated dl composing where
    composed: "list_all2 (\<lambda>s nodes. composeSlot s filled = Inr nodes) (slotsOf d) composing"
      "node = composed_node d data dl composing" by (rule composeFlow_Inr) blast
  from assms(3) obtain n where n: "n < length (slotsOf d)" "slotsOf d ! n = s" by (auto simp: in_set_conv_nth)
  with composed(1) have "Inr (composing ! n) = composeSlot s filled" by (auto dest: list_all2_nthD)
  with assms(4) have one: "length (composing ! n) = 1" by (auto simp: composeSlot.simps split: sum.splits)
  let ?counts = "zip (map sl_name (slotsOf d)) (map (\<lambda>nodes. int (length nodes)) composing)"
  have lengths: "length composing = length (slotsOf d)" using composed(1) by (simp add: list_all2_lengthD)
  then have "map_of ?counts (map sl_name (slotsOf d) ! n) = Some (map (\<lambda>nodes. int (length nodes)) composing ! n)"
    using assms(2) n(1) by (intro map_of_zip_nth) simp_all
  then have "map_of ?counts (sl_name s) = Some 1" using n lengths one by simp
  moreover have "env_slots (fn_envelope node) = Some ?counts"
    using composed(2) lengths n(1) by (auto simp: composed_node_def Let_def)
  ultimately show ?thesis by (simp add: expectedIn_def)
qed

lemma settled_slot_typed:
  assumes "list_all2 (\<lambda>r v. validateResult (sl_definition s) (cr_value r) = Inr v)
      (filter (\<lambda>r. cr_slot r = sl_name s) (fs_results state)) values"
    and "infers_outputs out (sl_definition s)" and "\<not> sl_many s \<Longrightarrow> 1 \<le> arrivedIn state (sl_name s)"
    and "s = read_slot (name, decl)"
  shows "slot_children out decl (if sl_many s then JArr values else (case values of [] \<Rightarrow> JUndefined | v # vs \<Rightarrow> v))"
proof -
  note typed = validated_results_typed [OF assms(1,2)]
  have "length values = arrivedIn state (sl_name s)"
    using assms(1) by (simp add: arrivedIn_def list_all2_lengthD)
  with assms(3) have "\<not> sl_many s \<Longrightarrow> values \<noteq> []" by auto
  with typed show ?thesis by (cases decl) (auto simp: assms(4) split: list.split)
qed

text \<open>
  C32: what the compiler promises a handler of its children is what it is given: once
  the children of a composed flow settled, every slot holds, in the order they were
  declared, an array of results for a slot that waits on many and one result for a slot
  that waits on one, each an output of the schema its definition declares.
\<close>

theorem children_inhabit_their_type:
  assumes "composeFlow d data awaits = Inr node" and "distinct (map sl_name (slotsOf d))"
    and "settledChildren d (stored_envelope (fn_envelope node)) state = Inr children"
    and "\<forall>s \<in> set (slotsOf d). infers_outputs out (sl_definition s)"
  shows "Children out d children"
proof -
  from assms(3) have read: "childrenOf d state = Inr children"
    and arrived: "\<And>s. s \<in> set (slotsOf d) \<Longrightarrow>
      \<exists>n. expectedIn (env_slots (fn_envelope node)) (sl_name s) = Some n \<and> n \<le> int (arrivedIn state (sl_name s))"
    by (auto simp: settledChildren_Inr_iff stored_envelope_def)
  have "list_all2 (\<lambda>p entry. fst entry = sl_name (read_slot p) \<and>
       (\<exists>values. list_all2 (\<lambda>r v. validateResult (sl_definition (read_slot p)) (cr_value r) = Inr v)
            (filter (\<lambda>r. cr_slot r = sl_name (read_slot p)) (fs_results state)) values \<and>
          snd entry = (if sl_many (read_slot p) then JArr values
                       else (case values of [] \<Rightarrow> JUndefined | v # vs \<Rightarrow> v)))) (awaits_of d) children"
    using read unfolding childrenOf_Inr_iff slotsOf_def list_all2_map1 .
  then show ?thesis
    unfolding Children_def
  proof (rule list.rel_mono_strong)
    fix p entry assume "p \<in> set (awaits_of d)"
      and given: "fst entry = sl_name (read_slot p) \<and>
       (\<exists>values. list_all2 (\<lambda>r v. validateResult (sl_definition (read_slot p)) (cr_value r) = Inr v)
            (filter (\<lambda>r. cr_slot r = sl_name (read_slot p)) (fs_results state)) values \<and>
          snd entry = (if sl_many (read_slot p) then JArr values
                       else (case values of [] \<Rightarrow> JUndefined | v # vs \<Rightarrow> v)))"
    then have s: "read_slot p \<in> set (slotsOf d)" by (simp add: slotsOf_def)
    have one: "1 \<le> arrivedIn state (sl_name (read_slot p))" if "\<not> sl_many (read_slot p)"
      using arrived [OF s] one_slot_expects_one [OF assms(1,2) s that] by auto
    from given obtain outs where outs: "list_all2 (\<lambda>r v. validateResult (sl_definition (read_slot p)) (cr_value r) = Inr v)
        (filter (\<lambda>r. cr_slot r = sl_name (read_slot p)) (fs_results state)) outs"
      "snd entry = (if sl_many (read_slot p) then JArr outs else (case outs of [] \<Rightarrow> JUndefined | v # vs \<Rightarrow> v))"
      by blast
    have "infers_outputs out (sl_definition (read_slot p))" using assms(4) s by blast
    note settled_slot_typed [OF outs(1) this one, of "fst p" "snd p", unfolded prod.collapse, OF _ refl]
    then have "slot_children out (snd p) (snd entry)" unfolding outs(2) by blast
    with given show "(\<lambda>(name, decl) (slot, v). slot = name \<and> slot_children out decl v) p entry"
      by (cases p; cases entry) simp
  qed
qed

text \<open>A flow over children that return numbers.\<close>

definition count_result :: schema where
  "count_result v = (case v of JNum n \<Rightarrow> Value v | _ \<Rightarrow> Issues [\<lparr>is_message = ''not a number'', is_path = None\<rparr>])"

definition count_job :: job_definition where
  "count_job = JobDefinition ''count'' ''post'' any_payload (Some count_result) None None None None None None None"

definition sum_job :: job_definition where
  "sum_job = JobDefinition ''sum'' ''post'' any_payload None
     (Some [(''first'', One count_job), (''rest'', Many count_job)]) None None None None None None"

definition sum_state :: flow_state where
  "sum_state = \<lparr>fs_results = [\<lparr>cr_slot = ''rest'', cr_value = JNum (JFin 2)\<rparr>, \<lparr>cr_slot = ''first'', cr_value = JNum (JFin 1)\<rparr>],
     fs_failures = [], fs_pending = JFin 0\<rparr>"

lemma sum_slots:
  "slotsOf sum_job = [\<lparr>sl_name = ''first'', sl_definition = count_job, sl_many = False\<rparr>,
     \<lparr>sl_name = ''rest'', sl_definition = count_job, sl_many = True\<rparr>]"
  "slotsOf count_job = []"
  by (simp_all add: sum_job_def count_job_def slotsOf_def awaits_of_def)

definition number_result :: "job_definition \<Rightarrow> jval \<Rightarrow> bool" where
  "number_result d v \<longleftrightarrow> js_typeof v = ''number''"

theorem children_inhabit_their_type_witness:
  "Children number_result sum_job [(''first'', JNum (JFin 1)), (''rest'', JArr [JNum (JFin 2)])]"
proof -
  let ?awaits = "JObj [(''first'', JStr ''a''), (''rest'', JArr [JStr ''b''])]"
  have taken: "takes_payload count_job v" "takes_payload sum_job v" for v
    by (simp_all add: takes_payload_def count_job_def sum_job_def validatePayload_def any_payload_def resolveDelivery_def
        resolve_def delivery_defaults_for_def DELIVERY_DEFAULTS_def)
  have "well_filled sum_job JNull ?awaits"
    by (simp add: well_filled.simps [of sum_job] slot_filled.simps child_filled.simps childInput_def
        well_filled.simps [of count_job] sum_slots taken)
  then obtain node where node: "composeFlow sum_job JNull ?awaits = Inr node"
    using composes_iff_filled_aux(1) by blast
  from node obtain filled validated dl composing where
    composed: "list_all2 (\<lambda>s nodes. composeSlot s filled = Inr nodes) (slotsOf sum_job) composing"
      "assertAwaitsInput sum_job ?awaits = Inr filled" "node = composed_node sum_job JNull dl composing"
    by (rule composeFlow_Inr) blast
  from composed(2) have "filled = ?awaits" by (simp add: assertAwaitsInput_ok sum_slots)
  with composed(1,3) have "env_slots (fn_envelope node) = Some [(''first'', 1), (''rest'', 1)]"
    by (auto simp: sum_slots list_all2_Cons1 composeSlot.simps composed_node_def Let_def split: sum.splits)
  then have "settledChildren sum_job (stored_envelope (fn_envelope node)) sum_state =
      Inr [(''first'', JNum (JFin 1)), (''rest'', JArr [JNum (JFin 2)])]"
    by (simp add: settledChildren_def childrenShort_def childrenOf_def sum_slots sum_state_def expectedIn_def
        arrivedIn_def stored_envelope_def validateResult_def count_job_def count_result_def)
  moreover have "infers_outputs number_result count_job"
    by (auto simp: infers_outputs_def count_job_def count_result_def number_result_def split: jval.splits)
  ultimately show ?thesis
    using children_inhabit_their_type [OF node] by (simp add: sum_slots)
qed

section \<open>Where the types and the rule part\<close>

text \<open>
  A slot that waits on exactly one takes, by its type, whatever its payload is; the
  enqueue refuses a payload that is an array, as a slot filled with many.
\<close>

theorem array_payload_is_refused:
  "SlotInputs pay (One mail_job) (JArr vs) \<longleftrightarrow> pay mail_job (JArr vs)"
  "\<not> (\<exists>node. composeFlow digest_job data (JObj [(''head'', JArr vs), (''rows'', JArr [])]) = Inr node)"
proof -
  have "jd_awaits mail_job = None" by (simp add: mail_job_def)
  then show "SlotInputs pay (One mail_job) (JArr vs) \<longleftrightarrow> pay mail_job (JArr vs)"
    by (simp add: SlotInput.simps)
  show "\<not> (\<exists>node. composeFlow digest_job data (JObj [(''head'', JArr vs), (''rows'', JArr [])]) = Inr node)"
    unfolding composes_iff_filled_aux(1)
    by (simp add: well_filled.simps [of digest_job] digest_slots slot_filled.simps)
qed

text \<open>
  A child whose definition declares an empty \<open>awaits\<close> waits on nothing, so the enqueue
  reads what fills its slot as its payload; its type asks for \<open>{ data, awaits }\<close> there.
\<close>

definition hollow_job :: job_definition where
  "hollow_job = JobDefinition ''hollow'' ''post'' any_payload None (Some []) None None None None None None"

theorem hollow_child_is_given_the_wrapper:
  "SlotInput pay hollow_job v \<longleftrightarrow> isRecord v \<and> pay hollow_job (get_prop v ''data'') \<and> isRecord (get_prop v ''awaits'')"
  "childInput \<lparr>sl_name = ''head'', sl_definition = hollow_job, sl_many = False\<rparr> v = (v, JUndefined)"
  by (simp_all add: SlotInput.simps hollow_job_def childInput_def slotsOf_def awaits_of_def)

end
