(* ===== verification/Board.thy ===== *)
theory Board
  imports Samples
begin

text \<open>
  The queues a dashboard shows (\<open>src/src/dashboard/Board.ts\<close>). A failed import of a
  peer is a value with or without a \<open>code\<close>.
\<close>

record board_config =
  bc_definitions :: "job_definition list"
  bc_deadQueues :: "string list option"
  bc_readOnly :: "bool option"

record board_queue =
  bd_name :: string
  bd_readOnly :: bool
  bd_description :: string

definition LIVE_READ_ONLY :: string where
  "LIVE_READ_ONLY =
     ''Read only. The board's write buttons are gone on purpose: '' @ quoted ''Add job'' @
     '' stores what you type as the job's data, which a worker reads as an envelope, so the '' @
     ''delivery fails before a handler is chosen and no hook reports it'' @ dash @
     ''there is no job name to report one under; and a jubs.* scheduler edited or removed here '' @
     ''is written back on the next boot of any process that starts this queue. Retry a job with '' @
     ''jobs.retry(id), stop one with jobs.cancel(id), and hold the whole queue with '' @
     ''jobs.pause(queue) and jobs.resume(queue). Pass readOnly: false to the dashboard to take '' @
     ''the buttons back.''"

definition LIVE_WRITABLE :: string where
  "LIVE_WRITABLE =
     ''Writable, because this dashboard was given readOnly: false. Two of these buttons act on a '' @
     ''job jubs still owns. '' @ quoted ''Add job'' @
     '' stores what you type as the job's data, which a worker reads as an envelope, so the '' @
     ''delivery fails before a handler is chosen and no hook reports it'' @ dash @
     ''there is no job name to report one under. And a jubs.* scheduler edited or removed here is '' @
     ''written back on the next boot of any process that starts this queue, so the change looks '' @
     ''applied and is not.''"

definition dead_board_queue :: "string \<Rightarrow> board_queue" where
  "dead_board_queue queue =
     \<lparr>bd_name = deadQueueName queue, bd_readOnly = True,
      bd_description = ''Jobs buried out of '' @ quoted queue @
        ''. Read only, because nothing consumes this queue: replay an entry with '' @
        ''jobs.dead.replay(id), and drop one with jobs.dead.discard(id).''\<rparr>"

definition live_board_queue :: "bool \<Rightarrow> string \<Rightarrow> board_queue" where
  "live_board_queue readOnly name =
     \<lparr>bd_name = name, bd_readOnly = readOnly,
      bd_description = (if readOnly then LIVE_READ_ONLY else LIVE_WRITABLE)\<rparr>"

text \<open>\<open>config.deadQueues ?? []\<close>, and the stray one that \<open>if (stray)\<close> takes for true.\<close>

definition given_dead :: "board_config \<Rightarrow> string list" where
  "given_dead config = (case bc_deadQueues config of None \<Rightarrow> [] | Some qs \<Rightarrow> qs)"

definition stray_dead :: "string list \<Rightarrow> string list \<Rightarrow> string option" where
  "stray_dead live given =
     (case find (\<lambda>q. q \<notin> set live) given of
        None \<Rightarrow> None
      | Some stray \<Rightarrow> if stray = [] then None else Some stray)"

definition noDefinitions :: "thrown" where
  "noDefinitions =
     new_error C_Error
       (''jubs: the dashboard was given no definitions, so the board would open with no queue '' @ ''at all'' @
        dash @ ''it shows the queues of the definitions you registered, and it takes a queue name '' @
        ''from nowhere else. Pass mountDashboard, expressDashboard or fastifyDashboard the '' @
        ''same `definitions` list you gave createJobs.'')"

definition strayDeadQueue :: "string \<Rightarrow> string list \<Rightarrow> thrown" where
  "strayDeadQueue stray live =
     new_error C_Error
       (''jubs: the dashboard was given the dead queue '' @ quoted stray @
        '', which no definition it was given uses'' @ dash @ ''the queues its definitions use are '' @
        join '', '' (map quoted live) @
        ''. Nothing was opened: the board opens a Queue for every name it is given, and '' @
        ''opening one writes bull:'' @ deadQueueName stray @ '':meta to Redis for good.'')"

definition boardQueues :: "board_config \<Rightarrow> thrown + board_queue list" where
  "boardQueues config =
     (let live = uniq (map jd_queue (bc_definitions config)) in
      if live = [] then Inl noDefinitions
      else (case stray_dead live (given_dead config) of
        Some stray \<Rightarrow> Inl (strayDeadQueue stray live)
      | None \<Rightarrow>
          let dead = map dead_board_queue (uniq (given_dead config));
              readOnly = (case bc_readOnly config of None \<Rightarrow> True | Some b \<Rightarrow> b);
              buried = set (map bd_name dead)
          in Inr (map (live_board_queue readOnly) (filter (\<lambda>name. name \<notin> buried) live) @ dead)))"

definition isModuleMissing :: "jval \<Rightarrow> bool" where
  "isModuleMissing e \<longleftrightarrow>
     is_objectlike e \<and> has_prop e ''code'' \<and>
     (get_prop e ''code'' = JStr ''ERR_MODULE_NOT_FOUND'' \<or> get_prop e ''code'' = JStr ''MODULE_NOT_FOUND'')"

definition BOARD_API :: string where
  "BOARD_API = ''@bull-board/api''"

text \<open>The failure as it was, or the instruction in its place.\<close>

definition peerFailure :: "jval \<Rightarrow> string \<Rightarrow> jval + thrown" where
  "peerFailure e peer =
     (if \<not> isModuleMissing e then Inl e
      else let install = (if peer = BOARD_API then BOARD_API else BOARD_API @ '' '' @ peer)
           in Inr (new_error C_Error
       (''jubs: @juicerq/jubs/dashboard needs '' @ quoted peer @
        '', which is an optional peer and is not installed'' @ dash @ ''run `npm install '' @ install @ ''`'')))"

definition loaded :: "string \<Rightarrow> jval + 'm \<Rightarrow> (jval + thrown) + 'm" where
  "loaded peer loading = (case loading of Inr m \<Rightarrow> Inr m | Inl e \<Rightarrow> Inl (peerFailure e peer))"

section \<open>What a board shows\<close>

lemma stray_dead_None:
  "stray_dead live given = None \<Longrightarrow> [] \<notin> set given \<Longrightarrow> set given \<subseteq> set live"
  by (auto simp: stray_dead_def find_None_iff split: option.splits if_splits dest: find_Some_in)

lemma boardQueues_Inr:
  assumes "boardQueues config = Inr qs"
  shows "distinct (map bd_name qs)"
    and "\<forall>d \<in> set (given_dead config). dead_board_queue d \<in> set qs"
    and "set (map bd_name qs) = jd_queue ` set (bc_definitions config) \<union> deadQueueName ` set (given_dead config)"
    and "\<forall>q \<in> set qs. bd_name q \<in> deadQueueName ` set (given_dead config) \<longrightarrow> bd_readOnly q"
proof -
  define live where "live = uniq (map jd_queue (bc_definitions config))"
  define dead where "dead = map dead_board_queue (uniq (given_dead config))"
  define ro where "ro = (case bc_readOnly config of None \<Rightarrow> True | Some b \<Rightarrow> b)"
  have qs: "qs = map (live_board_queue ro) (filter (\<lambda>name. name \<notin> set (map bd_name dead)) live) @ dead"
    using assms unfolding boardQueues_def Let_def live_def [symmetric] dead_def [symmetric] ro_def [symmetric]
    by (simp split: option.splits if_splits)
  have names: "map bd_name dead = map deadQueueName (uniq (given_dead config))"
    by (simp add: dead_def dead_board_queue_def)
  have all: "map bd_name qs = filter (\<lambda>name. name \<notin> set (map bd_name dead)) live @ map bd_name dead"
    by (simp add: qs o_def live_board_queue_def)
  have "distinct (map bd_name dead)"
    by (simp add: names distinct_map inj_on_def)
  moreover have "distinct live" by (simp add: live_def)
  ultimately show "distinct (map bd_name qs)" unfolding all by auto
  show "set (map bd_name qs) = jd_queue ` set (bc_definitions config) \<union> deadQueueName ` set (given_dead config)"
    unfolding all names by (auto simp: live_def)
  show "\<forall>d \<in> set (given_dead config). dead_board_queue d \<in> set qs"
    by (simp add: qs dead_def)
  show "\<forall>q \<in> set qs. bd_name q \<in> deadQueueName ` set (given_dead config) \<longrightarrow> bd_readOnly q"
    by (auto simp: qs names live_board_queue_def) (auto simp: dead_def dead_board_queue_def)
qed

text \<open>
  A board shows every queue of its definitions and every dead queue it was given, each
  once and no other, and a dead queue is read only whatever the rest of the board is.
\<close>

theorem board_shows_each_queue_once:
  assumes "boardQueues config = Inr qs"
  shows "distinct (map bd_name qs) \<and>
    set (map bd_name qs) = jd_queue ` set (bc_definitions config) \<union> deadQueueName ` set (given_dead config) \<and>
    (\<forall>q \<in> set qs. bd_name q \<in> deadQueueName ` set (given_dead config) \<longrightarrow> bd_readOnly q)"
  using boardQueues_Inr [OF assms] by blast

end
