(* ===== verification/Dashboard.thy ===== *)
theory Dashboard
  imports Board Drivers Deliveries "HOL-Library.Multiset"
begin

text \<open>
  Mounting the board (\<open>src/src/dashboard/index.ts\<close>) over the queues of \<open>Board\<close>. The
  Bull Board and BullMQ are packages: what their imports give is a parameter, a failed
  import a value that was thrown; their state is the state the operations act on. Shown
  here: what a mounted board was built over and in which order, and that a refused one
  opened nothing.
\<close>

section \<open>The packages\<close>

text \<open>
  \<open>bp_api\<close> is \<open>createBullBoard\<close> over one server adapter, \<open>bp_adapter\<close> the constructor
  \<open>BullMQAdapter\<close>, and \<open>bp_Queue\<close> the constructor \<open>Queue\<close> over the connection of the
  options.
\<close>

record ('s, 'q, 'a) board_packages =
  bp_api :: "jval + ('a list \<Rightarrow> ('s, unit) io)"
  bp_adapter :: "jval + ('q \<Rightarrow> bool \<Rightarrow> string \<Rightarrow> ('s, 'a) io)"
  bp_Queue :: "string \<Rightarrow> ('s, 'q) io"

record 's board_server =
  sv_setBasePath :: "string \<Rightarrow> ('s, unit) io"

text \<open>The adapters the library builds itself also give what an application mounts.\<close>

record ('s, 'r) framework_server = "'s board_server" +
  sv_mount :: "('s, 'r) io"

record dashboard_options = board_config +
  do_basePath :: string

section \<open>Mounting\<close>

fun as_thrown :: "(jval + thrown) + 'm \<Rightarrow> thrown + 'm" where
  "as_thrown (Inl (Inl v)) = Inl (Thrown v)"
| "as_thrown (Inl (Inr e)) = Inl e"
| "as_thrown (Inr m) = Inr m"

fun map_io :: "('a \<Rightarrow> ('s, 'b) io) \<Rightarrow> 'a list \<Rightarrow> ('s, 'b list) io" where
  "map_io f [] = ret_io []"
| "map_io f (x # xs) = bind_io (f x) (\<lambda>y. bind_io (map_io f xs) (\<lambda>ys. ret_io (y # ys)))"

definition open_adapter ::
    "('s, 'q, 'a) board_packages \<Rightarrow> ('q \<Rightarrow> bool \<Rightarrow> string \<Rightarrow> ('s, 'a) io) \<Rightarrow> board_queue \<Rightarrow> ('s, 'a) io" where
  "open_adapter packages BullMQAdapter queue =
     bind_io (bp_Queue packages (bd_name queue))
       (\<lambda>handle. BullMQAdapter handle (bd_readOnly queue) (bd_description queue))"

definition mountDashboard ::
    "('s, 'q, 'a) board_packages \<Rightarrow> 's board_server \<Rightarrow> dashboard_options \<Rightarrow> ('s, unit) io" where
  "mountDashboard packages server options =
     bind_io (lift_io (boardQueues (board_config.truncate options))) (\<lambda>queues.
     bind_io (lift_io (as_thrown (loaded BOARD_API (bp_api packages)))) (\<lambda>createBullBoard.
     bind_io (lift_io (as_thrown (loaded BOARD_API (bp_adapter packages)))) (\<lambda>BullMQAdapter.
     bind_io (map_io (open_adapter packages BullMQAdapter) queues) (\<lambda>adapters.
     bind_io (sv_setBasePath server (do_basePath options)) (\<lambda>_.
       createBullBoard adapters)))))"

definition expressDashboard ::
    "jval + ('s, ('s, 'r) framework_server) io \<Rightarrow> ('s, 'q, 'a) board_packages \<Rightarrow> dashboard_options \<Rightarrow> ('s, 'r) io" where
  "expressDashboard ExpressAdapter packages options =
     bind_io (lift_io (as_thrown (loaded ''@bull-board/express'' ExpressAdapter))) (\<lambda>build.
     bind_io build (\<lambda>server.
     bind_io (mountDashboard packages (board_server.truncate server) options) (\<lambda>_. sv_mount server)))"

definition fastifyDashboard ::
    "jval + ('s, ('s, 'r) framework_server) io \<Rightarrow> ('s, 'q, 'a) board_packages \<Rightarrow> dashboard_options \<Rightarrow> ('s, 'r) io" where
  "fastifyDashboard FastifyAdapter packages options =
     bind_io (lift_io (as_thrown (loaded ''@bull-board/fastify'' FastifyAdapter))) (\<lambda>build.
     bind_io build (\<lambda>server.
     bind_io (mountDashboard packages (board_server.truncate server) options) (\<lambda>_. sv_mount server)))"

section \<open>What a mounted board is\<close>

text \<open>
  What is relied on of the packages: \<open>opened\<close> counts the handles a state holds by the
  name of their queue, and \<open>based\<close> is the base path of the server adapter.
\<close>

definition board_laws ::
    "('s, 'q, 'a) board_packages \<Rightarrow> 's board_server \<Rightarrow> ('s \<Rightarrow> string multiset) \<Rightarrow> ('s \<Rightarrow> string option) \<Rightarrow> bool" where
  "board_laws packages server opened based \<longleftrightarrow>
     (\<forall>name s out s'. bp_Queue packages name s = (out, s') \<longrightarrow>
        opened s' = (case out of Inr q \<Rightarrow> add_mset name (opened s) | Inl e \<Rightarrow> opened s)) \<and>
     (\<forall>build q ro text s. bp_adapter packages = Inr build \<longrightarrow> opened (snd (build q ro text s)) = opened s) \<and>
     (\<forall>path s s'. sv_setBasePath server path s = (Inr (), s') \<longrightarrow> based s' = Some path \<and> opened s' = opened s)"

lemma open_adapter_opens:
  assumes "board_laws packages server opened based" and "bp_adapter packages = Inr build"
    and "open_adapter packages build queue s = (Inr a, s')"
  shows "opened s' = add_mset (bd_name queue) (opened s)"
proof -
  from assms(3) obtain q s1 where open_q: "bp_Queue packages (bd_name queue) s = (Inr q, s1)"
    and made: "build q (bd_readOnly queue) (bd_description queue) s1 = (Inr a, s')"
    by (auto simp: open_adapter_def bind_io_eq_Inr)
  have "opened s1 = add_mset (bd_name queue) (opened s)"
    using assms(1) open_q unfolding board_laws_def by fastforce
  moreover have "opened (snd (build q (bd_readOnly queue) (bd_description queue) s1)) = opened s1"
    using assms(1,2) unfolding board_laws_def by blast
  ultimately show ?thesis by (simp add: made)
qed

lemma open_adapters:
  assumes "board_laws packages server opened based" and "bp_adapter packages = Inr build"
    and "map_io (open_adapter packages build) queues s = (Inr adapters, s')"
  shows "length adapters = length queues \<and> opened s' = opened s + mset (map bd_name queues)"
  using assms(3)
proof (induction queues arbitrary: s adapters)
  case (Cons queue queues)
  from Cons.prems obtain a s1 rest where first: "open_adapter packages build queue s = (Inr a, s1)"
    and others: "map_io (open_adapter packages build) queues s1 = (Inr rest, s')" "adapters = a # rest"
    by (auto simp: bind_io_eq_Inr)
  from Cons.IH [OF others(1)] open_adapter_opens [OF assms(1,2) first] others(2) show ?case by simp
qed simp

lemma as_thrown_loaded [simp]: "as_thrown (loaded peer (Inr m)) = Inr m"
  by (simp add: loaded_def)

lemma as_thrown_loaded_Inr: "as_thrown (loaded peer loading) = Inr m \<longleftrightarrow> loading = Inr m"
  by (cases loading) (auto simp: loaded_def peerFailure_def)

text \<open>
  C34: a board that mounts opened one handle for every queue it shows and for no other,
  none twice, and was built over one adapter per queue only after its base path was
  set; whatever it was configured with, a dead queue is shown read only.
\<close>

theorem mounted_board_shows_its_queues:
  assumes "mountDashboard packages server options s = (Inr (), s')"
    and "board_laws packages server opened based"
  shows "\<exists>queues create adapters s1. boardQueues (board_config.truncate options) = Inr queues \<and>
    distinct (map bd_name queues) \<and>
    set (map bd_name queues) =
      jd_queue ` set (bc_definitions options) \<union> deadQueueName ` set (or_else (bc_deadQueues options) []) \<and>
    (\<forall>q \<in> set queues. bd_name q \<in> deadQueueName ` set (or_else (bc_deadQueues options) []) \<longrightarrow> bd_readOnly q) \<and>
    bp_api packages = Inr create \<and> create adapters s1 = (Inr (), s') \<and>
    length adapters = length queues \<and> based s1 = Some (do_basePath options) \<and>
    opened s1 = opened s + mset (map bd_name queues)"
proof -
  from assms(1) obtain queues create build adapters s0 s1 where
    queues: "boardQueues (board_config.truncate options) = Inr queues"
    and loads: "bp_api packages = Inr create" "bp_adapter packages = Inr build"
    and opened: "map_io (open_adapter packages build) queues s = (Inr adapters, s0)"
    and based: "sv_setBasePath server (do_basePath options) s0 = (Inr (), s1)"
    and created: "create adapters s1 = (Inr (), s')"
    by (auto simp: mountDashboard_def bind_io_eq_Inr lift_io_eq as_thrown_loaded_Inr simp del: bind_lift_io)
  have given: "given_dead (board_config.truncate options) = or_else (bc_deadQueues options) []"
    "bc_definitions (board_config.truncate options) = bc_definitions options"
    by (simp_all add: given_dead_def board_config.defs split: option.split)
  have "opened s1 = opened s0" "based s1 = Some (do_basePath options)"
    using assms(2) based unfolding board_laws_def by blast+
  with open_adapters [OF assms(2) loads(2) opened]
  have "length adapters = length queues" "opened s1 = opened s + mset (map bd_name queues)" by simp_all
  with boardQueues_Inr [OF queues, unfolded given] queues loads(1) created \<open>based s1 = _\<close> show ?thesis
    by (intro exI [of _ queues] exI [of _ create] exI [of _ adapters] exI [of _ s1]) simp
qed

text \<open>A recording instance of the packages: what was opened, the base path, and what is shown.\<close>

record board_log =
  bl_opened :: "string multiset"
  bl_base :: "string option"
  bl_shown :: "(string \<times> bool) list"

definition recorded_packages :: "(board_log, string, string \<times> bool) board_packages" where
  "recorded_packages =
     \<lparr>bp_api = Inr (\<lambda>adapters s. (Inr (), s\<lparr>bl_shown := adapters\<rparr>)),
      bp_adapter = Inr (\<lambda>handle readOnly text s. (Inr (handle, readOnly), s)),
      bp_Queue = (\<lambda>name s. (Inr name, s\<lparr>bl_opened := add_mset name (bl_opened s)\<rparr>))\<rparr>"

definition recorded_server :: "board_log board_server" where
  "recorded_server = \<lparr>sv_setBasePath = (\<lambda>path s. (Inr (), s\<lparr>bl_base := Some path\<rparr>))\<rparr>"

lemma recorded_laws: "board_laws recorded_packages recorded_server bl_opened bl_base"
  by (auto simp: board_laws_def recorded_packages_def recorded_server_def)

definition mail_board :: dashboard_options where
  "mail_board = \<lparr>bc_definitions = [mail_job, digest_job], bc_deadQueues = Some [''post''], bc_readOnly = Some False,
     do_basePath = ''/board''\<rparr>"

lemma mail_board_queues:
  "boardQueues (board_config.truncate mail_board) = Inr [live_board_queue False ''post'', dead_board_queue ''post'']"
  by (simp add: mail_board_def board_config.defs boardQueues_def mail_job_def digest_job_def given_dead_def stray_dead_def
      dead_board_queue_def deadQueueName_def DEAD_SUFFIX_def)

theorem mounted_board_shows_its_queues_witness:
  "\<exists>(s1 :: board_log) s'. mountDashboard recorded_packages recorded_server mail_board
      \<lparr>bl_opened = {#}, bl_base = None, bl_shown = []\<rparr> = (Inr (), s') \<and>
    bl_shown s' = [(''post'', False), (''post.dead'', True)] \<and>
    bl_base s1 = Some ''/board'' \<and> bl_opened s1 = {#''post'', ''post.dead''#}"
proof -
  let ?s = "\<lparr>bl_opened = {#}, bl_base = None, bl_shown = []\<rparr>"
  obtain s' where mounted: "mountDashboard recorded_packages recorded_server mail_board ?s = (Inr (), s')"
    "bl_shown s' = [(''post'', False), (''post.dead'', True)]"
    by (simp add: mountDashboard_def mail_board_queues recorded_packages_def recorded_server_def open_adapter_def
        bind_io_def live_board_queue_def dead_board_queue_def deadQueueName_def DEAD_SUFFIX_def)
  from mounted_board_shows_its_queues [OF mounted(1) recorded_laws] obtain queues and s1 :: board_log where
    "boardQueues (board_config.truncate mail_board) = Inr queues" "bl_base s1 = Some (do_basePath mail_board)"
    "bl_opened s1 = bl_opened ?s + mset (map bd_name queues)"
    by blast
  moreover from this have "queues = [live_board_queue False ''post'', dead_board_queue ''post'']"
    by (simp add: mail_board_queues)
  ultimately have "bl_base s1 = Some ''/board'' \<and> bl_opened s1 = {#''post'', ''post.dead''#}"
    by (simp add: mail_board_def live_board_queue_def dead_board_queue_def deadQueueName_def DEAD_SUFFIX_def)
  with mounted show ?thesis by blast
qed

text \<open>
  A board that is refused opened nothing: neither a configuration with no queue or with
  a stray dead queue nor a package that is missing leaves a handle or a base path.
\<close>

theorem refused_board_opens_nothing:
  "boardQueues (board_config.truncate options) = Inl e \<Longrightarrow> mountDashboard packages server options s = (Inl e, s)"
  "boardQueues (board_config.truncate options) = Inr queues \<Longrightarrow> bp_api packages = Inl failure \<Longrightarrow>
    isModuleMissing failure \<Longrightarrow> \<exists>e. mountDashboard packages server options s = (Inl e, s)"
  by (auto simp: mountDashboard_def loaded_def peerFailure_def)

end
