(* ===== verification/Divergences.thy ===== *)
theory Divergences
  imports Samples MemoryGuarantees LifecycleGuarantees RedisHandles Workers FlowTypes
begin

text \<open>
  Where the code does not do what its comments or its other parts say: each is a
  concrete run of the model. None of them contradicts a guarantee proved elsewhere,
  whose hypotheses leave these runs out.
\<close>

section \<open>The two stores of leases\<close>

text \<open>
  A body that outlived its lease completes its key after a second body completed it:
  the memory store replaces the kept result, while the script of Redis keeps the
  first one.
\<close>

theorem late_completion_differs:
  "mem_kept (snd (memory_complete ''k'' ''late'' (Some (JStr ''b'')) 1
      (memoryDriver_start\<lparr>mem_kept := [''k'' \<mapsto> Some (JStr ''a'')]\<rparr>))) ''k'' = Some (Some (JStr ''b''))"
  "redis_get ''k'' s = Some kept \<Longrightarrow> kept \<noteq> v \<Longrightarrow> snd (COMPLETE_LUA ''k'' v text 1 s) = s"
  by (simp_all add: memory_complete_def asJsonKeeps_def stringify_def COMPLETE_LUA_def memoryDriver_start_def)

text \<open>A completion writes to a key nobody holds any more, under either store.\<close>

theorem completion_needs_no_token:
  "mem_kept (snd (memory_complete ''k'' ''gone'' kept 1 memoryDriver_start)) ''k'' = Some (asJsonKeeps kept)"
  "redis_get ''k'' s = None \<Longrightarrow> snd (COMPLETE_LUA ''k'' v text 1 s) = redis_set_px ''k'' text 1 s"
  by (simp_all add: memory_complete_def memoryDriver_start_def COMPLETE_LUA_def)

section \<open>Names\<close>

text \<open>Two jobs share an idempotency key when a name carries the colon that ends it.\<close>

theorem keys_of_two_jobs_meet:
  "jd_name a = ''mail:eu'' \<Longrightarrow> jd_idempotencyKey a = Some (\<lambda>v. ''7'') \<Longrightarrow>
   jd_name b = ''mail'' \<Longrightarrow> jd_idempotencyKey b = Some (\<lambda>v. ''eu:7'') \<Longrightarrow>
   idempotencyKeyFor a x = idempotencyKeyFor b y"
  by (simp add: idempotencyKeyFor_def)

text \<open>A queue of the empty name passes the checks of \<open>start\<close> for a queue it should refuse.\<close>

theorem nameless_queue_passes:
  "assertEveryTunedQueueStarted [[]] [''post''] = Inr ()"
  "assertNoQueueConsumesADeadQueue [[]] [deadQueueName []] = Inr ()"
  by (simp_all add: assertEveryTunedQueueStarted_def assertNoQueueConsumesADeadQueue_def truthy_find_def)

text \<open>An interval of \<open>constructor\<close>s is accepted, and repeats every \<open>NaN\<close> milliseconds.\<close>

theorem constructor_is_an_interval:
  "every (\<lambda>z. True) ''1 constructor'' no_options =
    Inr \<lparr>sc_recurrence = EveryMs JNaN, sc_timezone = None, sc_data = JUndefined\<rparr>"
  by code_simp

text \<open>A live queue whose name ends as a dead queue's does is out of reach of its own ids.\<close>

theorem live_queue_named_dead_is_unreachable:
  "readLiveJobId (composeJobId ''letters.dead'' ''7'') = Inr None"
  by code_simp

section \<open>Closing\<close>

text \<open>
  A delivery that was still taking its lease, reading its children or in the start hook
  when a close ran out of time begins its body afterwards: its signal is not aborted,
  and no sweep and no close that is under way will reach it.
\<close>

theorem late_body_outlives_the_close:
  "\<exists>rt. runtime_run memoryDriver memoryDriver_start (hard_stop @ [Begins (live_mail 1)]) (rt, memoryDriver_start) \<and>
    live_mail 1 \<in> set (rt_live rt) \<and> rt_controllers rt 1 = None \<and>
    \<not> rt_sweeping rt \<and> rt_sweeps rt = [] \<and> rt_closes rt = []"
proof -
  have fresh: "rt_fresh stopped = 1" "rt_controllers stopped 1 = None" "\<not> rt_sweeping stopped" "rt_sweeps stopped = []"
    "rt_closes stopped = []"
    by (simp_all add: stopped_def close_expired_def close_settled_def close_called_def one_live_def started_runtime_def
        drainConsumers_def abort_live_def live_mail_def)
  obtain d rt where begun: "begin_body ''post'' ''mail'' \<lparr>rd_id = show_nat 1, rd_attemptsStarted = 1\<rparr> stopped = (d, rt)"
    by fastforce
  then have "d = live_mail 1"
    by (auto simp: begin_body_def live_mail_def fresh running_delivery.defs Let_def)
  with run_step [OF hard_stop_run begins [OF begun]] begin_body_facts [OF begun] fresh
  show ?thesis by auto
qed

section \<open>Timers\<close>

text \<open>
  \<open>setTimeout\<close> of the runtime the library runs on: a delay outside the range of a signed
  integer of 32 bits is a delay of one millisecond.
\<close>

definition timer_delay :: "jnum \<Rightarrow> jnum" where
  "timer_delay ms = (if num_le (JFin 1) ms \<and> num_le ms (JFin 2147483647) then ms else JFin 1)"

text \<open>
  \<open>assertTimeout\<close> accepts every finite deadline above zero, also one that is beyond that
  range: the timer of \<open>runUnderTimeout\<close> then fires at once.
\<close>

theorem long_timeout_fires_at_once:
  assumes "jd_timeoutMs d = Some (JFin 2147483648)"
  shows "assertTimeout d = Inr () \<and> timer_delay (JFin 2147483648) = JFin 1"
  using assms by (simp add: assertTimeout_def timer_delay_def)

end
