(* ===== verification/Spec2Isabelle.thy ===== *)
theory Spec2Isabelle
  imports DataGuarantees KeyGuarantees RuntimeGuarantees FlowGuarantees LifecycleGuarantees MemoryGuarantees
    RelayGuarantees AtomicGuarantees EndToEnd RedisGuarantees RedisHandles Workers FlowTypes Dashboard Divergences
begin

text \<open>
  A verification of jubs (\<open>src/src\<close>), a typed job library over BullMQ: definitions of
  jobs, a client that enqueues and operates on them, a runtime that delivers them to
  handlers, flows of parents and children, idempotency keys, cancellation, dead queues,
  atomic blocks and an outbox with its relay, over a Redis driver or a memory driver.

  \<^bold>\<open>How the program is put together.\<close> A client (\<open>Client.ts\<close>) and a runtime (\<open>Runtime.ts\<close>)
  share a driver, an object of operations on stored jobs (\<open>Driver.ts\<close>). The client checks
  a payload, resolves a delivery policy and hands the driver a request; inside an atomic
  block (\<open>Atomic.ts\<close>) the request is held, or written to an outbox table that a relay
  (\<open>Outbox.ts\<close>) empties into the driver. A worker of the driver hands each delivery to
  the runtime, which reads the envelope, migrates and validates the payload, reads the
  children of a flow (\<open>Flow.ts\<close>), takes the lease of an idempotency key
  (\<open>Idempotency.ts\<close>), runs the handler under a timer, and reports a failure to the hooks
  and the dead queue (\<open>Dead.ts\<close>). A cancellation is a mark one process writes and the
  sweep of another takes (\<open>Cancellation.ts\<close>).

  \<^bold>\<open>The theories.\<close>
  \<^item> \<open>Prelude\<close>: errors as sums with \<open>bindE\<close> and \<open>mapE\<close>, text, the collections of simp rules.
    \<open>Js\<close>: numbers with infinities and NaN, values, what JSON keeps of them. \<open>Json\<close>: the
    text of a value, written and parsed, and that parsing what was written gives what JSON
    keeps. \<open>Errors\<close>: thrown values, their classes and causes (\<open>Failure.ts\<close>).
  \<^item> The data: \<open>JobIds\<close> (\<open>JobId.ts\<close>), \<open>Definitions\<close> (\<open>Definition.ts\<close>), \<open>Envelopes\<close>
    (\<open>Envelope.ts\<close>), \<open>Validation\<close> (\<open>Payload.ts\<close>, \<open>Result.ts\<close>), \<open>Migrations\<close> (\<open>Migration.ts\<close>),
    \<open>Deliveries\<close> (\<open>Delivery.ts\<close>), \<open>Schedules\<close> (\<open>Schedule.ts\<close>), \<open>Drivers\<close> (\<open>Driver.ts\<close>: the
    record \<open>job_driver\<close> of operations, each an \<open>io\<close>, a function from a state to an outcome
    and a state).
  \<^item> The components: \<open>Flows\<close>, \<open>DeadLetters\<close>, \<open>Idempotency\<close>, \<open>Aborts\<close> (\<open>Cancellation.ts\<close>,
    \<open>Shutdown.ts\<close>), \<open>Runtime\<close> (with \<open>Hooks.ts\<close>), \<open>Atomic\<close>, \<open>Relay\<close>, \<open>Client\<close>, \<open>Board\<close>
    (\<open>dashboard/Board.ts\<close>), \<open>Dashboard\<close> (\<open>dashboard/index.ts\<close>), and \<open>FlowTypes\<close>: the types of
    \<open>Definition.ts\<close> and \<open>Client.ts\<close> that say what fills a slot and what a handler reads of it, beside the check
    \<open>Flow.ts\<close> makes when it runs.
  \<^item> The drivers: \<open>MemoryDriver\<close> (\<open>testing/index.ts\<close>), its state a record of the variables
    of \<open>memoryDriver\<close>; \<open>RedisStore\<close>, the Lua scripts over keys that expire, and
    \<open>RedisDriver\<close> (\<open>RedisDriver.ts\<close>), whose calls to BullMQ are a record \<open>bullmq\<close> it is given.
    \<open>RedisHandles\<close>: the queues, the flow producer and the scripts the driver opens once and
    keeps; \<open>Workers\<close>: the workers a runtime opens over it.
  \<^item> \<open>Cancellations\<close> and \<open>Sweeps\<close>: the channel a cancellation travels through, and the sweep
    of a runtime over it. \<open>Lifecycle\<close>: a runtime between its start and its close, a step
    relation whose events are deliveries taken and ended, sweeps, and the two ends of a
    close. \<open>EndToEnd\<close>: a job from the client's enqueue to its handler.
  \<^item> The guarantees, one theory per group: \<open>DataGuarantees\<close>, \<open>KeyGuarantees\<close>,
    \<open>RuntimeGuarantees\<close>, \<open>LifecycleGuarantees\<close>, \<open>FlowGuarantees\<close>, \<open>MemoryGuarantees\<close>,
    \<open>RelayGuarantees\<close>, \<open>AtomicGuarantees\<close>, \<open>ClientGuarantees\<close>, \<open>RedisGuarantees\<close>; those that
    span components in \<open>EndToEnd\<close>, \<open>Workers\<close> and below. \<open>Samples\<close> and \<open>QueueTable\<close> hold the
    values and the instance of BullMQ the witnesses evaluate; \<open>Divergences\<close> proves where
    the code and its comments part.

  \<^bold>\<open>The interfaces.\<close> \<open>lease_store\<close> (in \<open>Idempotency\<close>) is what a store of leases promises of
    its operations over an abstract view of a key: absent, held by a token, or complete.
    The protocol of deliveries over one key is proved inside it once, as a step relation
    with its invariant, and the memory store, the Redis scripts and the store of the
    Redis driver interpret it; \<open>leased_bodies\<close> extends it with the bodies of handlers.
    \<open>cancel_channel\<close> is what a driver promises of its marks, interpreted on both drivers;
    \<open>cancel_sweep\<close> extends it with the runtime's sweep.

  \<^bold>\<open>What is shown.\<close> One body at a time under a key and one result for every delivery
    that meets it while it is kept, leases that live as long as their body, workers that lost theirs powerless; handlers
    only over settled children; cancelled, expired, shut down and pending deliveries each
    settled, reported and buried as the code means it; a body in a runtime that sees
    what a body alone would, signals aborted for a cause and no other, and a close whose
    grace is over that reaches every running body; flows that compose exactly when the
    documented rule fills them, are never refused for the shape of an input of their types,
    carry their shape, are read back by it and give
    their handlers children of the declared types; a job
    enqueued that reaches its handler with the payload it was given; atomic blocks that
    deliver all, in order, or nothing; a relay that tries, reports and marks every row for
    what became of it, replays that move a record and never copy it, the invariant of the
    memory driver, schedulers that are the declared ones, and round trips of ids,
    envelopes, dead records, kept results and flow states.

  \<^bold>\<open>Bounds.\<close> Every definition is total but two: \<open>drain\<close> is a \<open>partial_function\<close>, shown to end
    when no run adds to the line, and a delivery over a body that never ends is \<open>None\<close>,
    shown to settle when its body ends or its timer fires. The loop of \<open>migrateEnvelope\<close>
    ends by the distance between two finite versions. There is no fuel.

  \<^bold>\<open>Idealisations.\<close> Numbers are exact rationals beside infinities and NaN, and print in
    decimals without an exponent, to the 1074 places a double can have. Text is its UTF-8
    bytes, a stack is empty text. An object is the list of its
    properties in order, without a prototype but where the code reads one. A promise that
    waits for several takes the first failure in list order. A value \<open>JSON\<close> can write is
    stored by BullMQ as what it reads back as; the keys this library writes hold its text. Schemas, policies and key functions are pure and
    total functions of a definition. A handler's body and what happens around it is a
    list of events: its effects, renewals, aborts, the timer and its end. Two errors are
    one when they are equal. Consumers of the memory driver are kept by number.

  \<^bold>\<open>Parameters.\<close> BullMQ with its workers and constructors, Bull Board and the server it is
    mounted on, the outbox table, the table of time zones and \<open>randomUUID\<close> are arguments of the
    definitions that use them; what a theorem needs of them is a hypothesis, shown to
    hold of an instance by its witness.

  \<^bold>\<open>Not modelled.\<close> The types of \<open>Definition.ts\<close> and \<open>Client.ts\<close> that TypeScript erases, but
  for those of what fills a slot and what a slot gives; the re-exports of \<open>index.ts\<close>; timers as clocks (a tick
  is an event); logging; results \<open>JSON\<close> cannot write (a cyclic object, a \<open>BigInt\<close>); and
  the scripts of the build.
\<close>

section \<open>From a client's cancellation to a handler's signal\<close>

lemma cancel_marks_the_delivery:
  assumes "bq_getJob bull q i (rw_bull w) = (Inr (Some job), b)" and "bq_getState bull q i b = (Inr BActive, b')"
  shows "redis_cancel bull q i w = (Inr Aborting,
    world_request q \<lparr>rd_id = i, rd_attemptsStarted = bj_attemptsStarted job\<rparr> (w\<lparr>rw_bull := b'\<rparr>))"
  using assms
  by (simp add: redis_cancel_def bind_io_def on_bull_def requestCancel_def on_redis_def world_request_def Let_def)

text \<open>
  C2: a client that cancels a job BullMQ reports as active is told so, and the next
  sweep of the runtime that runs it aborts that very delivery, with the name of its job
  unless it was aborted before; a delivery of the same job under another number, which
  a stalled worker may still be running, is left alone.
\<close>

theorem cancelled_job_aborts_its_handler:
  assumes "cf_driver config = redisDriver bull uuid connection"
    and "readLiveJobId jobId = Inr (Some (q, i))"
    and "bq_getJob bull q i (rw_bull w) = (Inr (Some job), b)" and "bq_getState bull q i b = (Inr BActive, b')"
    and "told_apart live" and "\<forall>d \<in> set live. CHR '':'' \<notin> set (lv_queue d)"
    and "d \<in> set live" and "lv_queue d = q" and "rd_id d = i" and "rd_attemptsStarted d = bj_attemptsStarted job"
  shows "\<exists>w' cs' w''. client_cancel config jobId w = (Inr Aborting, w') \<and>
    sweepCancellations (cf_driver config) live cs w' = (Inr cs', w'') \<and>
    cs' (lv_controller d) = abort_with (CancelledError (lv_name d) False) (cs (lv_controller d)) \<and>
    (\<forall>e \<in> set live. lv_queue e = q \<and> rd_id e = i \<and> rd_attemptsStarted e \<noteq> bj_attemptsStarted job \<longrightarrow>
       cs' (lv_controller e) = cs (lv_controller e))"
proof -
  let ?mark = "\<lparr>rd_id = i, rd_attemptsStarted = bj_attemptsStarted job\<rparr>"
  let ?w = "world_request q ?mark (w\<lparr>rw_bull := b'\<rparr>)"
  have q: "CHR '':'' \<notin> set q" using assms(2) by (simp add: readLiveJobId_Some_iff)
  have cancelled: "client_cancel config jobId w = (Inr Aborting, ?w)"
    using assms(1,2) cancel_marks_the_delivery [OF assms(3,4)]
    by (simp add: client_cancel_def bind_io_def redisDriver_def)
  have mark: "world_marks ?w q i = Some (bj_attemptsStarted job)"
    using world_sweep.request_law [OF q q, of ?mark "w\<lparr>rw_bull := b'\<rparr>" i] by simp
  note sweep = world_sweep.sweep_aborts_the_marked [OF assms(5,6), of _ bull uuid connection cs ?w]
  from sweep [OF assms(7)] mark obtain cs' w'' where
    swept: "sweepCancellations (cf_driver config) live cs ?w = (Inr cs', w'')"
      "cs' (lv_controller d) = abort_with (CancelledError (lv_name d) False) (cs (lv_controller d))"
    unfolding assms(1,8-10) by auto
  have "cs' (lv_controller e) = cs (lv_controller e)"
    if "e \<in> set live" "lv_queue e = q" "rd_id e = i" "rd_attemptsStarted e \<noteq> bj_attemptsStarted job" for e
    using sweep [OF that(1)] that(2-4) mark swept(1) unfolding assms(1) by auto
  with cancelled swept show ?thesis by blast
qed

definition redis_client :: "queue_table redis_world client_config" where
  "redis_client = \<lparr>cf_driver = table_driver, cf_definitions = Some [mail_job], cf_deadQueues = None, cf_timezone = None,
     cf_hooks = \<lparr>hk_onStart = None, hk_onSuccess = None, hk_onAttemptFailed = None, hk_onDead = None\<rparr>,
     cf_outbox = None\<rparr>"

definition active_world :: "queue_table redis_world" where
  "active_world = empty_world\<lparr>rw_bull := \<lparr>qb_jobs = [((''post'', ''7''), (mail_delivery, BActive))], qb_schedulers = []\<rparr>\<rparr>"

definition delivery_number :: "nat \<Rightarrow> live_delivery" where
  "delivery_number n = \<lparr>rd_id = ''7'', rd_attemptsStarted = n, lv_queue = ''post'', lv_name = ''mail'', lv_controller = n\<rparr>"

theorem cancelled_job_aborts_its_handler_witness:
  "\<exists>w' cs' w''. client_cancel redis_client ''post:7'' active_world = (Inr Aborting, w') \<and>
    sweepCancellations table_driver [delivery_number 2, delivery_number 3] (\<lambda>n. None) w' = (Inr cs', w'') \<and>
    cs' 3 = Some (CancelledError ''mail'' False) \<and> cs' 2 = None"
proof -
  let ?live = "[delivery_number 2, delivery_number 3]"
  have driver: "cf_driver redis_client = redisDriver table_bull show_nat blocking_connection"
    by (simp add: redis_client_def table_driver_def)
  have read: "readLiveJobId ''post:7'' = Inr (Some (''post'', ''7''))" by code_simp
  have bull: "bq_getJob table_bull ''post'' ''7'' (rw_bull active_world) = (Inr (Some mail_delivery), rw_bull active_world)"
    "bq_getState table_bull ''post'' ''7'' (rw_bull active_world) = (Inr BActive, rw_bull active_world)"
    by (simp_all add: active_world_def)
  have apart: "told_apart ?live" "\<forall>d \<in> set ?live. CHR '':'' \<notin> set (lv_queue d)" "delivery_number 3 \<in> set ?live"
    by (simp_all add: told_apart_def delivery_number_def as_running_def running_delivery.defs)
  have third: "lv_queue (delivery_number 3) = ''post''" "rd_id (delivery_number 3) = ''7''"
    "rd_attemptsStarted (delivery_number 3) = bj_attemptsStarted mail_delivery"
    by (simp_all add: delivery_number_def mail_delivery_def)
  have others: "lv_controller (delivery_number n) = n" "lv_name (delivery_number n) = ''mail''"
    "lv_queue (delivery_number n) = ''post''" "rd_id (delivery_number n) = ''7''"
    "rd_attemptsStarted (delivery_number n) = n" "bj_attemptsStarted mail_delivery = 3" for n
    by (simp_all add: delivery_number_def mail_delivery_def)
  from cancelled_job_aborts_its_handler [OF driver read bull apart third, of "\<lambda>n. None"]
  show ?thesis by (auto simp: others abort_with_def redis_client_def)
qed

section \<open>From a transaction to the queue\<close>

text \<open>
  C12: a job enqueued inside a block under a transaction leaves the driver alone and
  puts one envelope in what the block writes; the relay that claims it back as a row,
  under any id a job id can be derived from, makes of it the request the definition
  asks for: its queue, that envelope with the payload enqueued, its delivery policy
  without uniqueness, and an id derived from the row alone.
\<close>

theorem outbox_row_becomes_the_job:
  assumes "\<not> as_closed (wd_scopes w n)" and "as_write (wd_scopes w n) = Some tx" and "slotsOf d = []"
    and "client_enqueue config d data awaits (Some n) w = (Inr None, w')"
    and "rl_definitions relay = Some ds" and "d \<in> set ds" and "distinct (map jd_name ds)"
    and "rowId \<noteq> []" and "CHR '':'' \<notin> set rowId" and "is_finite (payloadVersion d)"
  shows "\<exists>envelope validated dl. wd_state w' = wd_state w \<and>
    as_written (wd_scopes w' n) = as_written (wd_scopes w n) @ [envelope] \<and>
    env_name envelope = jd_name d \<and> env_data envelope = data \<and>
    validatePayload d data = Inr validated \<and> resolveDeliveryWithoutUniqueness d validated = Inr dl \<and>
    row_request relay \<lparr>ce_id = rowId, ce_envelope = envelope\<rparr> =
      Inr \<lparr>rq_queue = jd_queue d, rq_envelope = envelope, rq_delivery = dl, rq_jobId = Some (''outbox-'' @ rowId)\<rparr>"
proof -
  let ?envelope = "(writeEnvelope d data Direct)\<lparr>env_origin := Relay\<rparr>"
  from assms(4) obtain validated where v: "validatePayload d data = Inr validated"
    and w': "w' = put_scope n ((wd_scopes w n)\<lparr>as_written := as_written (wd_scopes w n) @ [?envelope]\<rparr>) w"
    using assms(1-3)
    by (auto simp: client_enqueue_def heldOrNamed_def holdOrDeliver_def envelopeForOutbox_def bind_io_eq_Inr lift_io_eq
        Let_def ret_io_def simp del: bind_lift_io split: sum.splits option.splits if_splits)
  from resolve_without_unique [of d validated] obtain dl where
    dl: "resolveDeliveryWithoutUniqueness d validated = Inr dl"
    by (auto simp: resolveDeliveryWithoutUniqueness_def)
  have "find (\<lambda>x. jd_name x = jd_name d) ds = Some d"
    using assms(6,7) by (induction ds) auto
  then have def_of: "definitionOf relay \<lparr>ce_id = rowId, ce_envelope = ?envelope\<rparr> = Inr d"
    using assms(3,5) by (simp add: definitionOf_def)
  have "num_le (payloadVersion d) (payloadVersion d)" "\<not> num_lt (payloadVersion d) (payloadVersion d)"
    using assms(10) by (cases "payloadVersion d"; simp)+
  then have "migrateEnvelope d ?envelope = Inr data"
    using migrateEnvelope_current [of ?envelope d] by simp
  with v dl def_of assms(8,9) have "row_request relay \<lparr>ce_id = rowId, ce_envelope = ?envelope\<rparr> =
      Inr \<lparr>rq_queue = jd_queue d, rq_envelope = ?envelope, rq_delivery = dl, rq_jobId = Some (''outbox-'' @ rowId)\<rparr>"
    by (simp add: row_request_def outboxJobId_def)
  with v dl w' show ?thesis by (intro exI [of _ ?envelope] exI [of _ validated] exI [of _ dl]) simp
qed

definition writing_world :: "memory world" where
  "writing_world = start_world\<lparr>wd_scopes := (\<lambda>n. new_scope (Some (JStr ''tx'')))\<rparr>"

theorem outbox_row_becomes_the_job_witness:
  "\<exists>w' envelope. client_enqueue memory_client mail_job (JStr ''hi'') JUndefined (Some 0) writing_world = (Inr None, w') \<and>
    as_written (wd_scopes w' 0) = [envelope] \<and>
    row_request memory_relay \<lparr>ce_id = ''2'', ce_envelope = envelope\<rparr> =
      Inr \<lparr>rq_queue = ''post'', rq_envelope = envelope, rq_delivery = DELIVERY_DEFAULTS, rq_jobId = Some ''outbox-2''\<rparr>"
proof -
  have accepted: "validatePayload mail_job (JStr ''hi'') = Inr (JStr ''hi'')"
    "resolveDelivery mail_job (JStr ''hi'') = Inr DELIVERY_DEFAULTS"
    "resolveDeliveryWithoutUniqueness mail_job (JStr ''hi'') = Inr DELIVERY_DEFAULTS"
    by (simp_all add: mail_job_def validatePayload_def any_payload_def resolveDelivery_def
        resolveDeliveryWithoutUniqueness_def resolve_def delivery_defaults_for_def)
  obtain w' where sent: "client_enqueue memory_client mail_job (JStr ''hi'') JUndefined (Some 0) writing_world = (Inr None, w')"
    by (simp add: client_enqueue_def mail_slots accepted heldOrNamed_def holdOrDeliver_def bind_io_def writing_world_def
        new_scope_def envelopeForOutbox_def DELIVERY_DEFAULTS_def Let_def)
  have scope: "\<not> as_closed (wd_scopes writing_world 0)" "as_write (wd_scopes writing_world 0) = Some (JStr ''tx'')"
    "as_written (wd_scopes writing_world 0) = []"
    by (simp_all add: writing_world_def)
  have known: "rl_definitions memory_relay = Some [mail_job]" "mail_job \<in> set [mail_job]" "distinct (map jd_name [mail_job])"
    "''2'' \<noteq> []" "CHR '':'' \<notin> set ''2''" "is_finite (payloadVersion mail_job)"
    by (simp_all add: memory_relay_def payloadVersion_def mail_job_def DEFAULT_PAYLOAD_VERSION_def)
  have "jd_queue mail_job = ''post''" by (simp add: mail_job_def)
  with outbox_row_becomes_the_job [OF scope(1,2) mail_slots sent known] sent scope(3) accepted show ?thesis by auto
qed

end
